(* ===== verification/Axon_Prelude.thy ===== *)
theory Axon_Prelude
  imports Main "HOL-Library.Word" "HOL-Library.Monad_Syntax"
begin

text \<open>
  The vocabulary the component theories share.

  \<^item> Machine integers: Rust's \<open>u8\<close>, \<open>u16\<close>, \<open>u32\<close> and \<open>u64\<close> are words of that width, so
    \<open>+\<close> is \<open>wrapping_add\<close> (and \<open>AtomicU64::fetch_add\<close>).  A \<open>usize\<close> that only counts
    elements or bytes of a list is a \<open>nat\<close>.
  \<^item> Byte strings: \<open>Vec<u8>\<close> and \<open>&[u8]\<close> are \<open>byte list\<close>.  A Rust \<open>String\<close> is its UTF-8
    encoding; a \<open>char\<close> of HOL is one byte, so a \<open>String\<close> is a \<open>string\<close> of HOL, with \<open>as_bytes\<close>
    reading it as bytes.
  \<^item> \<open>to_le_bytes\<close>, \<open>to_be_bytes\<close> and their inverses, saturating and checked
    arithmetic, and slices copied into the front of a buffer.
  \<^item> The text functions that parse environment variables, and hash tables as association lists.
\<close>

unbundle bit_operations_syntax

subsection \<open>Types\<close>

type_synonym byte = "8 word"
type_synonym u8 = "8 word"
type_synonym u16 = "16 word"
type_synonym u32 = "32 word"
type_synonym u64 = "64 word"
type_synonym u128 = "128 word"
type_synonym bytes = "8 word list"

text \<open>A fallible operation: \<open>Inl\<close> carries the error of \<open>Err\<close>, \<open>Inr\<close> the value of \<open>Ok\<close>.\<close>

type_synonym ('a, 'e) rust_result = "'e + 'a"

abbreviation Err :: "'e \<Rightarrow> 'e + 'a" where "Err \<equiv> Inl"
abbreviation Ok :: "'a \<Rightarrow> 'e + 'a" where "Ok \<equiv> Inr"

named_theorems codec_simps \<open>round-trip equations of the byte codecs\<close>
named_theorems size_simps \<open>lengths of encoded data\<close>

subsection \<open>Integers as bytes\<close>

primrec nat_to_le :: "nat \<Rightarrow> nat \<Rightarrow> bytes" where
  "nat_to_le 0 x = []"
| "nat_to_le (Suc n) x = of_nat (x mod 256) # nat_to_le n (x div 256)"

primrec le_to_nat :: "bytes \<Rightarrow> nat" where
  "le_to_nat [] = 0"
| "le_to_nat (b # bs) = unat b + 256 * le_to_nat bs"

definition u16_to_le :: "u16 \<Rightarrow> bytes" where "u16_to_le w = nat_to_le 2 (unat w)"
definition u32_to_le :: "u32 \<Rightarrow> bytes" where "u32_to_le w = nat_to_le 4 (unat w)"
definition u64_to_le :: "u64 \<Rightarrow> bytes" where "u64_to_le w = nat_to_le 8 (unat w)"
definition u128_to_le :: "u128 \<Rightarrow> bytes" where "u128_to_le w = nat_to_le 16 (unat w)"
definition u16_to_be :: "u16 \<Rightarrow> bytes" where "u16_to_be w = rev (nat_to_le 2 (unat w))"
definition u32_to_be :: "u32 \<Rightarrow> bytes" where "u32_to_be w = rev (nat_to_le 4 (unat w))"
definition u64_to_be :: "u64 \<Rightarrow> bytes" where "u64_to_be w = rev (nat_to_le 8 (unat w))"

definition from_le :: "bytes \<Rightarrow> 'a::len word" where "from_le bs = of_nat (le_to_nat bs)"
definition from_be :: "bytes \<Rightarrow> 'a::len word" where "from_be bs = of_nat (le_to_nat (rev bs))"

lemmas int_codec_defs =
  u16_to_le_def u32_to_le_def u64_to_le_def u128_to_le_def
  u16_to_be_def u32_to_be_def u64_to_be_def from_le_def from_be_def

lemma length_nat_to_le [simp, size_simps]: "length (nat_to_le n x) = n"
  by (induction n arbitrary: x) auto

lemma le_to_nat_to_le: "le_to_nat (nat_to_le n x) = x mod 256 ^ n"
proof (induction n arbitrary: x)
  case (Suc n)
  have "unat (of_nat (x mod 256) :: byte) = x mod 256"
    by (simp add: unat_of_nat)
  with Suc show ?case by (simp add: mod_mult2_eq)
qed simp

lemma le_to_nat_bound: "le_to_nat bs < 256 ^ length bs"
proof (induction bs)
  case (Cons b bs)
  have "unat b < 256" using unsigned_less [of b, where 'a = nat] by simp
  with Cons show ?case by simp
qed simp

lemma nat_to_le_to_nat: "length bs = n \<Longrightarrow> nat_to_le n (le_to_nat bs) = bs"
proof (induction bs arbitrary: n)
  case (Cons b bs)
  have b: "unat b < 256" using unsigned_less [of b, where 'a = nat] by simp
  then have "(unat b + 256 * le_to_nat bs) mod 256 = unat b"
       "(unat b + 256 * le_to_nat bs) div 256 = le_to_nat bs" by simp_all
  with Cons show ?case by auto
qed simp

lemma length_int_bytes [simp, size_simps]:
  "length (u16_to_le a) = 2" "length (u32_to_le b) = 4" "length (u64_to_le c) = 8"
  "length (u128_to_le d) = 16" "length (u16_to_be a) = 2" "length (u32_to_be b) = 4"
  "length (u64_to_be c) = 8"
  by (simp_all add: int_codec_defs)

lemma unat_mod_width: "unat (w :: 'a::len word) mod 2 ^ LENGTH('a) = unat w"
  using unsigned_less [of w, where 'a = nat] by simp

lemma from_le_u16 [simp, codec_simps]: "from_le (u16_to_le w) = w"
  using unat_mod_width [of w] by (simp add: int_codec_defs le_to_nat_to_le)

lemma from_le_u32 [simp, codec_simps]: "from_le (u32_to_le w) = w"
  using unat_mod_width [of w] by (simp add: int_codec_defs le_to_nat_to_le)

lemma from_le_u64 [simp, codec_simps]: "from_le (u64_to_le w) = w"
  using unat_mod_width [of w] by (simp add: int_codec_defs le_to_nat_to_le)

lemma from_le_u128 [simp, codec_simps]: "from_le (u128_to_le w) = w"
  using unat_mod_width [of w] by (simp add: int_codec_defs le_to_nat_to_le)

lemma from_be_u16 [simp, codec_simps]: "from_be (u16_to_be w) = w"
  using unat_mod_width [of w] by (simp add: int_codec_defs le_to_nat_to_le)

lemma from_be_u32 [simp, codec_simps]: "from_be (u32_to_be w) = w"
  using unat_mod_width [of w] by (simp add: int_codec_defs le_to_nat_to_le)

lemma from_be_u64 [simp, codec_simps]: "from_be (u64_to_be w) = w"
  using unat_mod_width [of w] by (simp add: int_codec_defs le_to_nat_to_le)

subsection \<open>Strings as bytes\<close>

definition as_bytes :: "string \<Rightarrow> bytes" where
  "as_bytes s = map (\<lambda>c. of_nat (of_char c)) s"

definition string_of_bytes :: "bytes \<Rightarrow> string" where
  "string_of_bytes bs = map (\<lambda>b. char_of (unat b)) bs"

lemma length_as_bytes [simp, size_simps]: "length (as_bytes s) = length s"
  by (simp add: as_bytes_def)

lemma length_string_of_bytes [simp, size_simps]: "length (string_of_bytes bs) = length bs"
  by (simp add: string_of_bytes_def)

lemma of_char_word_unat: "unat (of_nat (of_char c) :: byte) = of_char c"
proof -
  have "(of_char c :: nat) < 256" by simp
  then show ?thesis by (simp add: unat_of_nat)
qed

lemma string_of_bytes_as_bytes [simp, codec_simps]: "string_of_bytes (as_bytes s) = s"
  by (induction s) (simp_all add: as_bytes_def string_of_bytes_def of_char_word_unat)

lemma as_bytes_string_of_bytes [simp]: "as_bytes (string_of_bytes bs) = bs"
proof (induction bs)
  case (Cons b bs)
  have "unat b < 256" using unsigned_less [of b, where 'a = nat] by simp
  with Cons show ?case by (simp add: as_bytes_def string_of_bytes_def)
qed (simp add: as_bytes_def string_of_bytes_def)

lemma as_bytes_inject [simp]: "as_bytes s = as_bytes t \<longleftrightarrow> s = t"
  by (metis string_of_bytes_as_bytes)

subsection \<open>Saturating and checked arithmetic\<close>

definition sat_add64 :: "u64 \<Rightarrow> u64 \<Rightarrow> u64" where
  "sat_add64 a b = (if unat a + unat b < 2 ^ 64 then a + b else - 1)"

definition sat_sub64 :: "u64 \<Rightarrow> u64 \<Rightarrow> u64" where
  "sat_sub64 a b = (if b \<le> a then a - b else 0)"

definition sat_mul64 :: "u64 \<Rightarrow> u64 \<Rightarrow> u64" where
  "sat_mul64 a b = (if unat a * unat b < 2 ^ 64 then a * b else - 1)"

definition checked_sub64 :: "u64 \<Rightarrow> u64 \<Rightarrow> u64 option" where
  "checked_sub64 a b = (if b \<le> a then Some (a - b) else None)"

lemma unat_sat_sub64 [simp]: "unat (sat_sub64 a b) = unat a - unat b"
  by (simp add: sat_sub64_def unat_sub word_le_nat_alt)

lemma unat_max64: "unat (- 1 :: u64) = 2 ^ 64 - 1"
  by (simp add: unsigned_minus_1_eq_mask mask_eq_exp_minus_1)

lemma unat_sat_add64: "unat (sat_add64 a b) = min (unat a + unat b) (2 ^ 64 - 1)"
  by (auto simp: sat_add64_def unat_max64 unat_word_ariths)

lemma unat_sat_mul64: "unat (sat_mul64 a b) = min (unat a * unat b) (2 ^ 64 - 1)"
  by (auto simp: sat_mul64_def unat_max64 unat_word_ariths)

lemma unat_Suc64: "unat (w :: u64) + 1 < 2 ^ 64 \<Longrightarrow> unat (w + 1) = unat w + 1"
  by (simp add: unat_word_ariths)

lemma unat_of_nat64: "k < 2 ^ 64 \<Longrightarrow> unat (of_nat k :: u64) = k"
  by (simp add: unat_of_nat)

lemma unat_of_nat16: "k < 2 ^ 16 \<Longrightarrow> unat (of_nat k :: u16) = k"
  by (simp add: unat_of_nat)

lemma unat_of_nat32: "k < 2 ^ 32 \<Longrightarrow> unat (of_nat k :: u32) = k"
  by (simp add: unat_of_nat)

lemma unat_ucast_up64 [simp]: "unat (ucast (w :: u32) :: u64) = unat w"
  using unsigned_less [of w, where 'a = nat]
  by (simp add: unsigned_ucast_eq take_bit_nat_eq_self_iff)

subsection \<open>Buffers\<close>

text \<open>\<open>out[..data.len()].copy_from_slice(data)\<close> for \<open>data.len() <= out.len()\<close>.\<close>

definition copy_into :: "bytes \<Rightarrow> bytes \<Rightarrow> bytes" where
  "copy_into out data = data @ drop (length data) out"

lemma length_copy_into [simp]: "length data \<le> length out \<Longrightarrow> length (copy_into out data) = length out"
  by (simp add: copy_into_def)

lemma take_copy_into [simp]: "take (length data) (copy_into out data) = data"
  by (simp add: copy_into_def)

text \<open>A computation that may also panic.\<close>

datatype 'a outcome = Panic | Return 'a

text \<open>A computation that may wait forever.\<close>

datatype 'a blocking = Blocks | Completes 'a

subsection \<open>Text of environment variables\<close>

text \<open>\<open>str::trim\<close> on a UTF-8 string: the white space characters are tab, line feed, vertical tab, form
  feed, carriage return, space, U+0085, U+00A0, U+1680, U+2000 to U+200A, U+2028, U+2029, U+202F,
  U+205F and U+3000.\<close>

definition whitespace_chars :: "nat list list" where
  "whitespace_chars =
     map (\<lambda>c. [c]) [9, 10, 11, 12, 13, 32] @ [[0xC2, 0x85], [0xC2, 0xA0], [0xE1, 0x9A, 0x80]] @
     map (\<lambda>i. [0xE2, 0x80, 0x80 + i]) [0..<11] @
     [[0xE2, 0x80, 0xA8], [0xE2, 0x80, 0xA9], [0xE2, 0x80, 0xAF], [0xE2, 0x81, 0x9F], [0xE3, 0x80, 0x80]]"

definition codes :: "string \<Rightarrow> nat list" where
  "codes s = map of_char s"

function strip_front :: "nat list list \<Rightarrow> nat list \<Rightarrow> nat list" where
  "strip_front ws s =
     (case find (\<lambda>w. w \<noteq> [] \<and> take (length w) s = w) ws of
        None \<Rightarrow> s
      | Some w \<Rightarrow> if s = [] then s else strip_front ws (drop (length w) s))"
  by pat_completeness auto
termination
proof (relation "measure (\<lambda>(ws, s). length s)")
  fix ws s w
  assume "find (\<lambda>w. w \<noteq> [] \<and> take (length w) s = w) ws = Some w" and "s \<noteq> []"
  then have "w \<noteq> []" by (auto simp: find_Some_iff)
  with \<open>s \<noteq> []\<close> show "((ws, drop (length w) s), ws, s) \<in> measure (\<lambda>(ws, s). length s)" by simp
qed simp

declare strip_front.simps [simp del]

definition trim :: "string \<Rightarrow> string" where
  "trim s =
     (let a = strip_front whitespace_chars (codes s);
          b = rev (strip_front (map rev whitespace_chars) (rev a)) in
      map char_of b)"

definition to_ascii_lowercase :: "string \<Rightarrow> string" where
  "to_ascii_lowercase s =
     map (\<lambda>c. let n = of_char c in if 65 \<le> n \<and> n \<le> (90 :: nat) then char_of (n + 32) else c) s"

text \<open>\<open>str::parse\<close> for unsigned integers below \<open>2^w\<close> and for \<open>i32\<close>.\<close>

definition is_digit :: "char \<Rightarrow> bool" where
  "is_digit c \<longleftrightarrow> 48 \<le> (of_char c :: nat) \<and> of_char c \<le> (57 :: nat)"

definition digits_value :: "string \<Rightarrow> nat" where
  "digits_value s = foldl (\<lambda>a c. a * 10 + (of_char c - 48)) 0 s"

definition parse_digits :: "string \<Rightarrow> nat option" where
  "parse_digits s = (if s = [] \<or> \<not> list_all is_digit s then None else Some (digits_value s))"

definition parse_unsigned :: "nat \<Rightarrow> string \<Rightarrow> nat option" where
  "parse_unsigned w s =
     (let ds = (case s of CHR ''+'' # t \<Rightarrow> t | _ \<Rightarrow> s) in
      case parse_digits ds of Some n \<Rightarrow> if n < 2 ^ w then Some n else None | None \<Rightarrow> None)"

definition parse_i32 :: "string \<Rightarrow> int option" where
  "parse_i32 s =
     (case s of
        CHR ''-'' # t \<Rightarrow>
          (case parse_digits t of Some n \<Rightarrow> if n \<le> 2 ^ 31 then Some (- int n) else None | None \<Rightarrow> None)
      | _ \<Rightarrow>
          (case parse_unsigned 31 s of Some n \<Rightarrow> Some (int n) | None \<Rightarrow> None))"

subsection \<open>Hash tables\<close>

text \<open>A hash table is an association list with distinct keys; its order stands for the iteration order
  of the table.\<close>

text \<open>\<open>if let Some(v) = map.get(&k)\<close> followed by a change of \<open>v\<close>.\<close>

definition adjust :: "'k \<Rightarrow> ('v \<Rightarrow> 'v) \<Rightarrow> ('k \<times> 'v) list \<Rightarrow> ('k \<times> 'v) list" where
  "adjust k f xs = map (\<lambda>(k', v). (k', if k' = k then f v else v)) xs"

text \<open>\<open>HashMap::insert\<close> and \<open>HashMap::remove\<close>.\<close>

definition insert_kv :: "'k \<Rightarrow> 'v \<Rightarrow> ('k \<times> 'v) list \<Rightarrow> ('k \<times> 'v) list" where
  "insert_kv k v xs = (if k \<in> fst ` set xs then adjust k (\<lambda>_. v) xs else xs @ [(k, v)])"

definition remove_kv :: "'k \<Rightarrow> ('k \<times> 'v) list \<Rightarrow> ('k \<times> 'v) list" where
  "remove_kv k xs = filter (\<lambda>(k', _). k' \<noteq> k) xs"

lemma adjust_simps [simp]:
  "adjust k f [] = []"
  "adjust k f (x # xs) = (fst x, if fst x = k then f (snd x) else snd x) # adjust k f xs"
  by (auto simp: adjust_def split: prod.splits)

lemma adjust_absent: "k \<notin> fst ` set xs \<Longrightarrow> adjust k f xs = xs"
  by (induction xs) auto

lemma keys_adjust [simp]: "map fst (adjust k f xs) = map fst xs"
  by (induction xs) auto

lemma map_of_adjust [simp]: "map_of (adjust k f xs) = (map_of xs)(k := map_option f (map_of xs k))"
  by (induction xs) (auto simp: fun_eq_iff)

lemma map_of_insert_kv [simp]: "map_of (insert_kv k v xs) = (map_of xs)(k \<mapsto> v)"
proof (cases "k \<in> fst ` set xs")
  case True
  then obtain v' where "map_of xs k = Some v'" by (meson domD domIff map_of_eq_None_iff)
  with True show ?thesis by (simp add: insert_kv_def)
next
  case False
  then have "map_of xs k = None" by (simp add: map_of_eq_None_iff)
  with False show ?thesis by (auto simp: insert_kv_def map_add_def fun_eq_iff split: option.splits)
qed

lemma keys_insert_kv: "fst ` set (insert_kv k v xs) = insert k (fst ` set xs)"
  using list.set_map [of fst "adjust k (\<lambda>_. v) xs"] by (auto simp: insert_kv_def)

lemma distinct_insert_kv [simp]: "distinct (map fst xs) \<Longrightarrow> distinct (map fst (insert_kv k v xs))"
  by (auto simp: insert_kv_def)

lemma map_of_remove_kv [simp]: "map_of (remove_kv k xs) = (map_of xs)(k := None)"
  by (induction xs) (auto simp: remove_kv_def fun_eq_iff)

lemma distinct_remove_kv [simp]: "distinct (map fst xs) \<Longrightarrow> distinct (map fst (remove_kv k xs))"
  by (simp add: remove_kv_def distinct_map_filter)

lemma sum_adjust:
  fixes g :: "'v \<Rightarrow> int"
  assumes "distinct (map fst xs)" "map_of xs k = Some v"
  shows "(\<Sum>x\<leftarrow>adjust k f xs. g (snd x)) = (\<Sum>x\<leftarrow>xs. g (snd x)) - g v + g (f v)"
  using assms
proof (induction xs)
  case (Cons x xs)
  then show ?case by (cases x) (auto simp: adjust_absent split: if_splits)
qed simp

lemma sum_remove:
  fixes g :: "'v \<Rightarrow> int"
  assumes "\<forall>x \<in> set xs. 0 \<le> g (snd x)"
  shows "(\<Sum>x\<leftarrow>remove_kv k xs. g (snd x)) \<le> (\<Sum>x\<leftarrow>xs. g (snd x))"
  using assms by (induction xs) (auto simp: remove_kv_def)

end
