(* ===== verification/Subscriber_Queue.thy ===== *)
theory Subscriber_Queue
  imports Axon_Prelude
begin

text \<open>
  The bounded per-topic queue of samples received from the network
  (\<open>axon_core/src/subscriber_queue.rs\<close>).

  The mutex-protected deque is the list \<open>sq_messages\<close> of sequence number and payload, oldest
  first; the atomics \<open>next_seq\<close>, \<open>len\<close> and \<open>active\<close> are fields of the same record, and an
  operation is the whole locked section of the method.  \<open>Instant::now()\<close> is an argument.  The
  output slice of the reading operations is passed in and returned.

  The lemmas show the invariant of the queue (bounded, sequence numbers increasing, a timestamp for
  exactly the retained samples), the retention law (the last \<open>capacity\<close> samples survive), and
  what each reader returns for a cursor before, inside and after the retained window.
\<close>

subsection \<open>State\<close>

type_synonym instant = nat

record subscriber_queue =
  sq_messages :: "(u64 \<times> bytes) list"
  sq_capacity :: nat
  sq_next_seq :: u64
  sq_len :: u64
  sq_active :: bool
  sq_keep_all :: bool
  sq_timestamps :: "u64 \<Rightarrow> instant option"

subsection \<open>Operations\<close>

definition with_seq_and_mode :: "nat \<Rightarrow> u64 \<Rightarrow> bool \<Rightarrow> subscriber_queue" where
  "with_seq_and_mode capacity start_seq keep_all =
     \<lparr> sq_messages = [], sq_capacity = max capacity 1, sq_next_seq = start_seq, sq_len = 0,
       sq_active = False, sq_keep_all = keep_all, sq_timestamps = (\<lambda>_. None) \<rparr>"

definition sq_with_seq :: "nat \<Rightarrow> u64 \<Rightarrow> subscriber_queue" where
  "sq_with_seq capacity start_seq = with_seq_and_mode capacity start_seq False"

definition sq_new :: "nat \<Rightarrow> subscriber_queue" where
  "sq_new capacity = with_seq_and_mode capacity 0 False"

text \<open>The eviction loop of \<open>push\<close>: drop from the front while the deque is at capacity.\<close>

fun evict :: "nat \<Rightarrow> (u64 \<times> bytes) list \<Rightarrow> (u64 \<Rightarrow> instant option)
    \<Rightarrow> (u64 \<times> bytes) list \<times> (u64 \<Rightarrow> instant option)" where
  "evict cap [] ts = ([], ts)"
| "evict cap (m # ms) ts =
     (if cap \<le> length (m # ms) then evict cap ms (ts(fst m := None)) else (m # ms, ts))"

definition sq_push :: "subscriber_queue \<Rightarrow> bytes \<Rightarrow> instant \<Rightarrow> subscriber_queue \<times> u64 option" where
  "sq_push q data now =
     (let s = sq_next_seq q;
          q1 = q\<lparr>sq_next_seq := s + 1\<rparr> in
      if sq_keep_all q \<and> sq_capacity q \<le> length (sq_messages q) then (q1, None)
      else
        (let (ms, ts) = evict (sq_capacity q) (sq_messages q) (sq_timestamps q);
             ms' = ms @ [(s, data)] in
         (q1\<lparr>sq_messages := ms', sq_timestamps := ts(s := Some now),
             sq_len := of_nat (length ms'), sq_active := True\<rparr>, Some s)))"

definition timestamp_for :: "subscriber_queue \<Rightarrow> u64 \<Rightarrow> instant option" where
  "timestamp_for q s = sq_timestamps q s"

definition try_take :: "subscriber_queue \<Rightarrow> u64 \<Rightarrow> bytes
    \<Rightarrow> subscriber_queue \<times> bytes \<times> (nat \<times> u64) option" where
  "try_take q s out =
     (case sq_messages q of
        [] \<Rightarrow> (q, out, None)
      | m0 # _ \<Rightarrow>
        (let ms = sq_messages q; oldest = fst m0 in
         if s < oldest then
           (let (actual, data) = last ms in
            if length out < length data then (q, out, Some (length data, actual))
            else (q\<lparr>sq_messages := [], sq_len := 0, sq_timestamps := (\<lambda>_. None)\<rparr>,
                  copy_into out data, Some (length data, actual)))
         else
           (let offset = unat (sat_sub64 s oldest) in
            if length ms \<le> offset then (q, out, None)
            else
              (let (actual, data) = ms ! offset in
               if length out < length data then (q, out, Some (length data, actual))
               else (q\<lparr>sq_messages := drop (Suc offset) ms,
                       sq_len := of_nat (length (drop (Suc offset) ms)),
                       sq_timestamps := (\<lambda>k. if oldest \<le> k \<and> k \<le> actual then None
                                             else sq_timestamps q k)\<rparr>,
                     copy_into out data, Some (length data, actual))))))"

text \<open>The cursor logic \<open>read_at\<close>, \<open>peek_prefix\<close> and \<open>peek_size\<close> share: the sequence number
  that is reported and the payload found at its offset.\<close>

definition locate :: "subscriber_queue \<Rightarrow> u64 \<Rightarrow> (u64 \<times> bytes) option" where
  "locate q s =
     (case sq_messages q of
        [] \<Rightarrow> None
      | m0 # _ \<Rightarrow>
        (let ms = sq_messages q; oldest = fst m0; newest = fst (last ms) in
         if newest < s then None
         else
           (let actual = (if s < oldest then newest else s);
                offset = unat (sat_sub64 actual oldest) in
            if offset < length ms then Some (actual, snd (ms ! offset)) else None)))"

definition read_at :: "subscriber_queue \<Rightarrow> u64 \<Rightarrow> bytes \<Rightarrow> bytes \<times> (nat \<times> u64) option" where
  "read_at q s out =
     (case locate q s of
        None \<Rightarrow> (out, None)
      | Some (actual, data) \<Rightarrow>
          if length out < length data then (out, Some (length data, actual))
          else (copy_into out data, Some (length data, actual)))"

definition sq_data_available_from :: "subscriber_queue \<Rightarrow> u64 \<Rightarrow> bool" where
  "sq_data_available_from q s = (sq_messages q \<noteq> [] \<and> s \<le> fst (last (sq_messages q)))"

definition sq_is_full :: "subscriber_queue \<Rightarrow> bool" where
  "sq_is_full q = (sq_capacity q \<le> unat (sq_len q))"

definition sq_message_size :: "subscriber_queue \<Rightarrow> u64 \<Rightarrow> nat option" where
  "sq_message_size q s =
     (case sq_messages q of
        [] \<Rightarrow> None
      | m0 # _ \<Rightarrow>
        (let ms = sq_messages q; oldest = fst m0 in
         if s < oldest then Some (length (snd (last ms)))
         else
           (let offset = unat (sat_sub64 s oldest) in
            if offset < length ms then Some (length (snd (ms ! offset))) else None)))"

definition peek_prefix :: "subscriber_queue \<Rightarrow> u64 \<Rightarrow> (bytes \<times> u64) option" where
  "peek_prefix q s =
     (case locate q s of
        None \<Rightarrow> None
      | Some (actual, raw) \<Rightarrow> Some (copy_into (replicate 5 0) (take 5 raw), actual))"

definition peek_size :: "subscriber_queue \<Rightarrow> u64 \<Rightarrow> (nat \<times> u64) option" where
  "peek_size q s =
     (case locate q s of
        None \<Rightarrow> None
      | Some (actual, d) \<Rightarrow> Some (length d, actual))"

definition push_all :: "subscriber_queue \<Rightarrow> (bytes \<times> instant) list \<Rightarrow> subscriber_queue" where
  "push_all q ds = foldl (\<lambda>q (d, t). fst (sq_push q d t)) q ds"

text \<open>The calls that change a queue, in the order its lock is taken.\<close>

datatype sq_op = Push bytes instant | Take u64 bytes

fun sq_exec :: "subscriber_queue \<Rightarrow> sq_op \<Rightarrow> subscriber_queue" where
  "sq_exec q (Push d t) = fst (sq_push q d t)"
| "sq_exec q (Take s out) = fst (try_take q s out)"

subsection \<open>Specification vocabulary\<close>

definition seqs_from :: "u64 \<Rightarrow> nat \<Rightarrow> u64 list" where
  "seqs_from s n = map (\<lambda>i. s + of_nat i) [0..<n]"

definition lastn :: "nat \<Rightarrow> 'a list \<Rightarrow> 'a list" where
  "lastn n xs = drop (length xs - n) xs"

text \<open>Bounded, published length right, sequence numbers increasing and already handed out, and a
  timestamp for exactly the retained samples.\<close>

definition sq_inv :: "subscriber_queue \<Rightarrow> bool" where
  "sq_inv q \<longleftrightarrow> 1 \<le> sq_capacity q \<and> length (sq_messages q) \<le> sq_capacity q \<and>
     sq_len q = of_nat (length (sq_messages q)) \<and>
     sorted_wrt (<) (map fst (sq_messages q)) \<and>
     list_all (\<lambda>k. k < sq_next_seq q) (map fst (sq_messages q)) \<and>
     (\<forall>k. sq_timestamps q k \<noteq> None \<longleftrightarrow> k \<in> set (map fst (sq_messages q)))"

text \<open>No sequence number was skipped: the retained ones end just before \<open>next_seq\<close>.\<close>

definition sq_contiguous :: "subscriber_queue \<Rightarrow> bool" where
  "sq_contiguous q \<longleftrightarrow> (let n = length (sq_messages q) in
     n \<le> unat (sq_next_seq q) \<and>
     map fst (sq_messages q) = seqs_from (sq_next_seq q - of_nat n) n)"

subsection \<open>Lists of sequence numbers\<close>

lemma length_seqs_from [simp]: "length (seqs_from s n) = n"
  by (simp add: seqs_from_def)

lemma nth_seqs_from [simp]: "i < n \<Longrightarrow> seqs_from s n ! i = s + of_nat i"
  by (simp add: seqs_from_def)

lemma seqs_from_Suc: "seqs_from s (Suc n) = seqs_from s n @ [s + of_nat n]"
  by (simp add: seqs_from_def)

lemma seqs_from_Cons: "seqs_from s (Suc n) = s # seqs_from (s + 1) n"
  by (rule nth_equalityI) (auto simp: nth_Cons add.assoc split: nat.splits)

lemma drop_seqs_from: "drop k (seqs_from s n) = seqs_from (s + of_nat k) (n - k)"
  by (rule nth_equalityI) (auto simp: add.assoc)

lemma length_lastn [simp]: "length (lastn n xs) = min n (length xs)"
  by (auto simp: lastn_def)

lemma lastn_lastn_append: "lastn n (lastn n xs @ ys) = lastn n (xs @ ys)"
proof (cases "length xs \<le> n")
  case False
  then show ?thesis by (simp add: lastn_def add.commute)
qed (simp add: lastn_def)

lemma lastn_all: "length xs \<le> n \<Longrightarrow> lastn n xs = xs"
  by (simp add: lastn_def)

lemma nth_lastn: "i < min n (length xs) \<Longrightarrow> lastn n xs ! i = xs ! (length xs - n + i)"
  by (simp add: lastn_def)

lemma last_lastn: "n > 0 \<Longrightarrow> xs \<noteq> [] \<Longrightarrow> last (lastn n xs) = last xs"
  by (simp add: lastn_def last_drop)

subsection \<open>Push\<close>

lemma evict_messages:
  "1 \<le> cap \<Longrightarrow> fst (evict cap ms ts) = drop (Suc (length ms) - cap) ms"
  by (induction cap ms ts rule: evict.induct) (auto simp: Suc_diff_le)

lemma evict_timestamps:
  "1 \<le> cap \<Longrightarrow> snd (evict cap ms ts) k =
     (if k \<in> set (map fst (take (Suc (length ms) - cap) ms)) then None else ts k)"
  by (induction cap ms ts rule: evict.induct) (auto simp: Suc_diff_le)

lemma push_keep_all_full:
  "sq_keep_all q \<Longrightarrow> sq_capacity q \<le> length (sq_messages q) \<Longrightarrow>
   sq_push q d t = (q\<lparr>sq_next_seq := sq_next_seq q + 1\<rparr>, None)"
  by (simp add: sq_push_def)

lemma push_accepts:
  assumes "1 \<le> sq_capacity q" "length (sq_messages q) \<le> sq_capacity q"
    and "\<not> (sq_keep_all q \<and> sq_capacity q \<le> length (sq_messages q))"
  shows "sq_messages (fst (sq_push q d t)) =
           lastn (sq_capacity q) (sq_messages q @ [(sq_next_seq q, d)])"
    and "sq_next_seq (fst (sq_push q d t)) = sq_next_seq q + 1"
    and "snd (sq_push q d t) = Some (sq_next_seq q)"
  using assms evict_messages [of "sq_capacity q" "sq_messages q" "sq_timestamps q"]
  by (auto simp: sq_push_def Let_def lastn_def split: prod.splits)

lemma push_keeps_config [simp]:
  "sq_capacity (fst (sq_push q d t)) = sq_capacity q"
  "sq_keep_all (fst (sq_push q d t)) = sq_keep_all q"
  by (simp_all add: sq_push_def Let_def split: prod.splits)

lemma sorted_distinct: "sorted_wrt (<) (xs :: u64 list) \<Longrightarrow> distinct xs"
  by (induction xs) auto

lemma push_inv:
  assumes inv: "sq_inv q" and room: "unat (sq_next_seq q) + 1 < 2 ^ 64"
  shows "sq_inv (fst (sq_push q d t))"
proof -
  let ?ms = "sq_messages q" and ?s = "sq_next_seq q" and ?c = "sq_capacity q"
  have next': "k < ?s \<Longrightarrow> k < ?s + 1" "?s < ?s + 1" for k
    using unat_Suc64 [OF room] by (auto simp: word_less_nat_alt)
  show ?thesis
  proof (cases "sq_keep_all q \<and> ?c \<le> length ?ms")
    case True
    with inv next' show ?thesis
      by (auto simp: push_keep_all_full sq_inv_def list_all_iff)
  next
    case False
    let ?j = "Suc (length ?ms) - ?c"
    obtain ms ts where ev: "evict ?c ?ms (sq_timestamps q) = (ms, ts)" by force
    have c: "1 \<le> ?c" using inv by (simp add: sq_inv_def)
    have ms: "ms = drop ?j ?ms" using evict_messages [OF c] ev by (metis fst_conv)
    have ts: "ts k = (if k \<in> set (map fst (take ?j ?ms)) then None else sq_timestamps q k)" for k
      using evict_timestamps [OF c] ev by (metis snd_conv)
    have sorted: "sorted_wrt (<) (map fst ?ms)" and below: "\<forall>m\<in>set ?ms. fst m < ?s"
      and stamped: "\<And>k. sq_timestamps q k \<noteq> None \<longleftrightarrow> k \<in> set (map fst ?ms)"
      using inv by (auto simp: sq_inv_def list_all_iff)
    have "distinct (map fst (take ?j ?ms @ drop ?j ?ms))"
      using sorted_distinct [OF sorted] by simp
    then have disj: "set (map fst (take ?j ?ms)) \<inter> set (map fst (drop ?j ?ms)) = {}"
      unfolding map_append distinct_append by simp
    have split: "set (map fst ?ms) = set (map fst (take ?j ?ms)) \<union> set (map fst (drop ?j ?ms))"
      by (metis append_take_drop_id map_append set_append)
    have stamps: "(ts(?s := Some t)) k \<noteq> None \<longleftrightarrow> k \<in> set (map fst (ms @ [(?s, d)]))" for k
      using disj split stamped [of k] by (auto simp: ts ms)
    have "sorted_wrt (<) (map fst ms)"
      using sorted by (simp add: ms drop_map [symmetric] sorted_wrt_drop)
    then have "sorted_wrt (<) (map fst (ms @ [(?s, d)]))"
      using below by (auto simp: ms sorted_wrt_append dest: in_set_dropD)
    moreover have "\<forall>m\<in>set (ms @ [(?s, d)]). fst m < ?s + 1"
      using below next' by (auto simp: ms dest: in_set_dropD)
    moreover have "Suc (length ?ms - ?j) \<le> ?c" using c inv by (auto simp: sq_inv_def)
    ultimately show ?thesis
      using False c inv stamps
      by (auto simp: sq_push_def Let_def ev sq_inv_def list_all_iff ms)
  qed
qed

lemma push_all_inv:
  "sq_inv q \<Longrightarrow> unat (sq_next_seq q) + length ds < 2 ^ 64 \<Longrightarrow> sq_inv (push_all q ds)"
proof (induction ds arbitrary: q)
  case (Cons x ds)
  have "sq_next_seq (fst (sq_push q d t)) = sq_next_seq q + 1" for d t
    by (simp add: sq_push_def Let_def split: prod.splits)
  with Cons show ?case
    by (auto simp: push_all_def push_inv unat_Suc64 split: prod.splits)
qed (simp add: push_all_def)

lemma push_all_spec:
  "1 \<le> sq_capacity q \<Longrightarrow> length (sq_messages q) \<le> sq_capacity q \<Longrightarrow> \<not> sq_keep_all q \<Longrightarrow>
   sq_messages (push_all q ds) = lastn (sq_capacity q)
     (sq_messages q @ zip (seqs_from (sq_next_seq q) (length ds)) (map fst ds)) \<and>
   sq_next_seq (push_all q ds) = sq_next_seq q + of_nat (length ds) \<and>
   sq_capacity (push_all q ds) = sq_capacity q \<and> \<not> sq_keep_all (push_all q ds)"
proof (induction ds arbitrary: q)
  case (Cons x ds)
  obtain d t where x: "x = (d, t)" by force
  let ?q = "fst (sq_push q d t)"
  have step: "push_all q ((d, t) # ds) = push_all ?q ds" by (simp add: push_all_def)
  have "\<not> (sq_keep_all q \<and> sq_capacity q \<le> length (sq_messages q))" using Cons.prems by simp
  note pa = push_accepts [OF Cons.prems(1,2) this, where d = d and t = t]
  have "length (sq_messages ?q) \<le> sq_capacity ?q" by (simp add: pa(1))
  with Cons.IH [of ?q] Cons.prems show ?case
    by (simp add: step pa lastn_lastn_append seqs_from_Cons x add.assoc)
qed (simp add: push_all_def lastn_all)

subsection \<open>Reading at a cursor\<close>

lemma contiguous_nth:
  assumes "sq_contiguous q" "i < length (sq_messages q)"
  shows "unat (fst (sq_messages q ! i)) = unat (sq_next_seq q) - length (sq_messages q) + i"
proof -
  let ?n = "length (sq_messages q)" and ?s = "sq_next_seq q"
  have le: "?n \<le> unat ?s" and eq: "map fst (sq_messages q) = seqs_from (?s - of_nat ?n) ?n"
    using assms(1) by (simp_all add: sq_contiguous_def Let_def)
  have un: "unat ?s < 2 ^ 64" using unsigned_less [of ?s, where 'a = nat] by simp
  have "fst (sq_messages q ! i) = ?s - of_nat ?n + of_nat i"
    using arg_cong [OF eq, of "\<lambda>l. l ! i"] assms(2) by simp
  also have "\<dots> = of_nat (unat ?s - ?n + i)" using le by (simp add: of_nat_diff)
  finally have eq': "fst (sq_messages q ! i) = of_nat (unat ?s - ?n + i)" .
  have "unat ?s - ?n + i < 2 ^ 64" using assms(2) le un by linarith
  then show ?thesis unfolding eq' by (rule unat_of_nat64)
qed

lemma contiguous_last:
  assumes "sq_contiguous q" "sq_messages q \<noteq> []"
  shows "unat (fst (last (sq_messages q))) = unat (sq_next_seq q) - 1"
    and "0 < unat (sq_next_seq q)"
proof -
  have n: "0 < length (sq_messages q)" "length (sq_messages q) \<le> unat (sq_next_seq q)"
    using assms by (auto simp: sq_contiguous_def Let_def)
  then have lt: "length (sq_messages q) - 1 < length (sq_messages q)" by linarith
  show "unat (fst (last (sq_messages q))) = unat (sq_next_seq q) - 1"
    using contiguous_nth [OF assms(1) lt] n unfolding last_conv_nth [OF assms(2)] by linarith
  show "0 < unat (sq_next_seq q)" using n by linarith
qed

lemma contiguous_nth_eq:
  assumes "sq_contiguous q" "unat (sq_next_seq q) - length (sq_messages q) \<le> unat s"
    and "s < sq_next_seq q"
  shows "unat s - unat (fst (sq_messages q ! 0)) < length (sq_messages q)"
    and "sq_messages q ! (unat s - unat (fst (sq_messages q ! 0)))
           = (s, snd (sq_messages q ! (unat s - unat (fst (sq_messages q ! 0)))))"
proof -
  let ?n = "length (sq_messages q)" and ?i = "unat s - unat (fst (sq_messages q ! 0))"
  have lt: "unat s < unat (sq_next_seq q)" using assms(3) by (simp add: word_less_nat_alt)
  have le: "?n \<le> unat (sq_next_seq q)" using assms(1) by (simp add: sq_contiguous_def Let_def)
  have n: "0 < ?n" using lt le assms(2) by linarith
  have o: "unat (fst (sq_messages q ! 0)) = unat (sq_next_seq q) - ?n"
    using contiguous_nth [OF assms(1) n] by simp
  then show i: "?i < ?n" using lt le assms(2) n by linarith
  have "unat (fst (sq_messages q ! ?i)) = unat s"
    using contiguous_nth [OF assms(1) i] o assms(2) by linarith
  then show "sq_messages q ! ?i = (s, snd (sq_messages q ! ?i))"
    by (metis prod.collapse word_unat_eq_iff)
qed

lemma locate_contiguous:
  assumes c: "sq_contiguous q"
  shows "locate q s =
     (if sq_messages q = [] \<or> sq_next_seq q \<le> s then None
      else if unat s < unat (sq_next_seq q) - length (sq_messages q) then Some (last (sq_messages q))
      else Some (sq_messages q ! (unat s + length (sq_messages q) - unat (sq_next_seq q))))"
proof (cases "sq_messages q")
  case Nil
  then show ?thesis by (simp add: locate_def)
next
  case (Cons m ms)
  let ?M = "sq_messages q" and ?N = "sq_next_seq q"
  let ?n = "length ?M"
  have ne: "?M \<noteq> []" using Cons by simp
  have o: "unat (fst m) = unat ?N - ?n" using contiguous_nth [OF c, of 0] Cons by simp
  have l: "unat (fst (last ?M)) = unat ?N - 1" "0 < unat ?N" using contiguous_last [OF c ne] by auto
  have le: "?n \<le> unat ?N" using c by (simp add: sq_contiguous_def Let_def)
  have past: "fst (last ?M) < s \<longleftrightarrow> ?N \<le> s"
    using l by (auto simp: word_less_nat_alt word_le_nat_alt)
  have before: "s < fst m \<longleftrightarrow> unat s < unat ?N - ?n" using o by (simp add: word_less_nat_alt)
  have last_off: "unat (fst (last ?M)) - unat (fst m) = ?n - 1" using l o le ne by simp
  consider "?N \<le> s" | "s < ?N" "s < fst m" | "s < ?N" "\<not> s < fst m" by force
  then show ?thesis
  proof cases
    case 2
    then have "locate q s = Some (fst (last ?M), snd (?M ! (?n - 1)))"
      using Cons past last_off by (simp add: locate_def Let_def)
    then show ?thesis using 2 before ne by (simp add: last_conv_nth)
  next
    case 3
    then have w: "unat ?N - ?n \<le> unat s" using before by simp
    have off: "unat s - unat (fst m) = unat s + ?n - unat ?N" using o w le by simp
    have "locate q s = Some (s, snd (?M ! (unat s - unat (fst m))))"
      using 3 Cons past contiguous_nth_eq(1) [OF c w 3(1)] by (simp add: locate_def Let_def)
    then show ?thesis
      using 3 before ne contiguous_nth_eq(2) [OF c w 3(1)] Cons off by simp
  qed (use past ne Cons in \<open>simp add: locate_def Let_def\<close>)
qed

lemma new_contiguous: "sq_contiguous (sq_with_seq cap s)" "sq_inv (with_seq_and_mode cap s ka)"
  by (simp_all add: sq_contiguous_def sq_inv_def sq_with_seq_def with_seq_and_mode_def seqs_from_def)

lemma push_all_with_seq:
  assumes "unat s + length ds < 2 ^ 64"
  shows "sq_messages (push_all (sq_with_seq cap s) ds) =
           lastn (max cap 1) (zip (seqs_from s (length ds)) (map fst ds))"
    and "sq_next_seq (push_all (sq_with_seq cap s) ds) = s + of_nat (length ds)"
    and "unat (s + of_nat (length ds)) = unat s + length ds"
    and "sq_contiguous (push_all (sq_with_seq cap s) ds)"
proof -
  let ?q = "push_all (sq_with_seq cap s) ds" and ?n = "min (max cap 1) (length ds)"
  show m: "sq_messages ?q = lastn (max cap 1) (zip (seqs_from s (length ds)) (map fst ds))"
    and n: "sq_next_seq ?q = s + of_nat (length ds)"
    using push_all_spec [of "sq_with_seq cap s" ds]
    by (simp_all add: sq_with_seq_def with_seq_and_mode_def)
  have k: "unat (of_nat (length ds) :: u64) = length ds"
    using assms by (intro unat_of_nat64) linarith
  show u: "unat (s + of_nat (length ds)) = unat s + length ds"
    using assms k by (simp add: unat_word_ariths)
  have len: "length (sq_messages ?q) = ?n" by (simp add: m)
  have "map fst (sq_messages ?q) = drop (length ds - max cap 1) (seqs_from s (length ds))"
    by (simp add: m lastn_def drop_map [symmetric])
  also have "\<dots> = seqs_from (s + of_nat (length ds - max cap 1)) (length ds - (length ds - max cap 1))"
    by (rule drop_seqs_from)
  also have "length ds - (length ds - max cap 1) = ?n" by simp
  also have "s + of_nat (length ds - max cap 1) = sq_next_seq ?q - of_nat ?n"
  proof (cases "length ds \<le> max cap 1")
    case True
    then show ?thesis by (simp add: n min_absorb2)
  next
    case False
    then show ?thesis by (simp add: n min_absorb1 of_nat_diff)
  qed
  finally show "sq_contiguous ?q"
    unfolding sq_contiguous_def Let_def len n u by simp
qed

subsection \<open>Taking\<close>

lemma sorted_hd_le: "sorted_wrt (<) (xs :: u64 list) \<Longrightarrow> i < length xs \<Longrightarrow> hd xs \<le> xs ! i"
  by (cases xs; cases i) (auto intro: less_imp_le)

lemma sorted_drop_range:
  assumes "sorted_wrt (<) (xs :: u64 list)" "i < length xs"
  shows "set (drop (Suc i) xs) = {k \<in> set xs. \<not> (hd xs \<le> k \<and> k \<le> xs ! i)}"
proof -
  have lt: "\<And>a b. a < b \<Longrightarrow> b < length xs \<Longrightarrow> xs ! a < xs ! b"
    using assms(1) by (simp add: sorted_wrt_iff_nth_less)
  have first: "k \<in> set xs \<Longrightarrow> hd xs \<le> k" for k
    using sorted_hd_le [OF assms(1)] by (metis in_set_conv_nth)
  have "k \<in> set (drop (Suc i) xs) \<longleftrightarrow> (k \<in> set xs \<and> xs ! i < k)" for k
  proof
    assume "k \<in> set (drop (Suc i) xs)"
    then obtain j where "j < length xs - Suc i" "k = xs ! (Suc i + j)"
      by (auto simp: in_set_conv_nth)
    then show "k \<in> set xs \<and> xs ! i < k" using lt [of i "Suc i + j"] by auto
  next
    assume "k \<in> set xs \<and> xs ! i < k"
    then obtain j where j: "j < length xs" "k = xs ! j" "xs ! i < xs ! j"
      by (auto simp: in_set_conv_nth)
    then have "i < j" using lt [of j i] assms(2) by (cases i j rule: linorder_cases) auto
    then show "k \<in> set (drop (Suc i) xs)"
      using j by (auto simp: in_set_conv_nth intro!: exI [of _ "j - Suc i"])
  qed
  then show ?thesis using first by auto
qed

lemma try_take_cases:
  obtains (none) "try_take q s out = (q, out, None)"
  | (short) n a where "try_take q s out = (q, out, Some (n, a))" "length out < n"
  | (jump) a d where "sq_messages q \<noteq> []" "s < fst (hd (sq_messages q))"
      "last (sq_messages q) = (a, d)" "length d \<le> length out"
      "try_take q s out =
         (q\<lparr>sq_messages := [], sq_len := 0, sq_timestamps := (\<lambda>_. None)\<rparr>,
          copy_into out d, Some (length d, a))"
  | (take) i a d where "i < length (sq_messages q)" "sq_messages q ! i = (a, d)"
      "i = unat s - unat (fst (hd (sq_messages q)))" "length d \<le> length out"
      "try_take q s out =
         (q\<lparr>sq_messages := drop (Suc i) (sq_messages q),
            sq_len := of_nat (length (drop (Suc i) (sq_messages q))),
            sq_timestamps := (\<lambda>k. if fst (hd (sq_messages q)) \<le> k \<and> k \<le> a then None
                                  else sq_timestamps q k)\<rparr>,
          copy_into out d, Some (length d, a))"
proof (cases "sq_messages q")
  case Nil
  then show ?thesis using none by (simp add: try_take_def)
next
  case (Cons m ms)
  obtain a d where l: "last (sq_messages q) = (a, d)" by force
  obtain b e where e: "sq_messages q ! (unat s - unat (fst m)) = (b, e)" by force
  consider "s < fst m" "length out < length d" | "s < fst m" "length d \<le> length out"
    | "\<not> s < fst m" "length (sq_messages q) \<le> unat s - unat (fst m)"
    | "\<not> s < fst m" "unat s - unat (fst m) < length (sq_messages q)" "length out < length e"
    | "\<not> s < fst m" "unat s - unat (fst m) < length (sq_messages q)" "length e \<le> length out"
    by linarith
  then show ?thesis
  proof cases
    case 1
    with Cons l show ?thesis by (intro short [of "length d" a]) (simp_all add: try_take_def Let_def)
  next
    case 2
    with Cons l show ?thesis by (intro jump [of a d]) (simp_all add: try_take_def Let_def)
  next
    case 3
    with Cons show ?thesis by (intro none) (simp add: try_take_def Let_def)
  next
    case 4
    with Cons e show ?thesis by (intro short [of "length e" b]) (simp_all add: try_take_def Let_def)
  next
    case 5
    with Cons e show ?thesis
      by (intro take [of "unat s - unat (fst m)" b e]) (simp_all add: try_take_def Let_def)
  qed
qed

lemma try_take_inv: "sq_inv q \<Longrightarrow> sq_inv (fst (try_take q s out))"
proof (cases rule: try_take_cases [of q s out])
  case (take i a d)
  assume inv: "sq_inv q"
  let ?xs = "map fst (sq_messages q)"
  have sorted: "sorted_wrt (<) ?xs" using inv by (simp add: sq_inv_def)
  have "sq_messages q \<noteq> []" using take(1) by auto
  then have hd: "hd ?xs = fst (hd (sq_messages q))" and at: "?xs ! i = a"
    using take(1,2) by (simp_all add: hd_map)
  have rest: "set (drop (Suc i) ?xs) = {k \<in> set ?xs. \<not> (hd ?xs \<le> k \<and> k \<le> ?xs ! i)}"
    using take(1) by (intro sorted_drop_range sorted) simp
  have "sorted_wrt (<) (map fst (drop (Suc i) (sq_messages q)))"
    using sorted by (simp add: drop_map [symmetric] sorted_wrt_drop)
  moreover have "set (map fst (drop (Suc i) (sq_messages q))) = set (drop (Suc i) ?xs)"
    by (simp add: drop_map)
  ultimately show ?thesis
    using inv take rest unfolding hd at
    by (auto simp: sq_inv_def list_all_iff)
qed (auto simp: sq_inv_def)

lemma try_take_forgets_timestamp:
  assumes "sq_inv q" "try_take q s out = (q', out', Some (n, a))" "n \<le> length out"
  shows "timestamp_for q' a = None" and "take n out' \<in> snd ` set (sq_messages q)"
    and "a \<in> fst ` set (sq_messages q)"
proof -
  from assms have "timestamp_for q' a = None \<and> (\<exists>d. (a, d) \<in> set (sq_messages q) \<and> take n out' = d)"
  proof (cases rule: try_take_cases [of q s out])
    case (jump b d)
    then have "(b, d) \<in> set (sq_messages q)" by (metis last_in_set)
    with jump assms show ?thesis by (auto simp: timestamp_for_def)
  next
    case (take i b d)
    then have m: "(b, d) \<in> set (sq_messages q)" by (metis nth_mem)
    have "sorted_wrt (<) (map fst (sq_messages q))" using assms(1) by (simp add: sq_inv_def)
    then have "hd (map fst (sq_messages q)) \<le> map fst (sq_messages q) ! i"
      using take(1) by (intro sorted_hd_le) simp_all
    moreover have "sq_messages q \<noteq> []" using take(1) by auto
    ultimately have "fst (hd (sq_messages q)) \<le> b"
      using take(1,2) by (simp add: hd_map)
    with take m assms show ?thesis by (auto simp: timestamp_for_def)
  qed auto
  then show "timestamp_for q' a = None" "take n out' \<in> snd ` set (sq_messages q)"
    "a \<in> fst ` set (sq_messages q)" by force+
qed

lemma exec_next_seq: "unat (sq_next_seq q) + 1 < 2 ^ 64 \<Longrightarrow>
    unat (sq_next_seq (sq_exec q x)) \<le> unat (sq_next_seq q) + 1"
proof (cases x)
  case (Push d t)
  assume "unat (sq_next_seq q) + 1 < 2 ^ 64"
  then show ?thesis
    using Push by (simp add: sq_push_def Let_def unat_Suc64 split: prod.splits)
next
  case (Take s out)
  then show ?thesis by (cases rule: try_take_cases [of q s out]) simp_all
qed

lemma exec_inv: "sq_inv q \<Longrightarrow> unat (sq_next_seq q) + 1 < 2 ^ 64 \<Longrightarrow> sq_inv (sq_exec q x)"
  by (cases x) (simp_all add: push_inv try_take_inv)

lemma exec_all_inv:
  "sq_inv q \<Longrightarrow> unat (sq_next_seq q) + length xs < 2 ^ 64 \<Longrightarrow> sq_inv (foldl sq_exec q xs)"
proof (induction xs arbitrary: q)
  case (Cons x xs)
  then have lt: "unat (sq_next_seq q) + 1 < 2 ^ 64" by simp
  then have "unat (sq_next_seq (sq_exec q x)) + length xs < 2 ^ 64"
    using exec_next_seq [OF lt, of x] Cons.prems(2) by simp
  with Cons lt show ?case by (simp add: exec_inv)
qed simp

subsection \<open>Properties\<close>

text \<open>C19: Fan-out with bounded retention.  After any sequence of pushes into a fresh queue that is
  not in keep-all mode, a reader at cursor \<open>i\<close> is told that nothing is available exactly when
  \<open>i\<close> is past the newest sample; it gets exactly sample \<open>i\<close> while that sample is among the last
  \<open>capacity\<close> ones, and the newest sample once its own was overwritten.  Reading does not touch the
  queue, so every subscriber sees the same stream.\<close>

theorem sq_fanout_read:
  assumes "unat s + length ds < 2 ^ 64" "unat s + i < 2 ^ 64"
    and "q = push_all (sq_with_seq cap s) ds" "\<forall>d\<in>set ds. length (fst d) \<le> length out"
  shows "read_at q (s + of_nat i) out =
           (if length ds \<le> i then (out, None)
            else if i + max cap 1 < length ds
                 then (copy_into out (fst (last ds)),
                       Some (length (fst (last ds)), s + of_nat (length ds - 1)))
                 else (copy_into out (fst (ds ! i)), Some (length (fst (ds ! i)), s + of_nat i))) \<and>
         (sq_data_available_from q (s + of_nat i) \<longleftrightarrow> i < length ds)"
proof -
  note sp = push_all_with_seq (1) [OF assms(1), of cap, folded assms(3)]
    push_all_with_seq (2) [OF assms(1), of cap, folded assms(3)]
    push_all_with_seq (3) [OF assms(1)]
    push_all_with_seq (4) [OF assms(1), of cap, folded assms(3)]
  let ?M = "sq_messages q" and ?z = "zip (seqs_from s (length ds)) (map fst ds)"
  have si: "unat (s + of_nat i) = unat s + i"
    using assms(2) by (simp add: unat_word_ariths unat_of_nat64)
  have len: "length ?M = min (max cap 1) (length ds)" by (simp add: sp(1))
  have next': "unat (sq_next_seq q) = unat s + length ds" by (simp add: sp(2,3))
  have past: "sq_next_seq q \<le> s + of_nat i \<longleftrightarrow> length ds \<le> i"
    by (simp add: word_le_nat_alt si next')
  have "length ?M = 0 \<longleftrightarrow> length ds = 0" unfolding len by (auto simp: min_def max_def)
  then have ne: "?M = [] \<longleftrightarrow> ds = []" by simp
  have lst: "last ?M = (s + of_nat (length ds - 1), fst (last ds))" if "ds \<noteq> []"
    using that by (simp add: sp(1) last_lastn last_zip last_map last_conv_nth seqs_from_def)
  have loc: "locate q (s + of_nat i) =
      (if length ds \<le> i then None
       else if i + max cap 1 < length ds then Some (s + of_nat (length ds - 1), fst (last ds))
       else Some (s + of_nat i, fst (ds ! i)))"
  proof -
    consider "length ds \<le> i" | "i + max cap 1 < length ds"
      | "i < length ds" "length ds \<le> i + max cap 1" by linarith
    then show ?thesis
    proof cases
      case 2
      then show ?thesis using ne lst past
        by (subst locate_contiguous [OF sp(4)]) (auto simp: len next' si)
    next
      case 3
      then have "?M ! (i + length ?M - length ds) = ?z ! i"
        unfolding sp(1) by (subst nth_lastn) (auto simp: min_def max_def)
      with 3 show ?thesis using ne past
        by (subst locate_contiguous [OF sp(4)]) (auto simp: len next' si)
    qed (subst locate_contiguous [OF sp(4)], simp add: past)
  qed
  have "length (fst (last ds)) \<le> length out" if "i < length ds"
    using that assms(4) last_in_set [of ds] by fastforce
  moreover have "length (fst (ds ! i)) \<le> length out" if "i < length ds" using that assms(4) by simp
  moreover have "sq_data_available_from q (s + of_nat i) \<longleftrightarrow> i < length ds"
  proof (cases "ds = []")
    case False
    then have "0 < length ds" "unat (fst (last ?M)) = unat s + length ds - 1"
      using contiguous_last(1) [OF sp(4)] ne next' by auto
    then have "unat s + i \<le> unat (fst (last ?M)) \<longleftrightarrow> i < length ds" by linarith
    then show ?thesis using False ne by (simp add: sq_data_available_from_def word_le_nat_alt si)
  qed (use ne in \<open>simp add: sq_data_available_from_def\<close>)
  ultimately show ?thesis by (auto simp: read_at_def loc)
qed

text \<open>The hypotheses hold for three samples in a queue of two slots: the first is gone.\<close>

theorem sq_fanout_read_witness:
  "read_at (push_all (sq_with_seq 2 7) [([1], 10), ([2], 11), ([3], 12)]) (7 + of_nat 0) [0, 0]
     = (copy_into [0, 0] [3], Some (1, 9)) \<and>
   read_at (push_all (sq_with_seq 2 7) [([1], 10), ([2], 11), ([3], 12)]) (7 + of_nat 1) [0, 0]
     = (copy_into [0, 0] [2], Some (1, 8))"
  using sq_fanout_read [of 7 "[([1], 10), ([2], 11), ([3], 12)]" 0 _ 2 "[0, 0]", OF _ _ refl]
    sq_fanout_read [of 7 "[([1], 10), ([2], 11), ([3], 12)]" 1 _ 2 "[0, 0]", OF _ _ refl]
  by simp

text \<open>C21: Every sequence of pushes and takes keeps the queue well formed: at most \<open>capacity\<close>
  samples, the published length equal to the number of samples, strictly increasing sequence numbers
  below \<open>next_seq\<close>, and a receive timestamp for exactly the retained samples (so neither side
  leaks), as long as the 64-bit counter does not wrap.\<close>

theorem sq_run_invariant:
  assumes "unat s + length xs < 2 ^ 64"
  shows "sq_inv (foldl sq_exec (with_seq_and_mode cap s ka) xs)"
  using assms by (intro exec_all_inv new_contiguous) (simp add: with_seq_and_mode_def)

theorem sq_run_invariant_witness:
  "sq_inv (foldl sq_exec (with_seq_and_mode 1 5 False) [Push [1] 3, Push [2, 3] 4, Take 6 [0, 0]])"
  by (rule sq_run_invariant) simp

text \<open>Note: In keep-all mode a rejected push consumes a sequence number although it stores nothing.
  After such a gap the readers, which address the deque by \<open>seq - oldest\<close>, cannot reach the newest
  sample: \<open>data_available_from\<close> reports it and \<open>read_at\<close> returns nothing for it.\<close>

theorem sq_keep_all_gap_hides_sample:
  "let q = foldl sq_exec (with_seq_and_mode 2 0 True)
             [Push [10] 0, Push [11] 0, Push [12] 0, Take 0 [0], Push [13] 0] in
   map fst (sq_messages q) = [1, 3] \<and> sq_data_available_from q 3 \<and>
   read_at q 3 [0] = ([0], None) \<and> read_at q 2 [0] = ([13], Some (1, 2))"
  by (simp add: with_seq_and_mode_def sq_push_def try_take_def read_at_def locate_def Let_def
      sq_data_available_from_def copy_into_def sat_sub64_def)

text \<open>Note: A successful take removes the receive timestamp of the sample it returns, so a lookup of
  that timestamp after the take finds nothing.\<close>

theorem take_then_timestamp_is_none:
  assumes "sq_inv q" "try_take q s out = (q', out', Some (n, a))" "n \<le> length out"
  shows "timestamp_for q' a = None"
  using assms by (rule try_take_forgets_timestamp)

theorem take_then_timestamp_is_none_witness:
  "timestamp_for (fst (try_take (fst (sq_push (sq_new 4) [1, 2] 77)) 0 [0, 0])) 0 = None"
proof (rule take_then_timestamp_is_none)
  show "sq_inv (fst (sq_push (sq_new 4) [1, 2] 77))"
    by (rule push_inv) (simp_all add: sq_new_def new_contiguous, simp add: with_seq_and_mode_def)
  show "try_take (fst (sq_push (sq_new 4) [1, 2] 77)) 0 [0, 0] =
     (fst (try_take (fst (sq_push (sq_new 4) [1, 2] 77)) 0 [0, 0]), [1, 2], Some (2, 0))"
    by (simp add: sq_new_def with_seq_and_mode_def sq_push_def try_take_def Let_def copy_into_def
        sat_sub64_def)
qed simp

end
