(* ===== verification/Ring_Buffer.thy ===== *)
theory Ring_Buffer
  imports Axon_Prelude
begin

text \<open>
  The shared-memory ring (\<open>axon_core/src/local.rs\<close>, \<open>RingBuffer\<close>, with the header of
  \<open>types.rs\<close>).

  \<open>ring_shm\<close> is the mapped segment: the header words and the data region as a flat byte array.
  \<open>ring_buffer\<close> is the handle of one process (\<open>slot_count\<close> and the slot stride \<open>slot_size\<close>).  A
  slot is \<open>slot_size\<close> bytes: the sequence number at offset 0, the payload length at offset 8, the
  payload from offset 16.  An operation here runs without interference; the interleaving of one
  writer and one reader is the subject of \<open>Ring_Concurrency\<close>.

  \<open>ring_inv rb m hist\<close> relates the bytes to the list \<open>hist\<close> of everything ever written
  (\<open>None\<close> for a slot that is loaned out and not committed).  Every operation is shown to act on
  \<open>hist\<close> as on an append-only log of which the last \<open>slot_count\<close> entries are readable.
\<close>

subsection \<open>Flat memory\<close>

definition load_at :: "bytes \<Rightarrow> nat \<Rightarrow> nat \<Rightarrow> bytes" where
  "load_at m off n = take n (drop off m)"

definition store_at :: "bytes \<Rightarrow> nat \<Rightarrow> bytes \<Rightarrow> bytes" where
  "store_at m off bs = take off m @ bs @ drop (off + length bs) m"

lemma length_store_at [simp]:
  "off + length bs \<le> length m \<Longrightarrow> length (store_at m off bs) = length m"
  by (simp add: store_at_def)

lemma load_store_same:
  "off + length bs \<le> length m \<Longrightarrow> n = length bs \<Longrightarrow> load_at (store_at m off bs) off n = bs"
  by (simp add: load_at_def store_at_def)

lemma load_store_before:
  "off + n \<le> off' \<Longrightarrow> off' + length bs \<le> length m \<Longrightarrow>
   load_at (store_at m off' bs) off n = load_at m off n"
  by (rule nth_equalityI) (auto simp: load_at_def store_at_def nth_append)

lemma load_store_after:
  "off' + length bs \<le> off \<Longrightarrow> off' + length bs \<le> length m \<Longrightarrow>
   load_at (store_at m off' bs) off n = load_at m off n"
  by (simp add: load_at_def store_at_def)

subsection \<open>State\<close>

record ring_shm =
  hdr_capacity :: u32
  hdr_slot_size :: u32
  write_index :: u64
  read_index :: u64
  epoch :: u64
  ring_data :: bytes

record ring_buffer =
  slot_count :: u32
  slot_size :: u32

datatype ring_error =
    Data_exceeds_slot_size
  | No_data_at_sequence
  | Slot_overwritten
  | Slot_not_yet_written
  | Output_buffer_too_small
  | Slot_size_overflow

abbreviation (input) SLOT_SEQ_OFFSET :: nat where "SLOT_SEQ_OFFSET \<equiv> 0"
abbreviation (input) SLOT_LEN_OFFSET :: nat where "SLOT_LEN_OFFSET \<equiv> 8"
abbreviation (input) SLOT_DATA_OFFSET :: nat where "SLOT_DATA_OFFSET \<equiv> 16"

text \<open>The stride of a slot: payload plus the 16 bytes in front of it, rounded up to 8.\<close>

definition slot_stride_for_payload :: "u32 \<Rightarrow> (u32, ring_error) rust_result" where
  "slot_stride_for_payload payload_size =
     (let raw = (ucast payload_size :: u64) + 16;
          aligned = (raw + 7) AND NOT 7 in
      if unat aligned < 2 ^ 32 then Ok (ucast aligned) else Err Slot_size_overflow)"

definition payload_capacity_from_stride :: "u32 \<Rightarrow> nat" where
  "payload_capacity_from_stride stride = unat stride - SLOT_DATA_OFFSET"

subsection \<open>Slots\<close>

definition slot_off :: "ring_buffer \<Rightarrow> u64 \<Rightarrow> nat" where
  "slot_off rb s = (unat s mod unat (slot_count rb)) * unat (slot_size rb)"

definition slot_seq :: "bytes \<Rightarrow> nat \<Rightarrow> u64" where
  "slot_seq d off = from_le (load_at d (off + SLOT_SEQ_OFFSET) 8)"

definition slot_len :: "bytes \<Rightarrow> nat \<Rightarrow> u32" where
  "slot_len d off = from_le (load_at d (off + SLOT_LEN_OFFSET) 4)"

definition slot_payload :: "bytes \<Rightarrow> nat \<Rightarrow> nat \<Rightarrow> bytes" where
  "slot_payload d off n = load_at d (off + SLOT_DATA_OFFSET) n"

definition set_seq :: "bytes \<Rightarrow> nat \<Rightarrow> u64 \<Rightarrow> bytes" where
  "set_seq d off s = store_at d (off + SLOT_SEQ_OFFSET) (u64_to_le s)"

definition set_len :: "bytes \<Rightarrow> nat \<Rightarrow> u32 \<Rightarrow> bytes" where
  "set_len d off n = store_at d (off + SLOT_LEN_OFFSET) (u32_to_le n)"

definition set_payload :: "bytes \<Rightarrow> nat \<Rightarrow> bytes \<Rightarrow> bytes" where
  "set_payload d off p = store_at d (off + SLOT_DATA_OFFSET) p"

text \<open>\<open>u64::MAX\<close> in the sequence word marks a slot that is being written.\<close>

abbreviation (input) SEQ_BUSY :: u64 where "SEQ_BUSY \<equiv> - 1"

subsection \<open>Write\<close>

text \<open>The parts of \<open>write\<close> in program order: reserve an index, push the read watermark out of the
  slot about to be reused, fill the slot and publish its sequence number last.\<close>

definition advance_watermark :: "ring_buffer \<Rightarrow> u64 \<Rightarrow> ring_shm \<Rightarrow> ring_shm" where
  "advance_watermark rb w m =
     (case checked_sub64 w (read_index m) of
        Some lag \<Rightarrow>
          if ucast (slot_count rb) \<le> lag
          then m\<lparr>read_index := sat_sub64 w (ucast (slot_count rb) - 1)\<rparr>
          else m
      | None \<Rightarrow> m)"

definition fill_slot :: "ring_buffer \<Rightarrow> u64 \<Rightarrow> bytes \<Rightarrow> bytes \<Rightarrow> bytes" where
  "fill_slot rb w data d =
     (let off = slot_off rb w;
          d1 = set_seq d off SEQ_BUSY;
          d2 = set_len d1 off 0;
          d3 = set_payload d2 off data;
          d4 = set_len d3 off (of_nat (length data)) in
      set_seq d4 off w)"

definition rb_write :: "ring_buffer \<Rightarrow> ring_shm \<Rightarrow> bytes
    \<Rightarrow> ring_shm \<times> (u64, ring_error) rust_result" where
  "rb_write rb m data =
     (if payload_capacity_from_stride (slot_size rb) < length data
      then (m, Err Data_exceeds_slot_size)
      else
        (let w = write_index m;
             m1 = advance_watermark rb w (m\<lparr>write_index := w + 1\<rparr>) in
         (m1\<lparr>ring_data := fill_slot rb w data (ring_data m1)\<rparr>, Ok w)))"

subsection \<open>Read\<close>

definition read_slot :: "ring_buffer \<Rightarrow> ring_shm \<Rightarrow> u64 \<Rightarrow> bytes
    \<Rightarrow> bytes \<times> (nat, ring_error) rust_result" where
  "read_slot rb m s out =
     (let w = write_index m in
      if w \<le> s then (out, Err No_data_at_sequence)
      else if ucast (slot_count rb) < w - s then (out, Err Slot_overwritten)
      else
        (let off = slot_off rb s; d = ring_data m in
         if slot_seq d off \<noteq> s then (out, Err Slot_not_yet_written)
         else
           (let n = unat (slot_len d off) in
            if n = 0 then (out, Err Slot_not_yet_written)
            else if length out < n then (out, Err Output_buffer_too_small)
            else
              (let out' = copy_into out (slot_payload d off n) in
               if slot_seq d off \<noteq> s then (out', Err Slot_overwritten) else (out', Ok n)))))"

definition rb_read :: "ring_buffer \<Rightarrow> ring_shm \<Rightarrow> u64 \<Rightarrow> bytes
    \<Rightarrow> ring_shm \<times> bytes \<times> (nat, ring_error) rust_result" where
  "rb_read rb m s out =
     (case read_slot rb m s out of
        (out', Err e) \<Rightarrow> (m, out', Err e)
      | (out', Ok n) \<Rightarrow>
          ((if read_index m \<le> s then m\<lparr>read_index := s + 1\<rparr> else m), out', Ok n))"

definition read_without_consuming :: "ring_buffer \<Rightarrow> ring_shm \<Rightarrow> u64 \<Rightarrow> bytes
    \<Rightarrow> bytes \<times> (nat, ring_error) rust_result" where
  "read_without_consuming rb m s out = read_slot rb m s out"

definition slot_data_size :: "ring_buffer \<Rightarrow> ring_shm \<Rightarrow> u64 \<Rightarrow> (nat, ring_error) rust_result" where
  "slot_data_size rb m s =
     (let w = write_index m in
      if w \<le> s then Err No_data_at_sequence
      else if ucast (slot_count rb) < w - s then Err Slot_overwritten
      else
        (let off = slot_off rb s; d = ring_data m in
         if slot_seq d off \<noteq> s then Err Slot_not_yet_written
         else
           (let n = unat (slot_len d off) in
            if n = 0 then Err Slot_not_yet_written else Ok n)))"

definition current_seq :: "ring_shm \<Rightarrow> u64" where
  "current_seq m = write_index m"

definition oldest_available_seq :: "ring_buffer \<Rightarrow> ring_shm \<Rightarrow> u64" where
  "oldest_available_seq rb m = sat_sub64 (current_seq m) (ucast (slot_count rb))"

definition mark_generation :: "ring_shm \<Rightarrow> ring_shm" where
  "mark_generation m = m\<lparr>epoch := write_index m\<rparr>"

definition generation_start :: "ring_shm \<Rightarrow> u64" where
  "generation_start m = epoch m"

definition rb_data_available_from :: "ring_buffer \<Rightarrow> ring_shm \<Rightarrow> u64 \<Rightarrow> bool" where
  "rb_data_available_from rb m s =
     (case slot_data_size rb m s of
        Ok n \<Rightarrow> n > 0
      | Err Slot_not_yet_written \<Rightarrow> s < write_index m
      | Err _ \<Rightarrow> s < write_index m \<and> read_index m < write_index m)"

definition rb_data_available :: "ring_shm \<Rightarrow> bool" where
  "rb_data_available m = (read_index m < write_index m)"

text \<open>The segment \<open>create_with_fd\<close> leaves behind: header initialised, data zeroed.\<close>

definition init_segment :: "ring_buffer \<Rightarrow> ring_shm" where
  "init_segment rb =
     \<lparr> hdr_capacity = slot_count rb, hdr_slot_size = slot_size rb, write_index = 0,
       read_index = 0, epoch = 0,
       ring_data = replicate (unat (slot_count rb) * unat (slot_size rb)) 0 \<rparr>"

text \<open>\<open>LocalPubSub::skip_all_pending\<close>.\<close>

definition skip_all_pending :: "ring_shm \<Rightarrow> ring_shm" where
  "skip_all_pending m = m\<lparr>read_index := write_index m\<rparr>"

text \<open>The operations that change a ring, as one process issues them.\<close>

datatype ring_op = Write bytes | Read u64 bytes | Mark_generation | Skip_all

fun ring_exec :: "ring_buffer \<Rightarrow> ring_shm \<Rightarrow> ring_op \<Rightarrow> ring_shm" where
  "ring_exec rb m (Write data) = fst (rb_write rb m data)"
| "ring_exec rb m (Read s out) = fst (rb_read rb m s out)"
| "ring_exec rb m Mark_generation = mark_generation m"
| "ring_exec rb m Skip_all = skip_all_pending m"

subsection \<open>Slots do not overlap\<close>

lemma mod_slots_disjoint:
  assumes "(i :: nat) < c" "j < c" "i \<noteq> j"
  shows "i * z + z \<le> j * z \<or> j * z + z \<le> i * z"
proof (cases "i < j")
  case True
  then have "Suc i * z \<le> j * z" by (intro mult_le_mono1) simp
  then show ?thesis by simp
next
  case False
  then have "Suc j * z \<le> i * z" using assms by (intro mult_le_mono1) simp
  then show ?thesis by simp
qed

text \<open>A ring handle that fits its segment.\<close>

definition ring_ok :: "ring_buffer \<Rightarrow> bytes \<Rightarrow> bool" where
  "ring_ok rb d \<longleftrightarrow> 0 < unat (slot_count rb) \<and> SLOT_DATA_OFFSET \<le> unat (slot_size rb) \<and>
     unat (slot_count rb) * unat (slot_size rb) \<le> length d"

lemma slot_in_range: "ring_ok rb d \<Longrightarrow> slot_off rb s + unat (slot_size rb) \<le> length d"
proof -
  assume ok: "ring_ok rb d"
  then have "unat s mod unat (slot_count rb) < unat (slot_count rb)" by (simp add: ring_ok_def)
  then have "Suc (unat s mod unat (slot_count rb)) * unat (slot_size rb)
      \<le> unat (slot_count rb) * unat (slot_size rb)"
    by (intro mult_le_mono1) simp
  then show ?thesis using ok by (simp add: ring_ok_def slot_off_def)
qed

lemma slots_apart:
  assumes "ring_ok rb d" "unat s mod unat (slot_count rb) \<noteq> unat t mod unat (slot_count rb)"
  shows "slot_off rb s + unat (slot_size rb) \<le> slot_off rb t \<or>
         slot_off rb t + unat (slot_size rb) \<le> slot_off rb s"
  using assms unfolding slot_off_def ring_ok_def
  by (intro mod_slots_disjoint [where c = "unat (slot_count rb)"]) simp_all

lemma slot_room:
  assumes "ring_ok rb d"
  shows "slot_off rb s + 16 \<le> length d"
    and "n \<le> payload_capacity_from_stride (slot_size rb) \<Longrightarrow> slot_off rb s + 16 + n \<le> length d"
proof -
  have "16 \<le> unat (slot_size rb)" using assms by (simp add: ring_ok_def)
  then show "slot_off rb s + 16 \<le> length d"
    and "n \<le> payload_capacity_from_stride (slot_size rb) \<Longrightarrow> slot_off rb s + 16 + n \<le> length d"
    using slot_in_range [OF assms, of s] unfolding payload_capacity_from_stride_def by linarith+
qed

lemmas slot_access_defs =
  slot_seq_def slot_len_def slot_payload_def set_seq_def set_len_def set_payload_def

lemmas slot_access_simps = load_store_same load_store_before load_store_after

text \<open>What a fill of the slot at \<open>off\<close> leaves there, and that it leaves every other slot alone.\<close>

lemma length_fill_slot [simp]:
  assumes "ring_ok rb d" "length data \<le> payload_capacity_from_stride (slot_size rb)"
  shows "length (fill_slot rb w data d) = length d"
  using slot_room [OF assms(1), where s = w] assms(2)
  by (simp add: fill_slot_def Let_def slot_access_defs)

lemma fill_slot_same:
  assumes "ring_ok rb d" "length data \<le> payload_capacity_from_stride (slot_size rb)"
  shows "slot_seq (fill_slot rb w data d) (slot_off rb w) = w"
    and "slot_len (fill_slot rb w data d) (slot_off rb w) = of_nat (length data)"
    and "slot_payload (fill_slot rb w data d) (slot_off rb w) (length data) = data"
  using slot_room [OF assms(1), where s = w] assms(2)
  by (simp_all add: fill_slot_def Let_def slot_access_defs slot_access_simps)

lemma fill_slot_other:
  assumes "ring_ok rb d" "length data \<le> payload_capacity_from_stride (slot_size rb)"
    and "unat s mod unat (slot_count rb) \<noteq> unat w mod unat (slot_count rb)"
  shows "slot_seq (fill_slot rb w data d) (slot_off rb s) = slot_seq d (slot_off rb s)"
    and "slot_len (fill_slot rb w data d) (slot_off rb s) = slot_len d (slot_off rb s)"
    and "n \<le> payload_capacity_from_stride (slot_size rb) \<Longrightarrow>
         slot_payload (fill_slot rb w data d) (slot_off rb s) n = slot_payload d (slot_off rb s) n"
proof -
  have sz: "16 \<le> unat (slot_size rb)" using assms(1) by (simp add: ring_ok_def)
  have frame: "load_at (fill_slot rb w data d) (slot_off rb s + a) k = load_at d (slot_off rb s + a) k"
    if "a + k \<le> unat (slot_size rb)" for a k
    using slots_apart [OF assms(1,3)] slot_room [OF assms(1), where s = w] assms(2) that sz
    unfolding payload_capacity_from_stride_def
    by (auto simp: fill_slot_def Let_def slot_access_defs slot_access_simps)
  show "slot_seq (fill_slot rb w data d) (slot_off rb s) = slot_seq d (slot_off rb s)"
    "slot_len (fill_slot rb w data d) (slot_off rb s) = slot_len d (slot_off rb s)"
    using frame [of 0 8] frame [of 8 4] sz by (simp_all add: slot_access_defs)
  show "n \<le> payload_capacity_from_stride (slot_size rb) \<Longrightarrow>
         slot_payload (fill_slot rb w data d) (slot_off rb s) n = slot_payload d (slot_off rb s) n"
    using frame [of 16 n] sz by (simp add: slot_access_defs payload_capacity_from_stride_def)
qed

subsection \<open>The ring as a log\<close>

abbreviation slots :: "ring_buffer \<Rightarrow> nat" where "slots rb \<equiv> unat (slot_count rb)"

abbreviation payload_cap :: "ring_buffer \<Rightarrow> nat" where
  "payload_cap rb \<equiv> payload_capacity_from_stride (slot_size rb)"

definition slot_holds :: "ring_buffer \<Rightarrow> bytes \<Rightarrow> nat \<Rightarrow> bytes option \<Rightarrow> bool" where
  "slot_holds rb d i e =
     (let off = slot_off rb (of_nat i) in
      case e of
        None \<Rightarrow> slot_seq d off = SEQ_BUSY
      | Some p \<Rightarrow> slot_seq d off = of_nat i \<and> slot_len d off = of_nat (length p) \<and>
          length p \<le> payload_cap rb \<and> slot_payload d off (length p) = p)"

definition ring_inv :: "ring_buffer \<Rightarrow> ring_shm \<Rightarrow> bytes option list \<Rightarrow> bool" where
  "ring_inv rb m hist \<longleftrightarrow> ring_ok rb (ring_data m) \<and> unat (write_index m) = length hist \<and>
     read_index m \<le> write_index m \<and>
     (\<forall>i<length hist. length hist \<le> i + slots rb \<longrightarrow> slot_holds rb (ring_data m) i (hist ! i))"

text \<open>Reading the log: what the last \<open>slots\<close> entries answer.\<close>

definition log_read :: "ring_buffer \<Rightarrow> bytes option list \<Rightarrow> u64 \<Rightarrow> bytes
    \<Rightarrow> bytes \<times> (nat, ring_error) rust_result" where
  "log_read rb hist s out =
     (if length hist \<le> unat s then (out, Err No_data_at_sequence)
      else if slots rb < length hist - unat s then (out, Err Slot_overwritten)
      else case hist ! unat s of
             None \<Rightarrow> (out, Err Slot_not_yet_written)
           | Some p \<Rightarrow>
               if p = [] then (out, Err Slot_not_yet_written)
               else if length out < length p then (out, Err Output_buffer_too_small)
               else (copy_into out p, Ok (length p)))"

lemma mod_window:
  assumes "(i :: nat) < n" "n < i + c"
  shows "i mod c \<noteq> n mod c"
proof
  assume "i mod c = n mod c"
  then have "n mod c = i mod c" by simp
  then have "c dvd n - i" using assms(1) by (simp add: mod_eq_dvd_iff_nat)
  then show False using assms by (auto dest: dvd_imp_le)
qed

lemma payload_cap_bound: "payload_cap rb < 2 ^ 32"
  using unsigned_less [of "slot_size rb", where 'a = nat]
  unfolding payload_capacity_from_stride_def by simp

lemma unat_payload_len: "n \<le> payload_cap rb \<Longrightarrow> unat (of_nat n :: u32) = n"
  using payload_cap_bound [of rb] by (simp add: unat_of_nat)

lemma hist_index:
  assumes "unat (write_index m) = length hist" "i \<le> length hist"
  shows "unat (of_nat i :: u64) = i"
  using assms unsigned_less [of "write_index m", where 'a = nat] by (intro unat_of_nat64) simp

lemma advance_watermark_simps [simp]:
  "write_index (advance_watermark rb w m) = write_index m"
  "ring_data (advance_watermark rb w m) = ring_data m"
  "epoch (advance_watermark rb w m) = epoch m"
  by (auto simp: advance_watermark_def split: option.splits)

lemma advance_watermark_read:
  "unat (read_index (advance_watermark rb w m)) =
     (if unat (read_index m) \<le> unat w \<and> slots rb \<le> unat w - unat (read_index m)
      then unat w - (slots rb - 1) else unat (read_index m))" if "0 < slots rb"
proof -
  have "unat (ucast (slot_count rb) - 1 :: u64) = slots rb - 1"
    using that by (subst unat_sub) (simp_all add: word_le_nat_alt)
  then show ?thesis
    using that by (auto simp: advance_watermark_def checked_sub64_def word_le_nat_alt unat_sub
        split: option.splits)
qed

lemma write_too_big: "payload_cap rb < length data \<Longrightarrow> rb_write rb m data = (m, Err Data_exceeds_slot_size)"
  by (simp add: rb_write_def)

lemma write_fits:
  assumes inv: "ring_inv rb m hist" and fits: "length data \<le> payload_cap rb"
    and room: "length hist + 1 < 2 ^ 64"
  shows "snd (rb_write rb m data) = Ok (of_nat (length hist))"
    and "ring_inv rb (fst (rb_write rb m data)) (hist @ [Some data])"
    and "read_index m \<le> read_index (fst (rb_write rb m data))"
    and "epoch (fst (rb_write rb m data)) = epoch m"
proof -
  let ?w = "write_index m" and ?d = "ring_data m" and ?n = "length hist"
  let ?m' = "fst (rb_write rb m data)"
  have ok: "ring_ok rb ?d" and wn: "unat ?w = ?n" and rw: "unat (read_index m) \<le> ?n"
    and held: "\<And>i. i < ?n \<Longrightarrow> ?n \<le> i + slots rb \<Longrightarrow> slot_holds rb ?d i (hist ! i)"
    using inv by (auto simp: ring_inv_def word_le_nat_alt)
  have w: "?w = of_nat ?n" using wn by (metis of_nat_unat ucast_id)
  have pos: "0 < slots rb" using ok by (simp add: ring_ok_def)
  have d': "ring_data ?m' = fill_slot rb ?w data ?d"
    and w': "write_index ?m' = ?w + 1"
    and r': "read_index ?m' = read_index (advance_watermark rb ?w (m\<lparr>write_index := ?w + 1\<rparr>))"
    using fits by (simp_all add: rb_write_def Let_def)
  show "snd (rb_write rb m data) = Ok (of_nat ?n)" using fits w by (simp add: rb_write_def Let_def)
  show "epoch ?m' = epoch m" using fits by (simp add: rb_write_def Let_def)
  have ru: "unat (read_index m) \<le> unat (read_index ?m')" "unat (read_index ?m') \<le> ?n + 1"
    unfolding r' advance_watermark_read [OF pos] using rw wn pos by auto
  then show "read_index m \<le> read_index ?m'" by (simp add: word_le_nat_alt)
  have wu: "unat (?w + 1) = ?n + 1" using room wn by (simp add: unat_word_ariths)
  have "slot_holds rb (fill_slot rb ?w data ?d) i ((hist @ [Some data]) ! i)"
    if i: "i < ?n + 1" "?n + 1 \<le> i + slots rb" for i
  proof (cases "i = ?n")
    case True
    then show ?thesis
      using fill_slot_same [OF ok fits, of ?w] fits by (simp add: slot_holds_def Let_def w nth_append)
  next
    case False
    have iu: "unat (of_nat i :: u64) = i" using i wn by (intro hist_index [of m hist]) simp_all
    have "unat (of_nat i :: u64) mod slots rb \<noteq> unat ?w mod slots rb"
      unfolding iu wn using i False by (intro mod_window) auto
    note other = fill_slot_other [OF ok fits this]
    from held [of i] False i have "slot_holds rb ?d i (hist ! i)" by simp
    then show ?thesis
      using False i other by (auto simp: slot_holds_def Let_def nth_append split: option.splits)
  qed
  then show "ring_inv rb ?m' (hist @ [Some data])"
    using ok fits ru wu by (simp add: ring_inv_def d' w' ring_ok_def word_le_nat_alt)
qed

lemma read_refines:
  assumes inv: "ring_inv rb m hist"
  shows "read_slot rb m s out = log_read rb hist s out"
proof -
  let ?w = "write_index m" and ?d = "ring_data m" and ?n = "length hist"
  have wn: "unat ?w = ?n" using inv by (simp add: ring_inv_def)
  consider "?n \<le> unat s" | "unat s < ?n" "slots rb < ?n - unat s"
    | "unat s < ?n" "?n - unat s \<le> slots rb" by linarith
  then show ?thesis
  proof cases
    case 3
    have su: "of_nat (unat s) = s" by simp
    have win: "\<not> ?w \<le> s" "\<not> ucast (slot_count rb) < ?w - s"
      using 3 wn by (simp_all add: word_le_nat_alt word_less_nat_alt unat_sub)
    have h: "slot_holds rb ?d (unat s) (hist ! unat s)" using inv 3 by (simp add: ring_inv_def)
    have "s \<noteq> SEQ_BUSY" using win(1) by auto
    then show ?thesis
      using 3 win h unat_payload_len [of _ rb]
      by (auto simp: read_slot_def log_read_def slot_holds_def Let_def su split: option.splits)
  qed (auto simp: read_slot_def log_read_def Let_def word_le_nat_alt word_less_nat_alt unat_sub wn)
qed

lemma size_refines:
  assumes inv: "ring_inv rb m hist"
  shows "slot_data_size rb m s =
     (if length hist \<le> unat s then Err No_data_at_sequence
      else if slots rb < length hist - unat s then Err Slot_overwritten
      else case hist ! unat s of
             None \<Rightarrow> Err Slot_not_yet_written
           | Some p \<Rightarrow> if p = [] then Err Slot_not_yet_written else Ok (length p))"
proof -
  have "slot_data_size rb m s = (case read_slot rb m s (replicate (2 ^ 32) 0) of (_, r) \<Rightarrow> r)"
  proof -
    have "unat (slot_len (ring_data m) (slot_off rb s)) \<le> 2 ^ 32"
      using unsigned_less [of "slot_len (ring_data m) (slot_off rb s)", where 'a = nat] by simp
    then show ?thesis by (simp add: slot_data_size_def read_slot_def Let_def)
  qed
  moreover have "length p \<le> 2 ^ 32"
    if "hist ! unat s = Some p" "\<not> length hist \<le> unat s" "\<not> slots rb < length hist - unat s" for p
  proof -
    have "unat s < length hist" "length hist \<le> unat s + slots rb" using that by simp_all
    then have "slot_holds rb (ring_data m) (unat s) (Some p)"
      using inv that(1) unfolding ring_inv_def by metis
    then show ?thesis using payload_cap_bound [of rb] by (simp add: slot_holds_def Let_def)
  qed
  ultimately show ?thesis
    unfolding read_refines [OF inv]
    by (cases "length hist \<le> unat s"; cases "slots rb < length hist - unat s")
      (auto simp: log_read_def split: option.splits)
qed

lemma read_keeps_inv:
  assumes inv: "ring_inv rb m hist"
  shows "ring_inv rb (fst (rb_read rb m s out)) hist"
    and "read_index m \<le> read_index (fst (rb_read rb m s out))"
proof -
  have "unat s < length hist" if "read_slot rb m s out = (out', Ok n)" for out' n
    using that unfolding read_refines [OF inv] by (auto simp: log_read_def split: if_splits)
  then have lt: "s < write_index m" if "read_slot rb m s out = (out', Ok n)" for out' n
    using that inv by (simp add: ring_inv_def word_less_nat_alt)
  have step: "s + 1 \<le> write_index m \<and> (read_index m \<le> s \<longrightarrow> read_index m \<le> s + 1)"
    if "s < write_index m"
  proof -
    have "unat (s + 1) = unat s + 1"
      using that unsigned_less [of "write_index m", where 'a = nat]
      by (intro unat_Suc64) (simp add: word_less_nat_alt)
    then show ?thesis using that by (simp add: word_le_nat_alt word_less_nat_alt)
  qed
  show "ring_inv rb (fst (rb_read rb m s out)) hist"
    and "read_index m \<le> read_index (fst (rb_read rb m s out))"
    using inv lt step by (auto simp: rb_read_def ring_inv_def split: prod.splits sum.splits)
qed

text \<open>The effect of an operation on the log.\<close>

fun log_exec :: "ring_buffer \<Rightarrow> bytes option list \<Rightarrow> ring_op \<Rightarrow> bytes option list" where
  "log_exec rb hist (Write data) =
     (if length data \<le> payload_cap rb then hist @ [Some data] else hist)"
| "log_exec rb hist _ = hist"

lemma exec_refines:
  assumes "ring_inv rb m hist" "length hist + 1 < 2 ^ 64"
  shows "ring_inv rb (ring_exec rb m x) (log_exec rb hist x)"
    and "read_index m \<le> read_index (ring_exec rb m x)"
proof -
  show "ring_inv rb (ring_exec rb m x) (log_exec rb hist x)"
  proof (cases x)
    case (Write data)
    then show ?thesis
      using assms write_fits(2) [OF assms(1) _ assms(2)] by (auto simp: rb_write_def)
  next
    case (Read s out)
    then show ?thesis using read_keeps_inv(1) [OF assms(1)] by simp
  qed (use assms in \<open>simp_all add: ring_inv_def mark_generation_def skip_all_pending_def\<close>)
  show "read_index m \<le> read_index (ring_exec rb m x)"
  proof (cases x)
    case (Write data)
    then show ?thesis
      using assms write_fits(3) [OF assms(1) _ assms(2), of data] by (cases "length data \<le> payload_cap rb") (auto simp: rb_write_def)
  next
    case (Read s out)
    then show ?thesis using read_keeps_inv(2) [OF assms(1)] by simp
  qed (use assms in \<open>simp_all add: ring_inv_def mark_generation_def skip_all_pending_def\<close>)
qed

lemma log_exec_length: "length (log_exec rb hist x) \<le> length hist + 1"
  by (cases x) auto

lemma ring_run_refines:
  "ring_inv rb m hist \<Longrightarrow> length hist + length xs < 2 ^ 64 \<Longrightarrow>
   ring_inv rb (foldl (ring_exec rb) m xs) (foldl (log_exec rb) hist xs) \<and>
   read_index m \<le> read_index (foldl (ring_exec rb) m xs)"
proof (induction xs arbitrary: m hist)
  case (Cons x xs)
  then have lt: "length hist + 1 < 2 ^ 64" by simp
  have "length (log_exec rb hist x) + length xs < 2 ^ 64"
    using log_exec_length [of rb hist x] Cons.prems(2) by simp
  with Cons exec_refines [OF Cons.prems(1) lt, of x] show ?case
    by (auto intro: order_trans)
qed simp

lemma log_exec_all:
  "foldl (log_exec rb) hist xs =
     hist @ map Some (concat (map (\<lambda>x. case x of Write d \<Rightarrow> if length d \<le> payload_cap rb then [d] else []
                                      | _ \<Rightarrow> []) xs))"
  by (induction xs arbitrary: hist) (auto split: ring_op.splits)

definition accepted_writes :: "ring_buffer \<Rightarrow> ring_op list \<Rightarrow> bytes list" where
  "accepted_writes rb xs =
     concat (map (\<lambda>x. case x of Write d \<Rightarrow> if length d \<le> payload_cap rb then [d] else [] | _ \<Rightarrow> []) xs)"

lemma init_inv:
  assumes "0 < slots rb" "16 \<le> unat (slot_size rb)"
  shows "ring_inv rb (init_segment rb) []"
  using assms by (simp add: ring_inv_def init_segment_def ring_ok_def)

lemma run_from_init:
  assumes "0 < slots rb" "16 \<le> unat (slot_size rb)" "length xs < 2 ^ 64"
  shows "ring_inv rb (foldl (ring_exec rb) (init_segment rb) xs) (map Some (accepted_writes rb xs))"
  using ring_run_refines [OF init_inv [OF assms(1,2)], of xs] assms(3)
  by (simp add: log_exec_all accepted_writes_def)

subsection \<open>Writes stay in their slot\<close>

definition only_slot :: "ring_buffer \<Rightarrow> u64 \<Rightarrow> bytes \<Rightarrow> bytes \<Rightarrow> bool" where
  "only_slot rb w d d' \<longleftrightarrow> length d' = length d \<and>
     (\<forall>s b k. unat s mod slots rb \<noteq> unat w mod slots rb \<longrightarrow> b + k \<le> unat (slot_size rb) \<longrightarrow>
        load_at d' (slot_off rb s + b) k = load_at d (slot_off rb s + b) k)"

lemma store_only_slot:
  assumes "ring_ok rb d" "a + length bs \<le> unat (slot_size rb)"
  shows "only_slot rb w d (store_at d (slot_off rb w + a) bs)"
proof -
  have r: "slot_off rb w + a + length bs \<le> length d"
    using slot_in_range [OF assms(1), of w] assms(2) by simp
  have "load_at (store_at d (slot_off rb w + a) bs) (slot_off rb s + b) k = load_at d (slot_off rb s + b) k"
    if "unat s mod slots rb \<noteq> unat w mod slots rb" "b + k \<le> unat (slot_size rb)" for s b k
  proof -
    have "slot_off rb s + b + k \<le> slot_off rb w + a \<or> slot_off rb w + a + length bs \<le> slot_off rb s + b"
      using slots_apart [OF assms(1) that(1)] that(2) assms(2) by linarith
    then show ?thesis using r by (auto simp: slot_access_simps)
  qed
  then show ?thesis using r by (simp add: only_slot_def)
qed

lemma only_slot_ok: "only_slot rb w d d' \<Longrightarrow> ring_ok rb d \<Longrightarrow> ring_ok rb d'"
  by (simp add: only_slot_def ring_ok_def)

lemma only_slot_other:
  assumes "only_slot rb w d d'" "ring_ok rb d" "unat s mod slots rb \<noteq> unat w mod slots rb"
  shows "slot_seq d' (slot_off rb s) = slot_seq d (slot_off rb s)"
    and "slot_len d' (slot_off rb s) = slot_len d (slot_off rb s)"
    and "n \<le> payload_cap rb \<Longrightarrow>
         slot_payload d' (slot_off rb s) n = slot_payload d (slot_off rb s) n"
proof -
  have sz: "16 \<le> unat (slot_size rb)" using assms(2) by (simp add: ring_ok_def)
  have f: "b + k \<le> unat (slot_size rb) \<Longrightarrow>
      load_at d' (slot_off rb s + b) k = load_at d (slot_off rb s + b) k" for b k
    using assms(1,3) by (simp add: only_slot_def)
  show "slot_seq d' (slot_off rb s) = slot_seq d (slot_off rb s)"
    "slot_len d' (slot_off rb s) = slot_len d (slot_off rb s)"
    using f [of 0 8] f [of 8 4] sz by (simp_all add: slot_access_defs)
  show "n \<le> payload_cap rb \<Longrightarrow>
         slot_payload d' (slot_off rb s) n = slot_payload d (slot_off rb s) n"
    using f [of 16 n] sz by (simp add: slot_access_defs payload_capacity_from_stride_def)
qed

lemma slot_holds_other:
  assumes "only_slot rb w d d'" "ring_ok rb d"
    and "unat (of_nat i :: u64) mod slots rb \<noteq> unat w mod slots rb"
  shows "slot_holds rb d' i e = slot_holds rb d i e"
  using only_slot_other [OF assms] by (auto simp: slot_holds_def Let_def split: option.splits)

lemma same_slot_off: "unat s mod slots rb = unat t mod slots rb \<Longrightarrow> slot_off rb s = slot_off rb t"
  by (simp add: slot_off_def)

text \<open>The four kinds of store, on the fields of the slot they write.\<close>

lemma set_seq_fields:
  assumes "ring_ok rb d"
  shows "only_slot rb w d (set_seq d (slot_off rb w) v)"
    and "slot_seq (set_seq d (slot_off rb w) v) (slot_off rb w) = v"
    and "slot_len (set_seq d (slot_off rb w) v) (slot_off rb w) = slot_len d (slot_off rb w)"
    and "slot_payload (set_seq d (slot_off rb w) v) (slot_off rb w) n = slot_payload d (slot_off rb w) n"
  using store_only_slot [OF assms, of 0 "u64_to_le v" w] slot_room(1) [OF assms, of w] assms
  by (simp_all add: slot_access_defs slot_access_simps ring_ok_def)

lemma set_len_fields:
  assumes "ring_ok rb d"
  shows "only_slot rb w d (set_len d (slot_off rb w) v)"
    and "slot_seq (set_len d (slot_off rb w) v) (slot_off rb w) = slot_seq d (slot_off rb w)"
    and "slot_len (set_len d (slot_off rb w) v) (slot_off rb w) = v"
    and "slot_payload (set_len d (slot_off rb w) v) (slot_off rb w) n = slot_payload d (slot_off rb w) n"
  using store_only_slot [OF assms, of 8 "u32_to_le v" w] slot_room(1) [OF assms, of w] assms
  by (simp_all add: slot_access_defs slot_access_simps ring_ok_def)

lemma copy_byte_fields:
  assumes "ring_ok rb d" "k < payload_cap rb"
  shows "only_slot rb w d (store_at d (slot_off rb w + 16 + k) [x])"
    and "slot_seq (store_at d (slot_off rb w + 16 + k) [x]) (slot_off rb w) = slot_seq d (slot_off rb w)"
    and "slot_len (store_at d (slot_off rb w + 16 + k) [x]) (slot_off rb w) = slot_len d (slot_off rb w)"
    and "slot_payload (store_at d (slot_off rb w + 16 + k) [x]) (slot_off rb w) (Suc k)
           = slot_payload d (slot_off rb w) k @ [x]"
proof -
  let ?o = "slot_off rb w"
  have r: "?o + 16 + Suc k \<le> length d" using slot_room(2) [OF assms(1), of "Suc k" w] assms(2) by simp
  have "16 + k + length [x] \<le> unat (slot_size rb)"
    using assms(2) by (simp add: payload_capacity_from_stride_def)
  from store_only_slot [OF assms(1) this, of w]
  show "only_slot rb w d (store_at d (?o + 16 + k) [x])" by (simp add: add.assoc)
  show "slot_seq (store_at d (?o + 16 + k) [x]) ?o = slot_seq d ?o"
    "slot_len (store_at d (?o + 16 + k) [x]) ?o = slot_len d ?o"
    using r by (simp_all add: slot_access_defs slot_access_simps)
  show "slot_payload (store_at d (?o + 16 + k) [x]) ?o (Suc k) = slot_payload d ?o k @ [x]"
    using r by (intro nth_equalityI) (auto simp: slot_payload_def load_at_def store_at_def nth_append)
qed

subsection \<open>Slot strides\<close>

lemma align8: "unat ((x :: u64) AND NOT 7) = unat x div 8 * 8"
proof -
  have "x AND NOT 7 = x AND NOT (mask 3)" by (simp add: mask_eq_exp_minus_1)
  also have "\<dots> = push_bit 3 (drop_bit 3 x)"
    by (rule bit_word_eqI) (auto simp: bit_simps)
  also have "\<dots> = x - take_bit 3 x" using bits_ident [of 3 x] by (metis add_diff_cancel_right')
  finally have eq: "x AND NOT 7 = x - take_bit 3 x" .
  have t: "unat (take_bit 3 x) = unat x mod 8"
    by (subst unsigned_take_bit_eq) (simp add: take_bit_eq_mod)
  then have "take_bit 3 x \<le> x" by (simp add: word_le_nat_alt)
  then have "unat (x - take_bit 3 x) = unat x - unat x mod 8" by (simp add: unat_sub t)
  then show ?thesis unfolding eq by (simp add: minus_mod_eq_div_mult)
qed

lemma stride_spec:
  "slot_stride_for_payload p =
     (let a = (unat p + 23) div 8 * 8 in if a < 2 ^ 32 then Ok (of_nat a) else Err Slot_size_overflow)"
proof -
  have lt: "unat p < 2 ^ 32" using unsigned_less [of p, where 'a = nat] by simp
  have u: "unat ((ucast p :: u64) + 16 + 7) = unat p + 23"
    using lt by (simp add: unat_word_ariths)
  have a: "unat (((ucast p :: u64) + 16 + 7) AND NOT 7) = (unat p + 23) div 8 * 8"
    unfolding align8 u ..
  have "ucast (((ucast p :: u64) + 16 + 7) AND NOT 7) = (of_nat ((unat p + 23) div 8 * 8) :: u32)"
    unfolding a [symmetric] by (simp add: of_nat_unat)
  then show ?thesis by (simp only: slot_stride_for_payload_def Let_def a)
qed

lemma stride_capacity:
  assumes "slot_stride_for_payload p = Ok st"
  shows "unat p \<le> payload_capacity_from_stride st" "payload_capacity_from_stride st < unat p + 8"
    and "16 \<le> unat st" "unat st mod 8 = 0"
proof -
  let ?a = "(unat p + 23) div 8 * 8"
  have st: "st = of_nat ?a" and "?a < 2 ^ 32"
    using assms by (auto simp: stride_spec Let_def split: if_splits)
  then have u: "unat st = ?a" by (simp only: unat_of_nat32)
  have "?a = unat p + 23 - (unat p + 23) mod 8" by (simp add: minus_mod_eq_div_mult)
  moreover have "(unat p + 23) mod 8 < 8" by simp
  ultimately have "unat p + 16 \<le> ?a" "?a < unat p + 24" by linarith+
  then show "unat p \<le> payload_capacity_from_stride st" "payload_capacity_from_stride st < unat p + 8"
    "16 \<le> unat st"
    unfolding payload_capacity_from_stride_def u by linarith+
  show "unat st mod 8 = 0" unfolding u by simp
qed

subsection \<open>Properties\<close>

text \<open>C2: A ring is an append-only log with a sliding window.  For a ring created for payloads of
  \<open>p\<close> bytes, after any interleaving of writes, consuming reads, generation marks and skips, a read of
  sequence number \<open>s\<close> returns exactly the \<open>s\<close>-th accepted payload when it is one of the last
  \<open>slot_count\<close>, and otherwise the error for its case (not written yet, overwritten, no payload, output
  buffer too small).\<close>

theorem ring_reads_last_slots:
  assumes "slot_stride_for_payload p = Ok (slot_size rb)" "0 < slot_count rb" "length xs < 2 ^ 64"
  shows "read_slot rb (foldl (ring_exec rb) (init_segment rb) xs) s out =
           log_read rb (map Some (accepted_writes rb xs)) s out"
proof (rule read_refines, rule run_from_init)
  show "0 < slots rb" using assms(2) by (simp add: word_less_nat_alt)
qed (use assms stride_capacity(3) in auto)

theorem ring_reads_last_slots_witness:
  "read_slot \<lparr>slot_count = 2, slot_size = 24\<rparr>
     (foldl (ring_exec \<lparr>slot_count = 2, slot_size = 24\<rparr>) (init_segment \<lparr>slot_count = 2, slot_size = 24\<rparr>)
       [Write [1], Read 0 [0], Write [2, 3], Write (replicate 9 7), Write [4]]) 1 [0, 0, 0]
   = ([2, 3, 0], Ok 2)"
  by (subst ring_reads_last_slots [of 8])
    (simp_all add: stride_spec log_read_def accepted_writes_def payload_capacity_from_stride_def
      copy_into_def)



lemma available_refines:
  assumes "ring_inv rb m hist"
  shows "rb_data_available_from rb m s \<longleftrightarrow>
           unat s < length hist \<and>
           (length hist - unat s \<le> slots rb \<or> read_index m < write_index m)"
  using assms
  by (cases "length hist \<le> unat s"; cases "slots rb < length hist - unat s")
    (auto simp: rb_data_available_from_def size_refines ring_inv_def word_less_nat_alt
      split: option.splits)

text \<open>C34: When \<open>data_available_from\<close> answers yes.  For a cursor inside the retained window it
  reports every reserved sample; for a cursor that was overwritten it reports data only while the
  shared read watermark is behind the write index.\<close>

theorem ring_available_iff:
  assumes "slot_stride_for_payload p = Ok (slot_size rb)" "0 < slot_count rb" "length xs < 2 ^ 64"
    and "m = foldl (ring_exec rb) (init_segment rb) xs"
  shows "rb_data_available_from rb m s \<longleftrightarrow>
           unat s < length (accepted_writes rb xs) \<and>
           (length (accepted_writes rb xs) - unat s \<le> slots rb \<or> read_index m < write_index m)"
proof -
  have "ring_inv rb m (map Some (accepted_writes rb xs))"
    unfolding assms(4) using assms(1,2,3) stride_capacity(3)
    by (intro run_from_init) (auto simp: word_less_nat_alt)
  from available_refines [OF this] show ?thesis by simp
qed

theorem ring_available_iff_witness:
  "rb_data_available_from \<lparr>slot_count = 2, slot_size = 24\<rparr>
     (foldl (ring_exec \<lparr>slot_count = 2, slot_size = 24\<rparr>)
       (init_segment \<lparr>slot_count = 2, slot_size = 24\<rparr>) [Write [1], Write [2]]) 0"
  by (subst ring_available_iff [of 8 _ "[Write [1], Write [2]]", OF _ _ _ refl])
    (simp_all add: stride_spec accepted_writes_def payload_capacity_from_stride_def)

lemma read_ok_advances:
  assumes "ring_inv rb m hist" "read_slot rb m s out = (out', Ok n)"
  shows "s < read_index (fst (rb_read rb m s out))"
proof -
  have "unat s < length hist"
    using assms(2) unfolding read_refines [OF assms(1)] by (auto simp: log_read_def split: if_splits)
  then have "unat (s + 1) = unat s + 1"
    using assms(1) unsigned_less [of "write_index m", where 'a = nat]
    by (intro unat_Suc64) (simp add: ring_inv_def)
  then show ?thesis using assms(2) by (auto simp: rb_read_def word_less_nat_alt word_le_nat_alt)
qed

text \<open>Note: A subscriber that was lapped is not woken once another reader has consumed the newest
  sample: with two slots and three samples written, after somebody reads sample 2 the ring still holds
  samples 1 and 2, yet \<open>data_available_from\<close> answers no for the cursor 0.\<close>

theorem ring_lapped_reader_not_woken:
  "let rb = \<lparr>slot_count = 2, slot_size = 24\<rparr>;
       m = foldl (ring_exec rb) (init_segment rb) [Write [1], Write [2], Write [3], Read 2 [0]] in
   \<not> rb_data_available_from rb m 0 \<and> read_slot rb m 1 [0] = ([2], Ok 1) \<and>
   read_slot rb m 2 [0] = ([3], Ok 1)"
proof -
  let ?rb = "\<lparr>slot_count = 2, slot_size = 24\<rparr>"
  let ?m = "foldl (ring_exec ?rb) (init_segment ?rb) [Write [1], Write [2], Write [3]]"
  have inv: "ring_inv ?rb ?m [Some [1], Some [2], Some [3]]"
    using run_from_init [of ?rb "[Write [1], Write [2], Write [3]]"]
    by (simp add: accepted_writes_def payload_capacity_from_stride_def)
  have "read_slot ?rb ?m 2 [0] = ([3], Ok 1)"
    by (subst read_refines [OF inv]) (simp add: log_read_def copy_into_def)
  then have "2 < read_index (fst (rb_read ?rb ?m 2 [0]))" by (rule read_ok_advances [OF inv])
  moreover note inv' = read_keeps_inv(1) [OF inv, of 2 "[0]"]
  ultimately have "\<not> read_index (fst (rb_read ?rb ?m 2 [0])) < write_index (fst (rb_read ?rb ?m 2 [0]))"
    by (simp add: ring_inv_def word_less_nat_alt)
  then show ?thesis
    using available_refines [OF inv', of 0] read_refines [OF inv', of 1 "[0]"]
      read_refines [OF inv', of 2 "[0]"]
    by (simp add: Let_def log_read_def copy_into_def)
qed

text \<open>Note: An empty payload is accepted by \<open>write\<close> and reported by \<open>data_available_from\<close>, but no
  read ever returns it: a zero length is taken for a slot still being written.\<close>

theorem ring_empty_payload_unreadable:
  assumes "ring_inv rb m hist" "length hist + 1 < 2 ^ 64"
  shows "let (m', r) = rb_write rb m [] in
         r = Ok (of_nat (length hist)) \<and> rb_data_available_from rb m' (of_nat (length hist)) \<and>
         read_slot rb m' (of_nat (length hist)) out = (out, Err Slot_not_yet_written)"
proof -
  note w = write_fits [OF assms(1) _ assms(2), of "[]", simplified]
  have n: "unat (of_nat (length hist) :: u64) = length hist"
    using assms(2) by (intro unat_of_nat64) simp
  have "0 < slots rb" using assms(1) by (simp add: ring_inv_def ring_ok_def)
  then show ?thesis
    using w(1) available_refines [OF w(2)] read_refines [OF w(2)]
    by (auto simp: log_read_def n Let_def split: prod.splits)
qed

theorem ring_empty_payload_unreadable_witness:
  "read_slot \<lparr>slot_count = 2, slot_size = 24\<rparr>
     (fst (rb_write \<lparr>slot_count = 2, slot_size = 24\<rparr> (init_segment \<lparr>slot_count = 2, slot_size = 24\<rparr>) []))
     0 [0] = ([0], Err Slot_not_yet_written)"
  using ring_empty_payload_unreadable [of "\<lparr>slot_count = 2, slot_size = 24\<rparr>"
      "init_segment \<lparr>slot_count = 2, slot_size = 24\<rparr>" "[]" "[0]"] init_inv [of "\<lparr>slot_count = 2, slot_size = 24\<rparr>"]
  by (auto simp: split_beta)

end
