(* ===== verification/Ring_Segment.thy ===== *)
theory Ring_Segment
  imports Ring_Buffer
begin

text \<open>
  Creating and opening the POSIX shared-memory segment of a ring (\<open>axon_core/src/local.rs\<close>,
  \<open>RingBuffer::create\<close>, \<open>create_with_fd\<close>, \<open>create_or_open\<close>, \<open>wait_open_compatible\<close>,
  \<open>open_or_create\<close>, \<open>from_fd\<close>, \<open>open\<close>).

  \<open>shm_world\<close> is the kernel's table: names to inodes, inodes to segments; an unlinked inode stays
  alive for those that mapped it.  The system calls \<open>fallocate\<close>, \<open>mmap\<close> and \<open>shm_open\<close> may fail in
  ways the code cannot foresee; \<open>shm_os\<close> gives their outcome at a point in time as a parameter.
  During a sleep of a retry loop, and between two \<open>shm_open\<close> calls, other processes may change the
  world: that is the parameter \<open>env\<close>.
\<close>

subsection \<open>The operating system\<close>

datatype errno = ENOSPC | EEXIST | ENOENT | Errno nat

datatype io_error =
    StorageFull | InvalidInput | InvalidData | UnexpectedEof | NotFound | AlreadyExists
  | Os_error errno

text \<open>\<open>io::Error::from(errno)\<close>, as far as \<open>kind()\<close> is inspected.\<close>

fun io_error_of_errno :: "errno \<Rightarrow> io_error" where
  "io_error_of_errno ENOSPC = StorageFull"
| "io_error_of_errno EEXIST = AlreadyExists"
| "io_error_of_errno ENOENT = NotFound"
| "io_error_of_errno (Errno n) = Os_error (Errno n)"

record shm_os =
  os_fallocate :: "nat \<Rightarrow> nat \<Rightarrow> errno option"
  os_mmap :: "nat \<Rightarrow> nat \<Rightarrow> errno option"
  os_shm_open :: "nat \<Rightarrow> errno option"
  os_avail :: "nat option"
  os_max_bytes :: nat

record segment =
  seg_len :: nat
  seg_ring :: ring_shm

record shm_world =
  shm_names :: "string \<Rightarrow> nat option"
  shm_inodes :: "nat \<Rightarrow> segment option"
  shm_next :: nat

abbreviation (input) HEADER_SIZE :: nat where "HEADER_SIZE \<equiv> 32"
abbreviation (input) MAX_RING_SLOTS :: nat where "MAX_RING_SLOTS \<equiv> 4096"
abbreviation (input) SHM_CREATE_RACE_RETRIES :: nat where "SHM_CREATE_RACE_RETRIES \<equiv> 100"

definition zero_ring :: ring_shm where
  "zero_ring = \<lparr> hdr_capacity = 0, hdr_slot_size = 0, write_index = 0, read_index = 0, epoch = 0,
                 ring_data = [] \<rparr>"

definition empty_segment :: segment where
  "empty_segment = \<lparr> seg_len = 0, seg_ring = zero_ring \<rparr>"

definition cstring :: "string \<Rightarrow> (string, io_error) rust_result" where
  "cstring s = (if CHR 0x00 \<in> set s then Err InvalidInput else Ok s)"

definition shm_name :: "string \<Rightarrow> string" where
  "shm_name name = ''/axon_'' @ name"

definition shm_unlink :: "string \<Rightarrow> shm_world \<Rightarrow> shm_world" where
  "shm_unlink n w = w\<lparr>shm_names := (shm_names w)(n := None)\<rparr>"

definition shm_create_excl :: "string \<Rightarrow> shm_world \<Rightarrow> shm_world \<times> nat" where
  "shm_create_excl n w =
     (w\<lparr>shm_names := (shm_names w)(n \<mapsto> shm_next w),
        shm_inodes := (shm_inodes w)(shm_next w \<mapsto> empty_segment),
        shm_next := shm_next w + 1\<rparr>, shm_next w)"

definition put_segment :: "nat \<Rightarrow> segment \<Rightarrow> shm_world \<Rightarrow> shm_world" where
  "put_segment ino seg w = w\<lparr>shm_inodes := (shm_inodes w)(ino \<mapsto> seg)\<rparr>"

subsection \<open>Allocation\<close>

definition clamp_slots :: "shm_os \<Rightarrow> nat \<Rightarrow> nat \<Rightarrow> nat" where
  "clamp_slots os requested stride =
     (let max_slots = min (max (os_max_bytes os div stride) 1) MAX_RING_SLOTS;
          sc = min requested max_slots;
          sc' = (case os_avail os of
                   None \<Rightarrow> sc
                 | Some avail \<Rightarrow>
                     (let max_by_shm = avail div stride in
                      if 0 < max_by_shm \<and> max_by_shm < sc then max_by_shm else sc)) in
      min (max sc' 1) (2 ^ 32 - 1))"

text \<open>The back-off loop: halve the number of slots while \<open>fallocate\<close> reports \<open>ENOSPC\<close>.\<close>

function fallocate_backoff :: "shm_os \<Rightarrow> nat \<Rightarrow> nat \<Rightarrow> nat \<Rightarrow> (nat, io_error) rust_result" where
  "fallocate_backoff os t stride sc =
     (let sz = HEADER_SIZE + sc * stride in
      case os_fallocate os t sz of
        None \<Rightarrow> Ok sz
      | Some ENOSPC \<Rightarrow>
          if 1 < sc then fallocate_backoff os (t + 1) stride (max sc 2 div 2) else Err StorageFull
      | Some e \<Rightarrow> Err StorageFull)"
  by pat_completeness auto
termination
  by (relation "measure (\<lambda>(os, t, stride, sc). sc)") (auto simp: max_def)

declare fallocate_backoff.simps [simp del]

definition create_with_fd :: "shm_os \<Rightarrow> nat \<Rightarrow> u32 \<Rightarrow> u32
    \<Rightarrow> (ring_buffer \<times> segment, io_error) rust_result" where
  "create_with_fd os t sc stride =
     (let requested = clamp_slots os (unat sc) (unat stride) in
      case fallocate_backoff os t (unat stride) requested of
        Err e \<Rightarrow> Err e
      | Ok total_size \<Rightarrow>
          (let n = min requested ((total_size - HEADER_SIZE) div unat stride);
               rb = \<lparr>slot_count = of_nat n, slot_size = stride\<rparr> in
           case os_mmap os t total_size of
             Some e \<Rightarrow> Err (io_error_of_errno e)
           | None \<Rightarrow> Ok (rb, \<lparr>seg_len = total_size, seg_ring = init_segment rb\<rparr>)))"

text \<open>Attaching to an existing segment: validate the header, reserve the backing pages (which
  extends a short file with zeros) and take slot count and stride from the header.\<close>

definition from_fd :: "shm_os \<Rightarrow> nat \<Rightarrow> segment \<Rightarrow> (ring_buffer \<times> segment, io_error) rust_result" where
  "from_fd os t seg =
     (if seg_len seg < HEADER_SIZE then Err UnexpectedEof
      else case os_fallocate os t HEADER_SIZE of
        Some e \<Rightarrow> Err StorageFull
      | None \<Rightarrow>
        (case os_mmap os t HEADER_SIZE of
           Some e \<Rightarrow> Err (io_error_of_errno e)
         | None \<Rightarrow>
           (let cap = hdr_capacity (seg_ring seg); ssz = hdr_slot_size (seg_ring seg) in
            if cap = 0 \<or> ssz = 0 then Err InvalidData
            else
              (let total_size = HEADER_SIZE + unat cap * unat ssz in
               case os_fallocate os t total_size of
                 Some e \<Rightarrow> Err StorageFull
               | None \<Rightarrow>
                 (case os_mmap os t total_size of
                    Some e \<Rightarrow> Err (io_error_of_errno e)
                  | None \<Rightarrow>
                      Ok (\<lparr>slot_count = cap, slot_size = ssz\<rparr>,
                          seg\<lparr>seg_len := max (seg_len seg) total_size,
                              seg_ring := (seg_ring seg)\<lparr>ring_data :=
                                 ring_data (seg_ring seg) @
                                 replicate (total_size - HEADER_SIZE - length (ring_data (seg_ring seg))) 0\<rparr>\<rparr>))))))"

definition is_compatible_with_request :: "ring_buffer \<Rightarrow> u32 \<Rightarrow> bool" where
  "is_compatible_with_request rb requested = (0 < slot_count rb \<and> requested \<le> slot_size rb)"

subsection \<open>Names\<close>

type_synonym attach_result = "(nat \<times> ring_buffer, io_error) rust_result"

definition shm_lookup :: "shm_world \<Rightarrow> string \<Rightarrow> (nat \<times> segment) option" where
  "shm_lookup w n =
     (case shm_names w n of
        None \<Rightarrow> None
      | Some ino \<Rightarrow> map_option (\<lambda>seg. (ino, seg)) (shm_inodes w ino))"

text \<open>\<open>shm_open\<close> without \<open>O_CREAT\<close>, and with \<open>O_CREAT | O_EXCL\<close>.\<close>

definition sys_open :: "shm_os \<Rightarrow> nat \<Rightarrow> string \<Rightarrow> shm_world
    \<Rightarrow> (nat \<times> segment, errno) rust_result" where
  "sys_open os t n w =
     (case os_shm_open os t of
        Some e \<Rightarrow> Err e
      | None \<Rightarrow> (case shm_lookup w n of None \<Rightarrow> Err ENOENT | Some x \<Rightarrow> Ok x))"

definition sys_create :: "shm_os \<Rightarrow> nat \<Rightarrow> string \<Rightarrow> shm_world
    \<Rightarrow> shm_world \<times> (nat, errno) rust_result" where
  "sys_create os t n w =
     (case os_shm_open os t of
        Some e \<Rightarrow> (w, Err e)
      | None \<Rightarrow> if shm_lookup w n \<noteq> None then (w, Err EEXIST)
                else (let (w', ino) = shm_create_excl n w in (w', Ok ino)))"

definition ring_open :: "shm_os \<Rightarrow> nat \<Rightarrow> string \<Rightarrow> shm_world \<Rightarrow> shm_world \<times> attach_result" where
  "ring_open os t name w =
     (case cstring (shm_name name) of
        Err e \<Rightarrow> (w, Err e)
      | Ok n \<Rightarrow>
        (case sys_open os t n w of
           Err e \<Rightarrow> (w, Err (io_error_of_errno e))
         | Ok (ino, seg) \<Rightarrow>
           (case from_fd os t seg of
              Err e \<Rightarrow> (w, Err e)
            | Ok (rb, seg') \<Rightarrow> (put_segment ino seg' w, Ok (ino, rb)))))"

text \<open>Initialise a segment just created under \<open>n\<close>, or remove the name again.\<close>

definition init_created :: "shm_os \<Rightarrow> nat \<Rightarrow> string \<Rightarrow> nat \<Rightarrow> u32 \<Rightarrow> u32 \<Rightarrow> shm_world
    \<Rightarrow> shm_world \<times> attach_result" where
  "init_created os t n ino sc stride w =
     (case create_with_fd os t sc stride of
        Ok (rb, seg) \<Rightarrow> (put_segment ino seg w, Ok (ino, rb))
      | Err e \<Rightarrow> (shm_unlink n w, Err e))"

fun wait_open_compatible :: "shm_os \<Rightarrow> (nat \<Rightarrow> shm_world \<Rightarrow> shm_world) \<Rightarrow> nat \<Rightarrow> nat \<Rightarrow> string \<Rightarrow> u32
    \<Rightarrow> shm_world \<Rightarrow> shm_world \<times> ((nat \<times> ring_buffer) option, io_error) rust_result" where
  "wait_open_compatible os env 0 t name stride w = (w, Ok None)"
| "wait_open_compatible os env (Suc k) t name stride w =
     (case ring_open os t name w of
        (w', Ok (ino, rb)) \<Rightarrow>
          (w', Ok (if is_compatible_with_request rb stride then Some (ino, rb) else None))
      | (w', Err e) \<Rightarrow>
          if e = InvalidData \<or> e = UnexpectedEof
          then wait_open_compatible os env k (t + 1) name stride (env t w')
          else if e = NotFound then (w', Ok None)
          else (w', Err e))"

fun open_or_create_loop :: "shm_os \<Rightarrow> (nat \<Rightarrow> shm_world \<Rightarrow> shm_world) \<Rightarrow> nat \<Rightarrow> nat \<Rightarrow> string
    \<Rightarrow> u32 \<Rightarrow> u32 \<Rightarrow> shm_world \<Rightarrow> shm_world \<times> attach_result" where
  "open_or_create_loop os env 0 t n sc stride w = (w, Err AlreadyExists)"
| "open_or_create_loop os env (Suc k) t n sc stride w =
     (let retry = (\<lambda>w'. open_or_create_loop os env k (t + 1) n sc stride (env t w')) in
      case sys_open os t n w of
        Ok (ino, seg) \<Rightarrow>
          (case from_fd os t seg of
             Ok (rb, seg') \<Rightarrow>
               if is_compatible_with_request rb stride
               then (put_segment ino seg' w, Ok (ino, rb))
               else retry (shm_unlink n (put_segment ino seg' w))
           | Err e \<Rightarrow>
               if e = InvalidData \<or> e = UnexpectedEof then retry w
               else (shm_unlink n w, Err e))
      | Err ENOENT \<Rightarrow>
          (case sys_create os t n (env t w) of
             (w', Ok ino) \<Rightarrow> init_created os t n ino sc stride w'
           | (w', Err EEXIST) \<Rightarrow> retry w'
           | (w', Err e) \<Rightarrow> (w', Err (io_error_of_errno e)))
      | Err EEXIST \<Rightarrow> retry w
      | Err e \<Rightarrow> (w, Err (io_error_of_errno e)))"

definition open_or_create :: "shm_os \<Rightarrow> (nat \<Rightarrow> shm_world \<Rightarrow> shm_world) \<Rightarrow> nat \<Rightarrow> string
    \<Rightarrow> u32 \<Rightarrow> u32 \<Rightarrow> shm_world \<Rightarrow> shm_world \<times> attach_result" where
  "open_or_create os env t name sc stride w =
     (case cstring (shm_name name) of
        Err e \<Rightarrow> (w, Err e)
      | Ok n \<Rightarrow> open_or_create_loop os env SHM_CREATE_RACE_RETRIES t n sc stride w)"

definition create_or_open :: "shm_os \<Rightarrow> (nat \<Rightarrow> shm_world \<Rightarrow> shm_world) \<Rightarrow> nat \<Rightarrow> string
    \<Rightarrow> u32 \<Rightarrow> u32 \<Rightarrow> shm_world \<Rightarrow> shm_world \<times> attach_result" where
  "create_or_open os env t name sc payload w =
     (case slot_stride_for_payload payload of
        Err _ \<Rightarrow> (w, Err InvalidInput)
      | Ok stride \<Rightarrow>
        (case cstring (shm_name name) of
           Err e \<Rightarrow> (w, Err e)
         | Ok n \<Rightarrow>
           (case sys_create os t n w of
              (w', Ok ino) \<Rightarrow> init_created os t n ino sc stride w'
            | (w', Err EEXIST) \<Rightarrow>
                (case wait_open_compatible os env SHM_CREATE_RACE_RETRIES t name stride w' of
                   (w'', Err e) \<Rightarrow> (w'', Err e)
                 | (w'', Ok (Some x)) \<Rightarrow> (w'', Ok x)
                 | (w'', Ok None) \<Rightarrow> open_or_create os env t name sc stride (shm_unlink n w''))
            | (w', Err e) \<Rightarrow> (w', Err (io_error_of_errno e)))))"

text \<open>\<open>RingBuffer::create\<close>: drop the old name and open or create the new one without \<open>O_EXCL\<close>.\<close>

definition ring_create :: "shm_os \<Rightarrow> (nat \<Rightarrow> shm_world \<Rightarrow> shm_world) \<Rightarrow> nat \<Rightarrow> string
    \<Rightarrow> u32 \<Rightarrow> u32 \<Rightarrow> shm_world \<Rightarrow> shm_world \<times> attach_result" where
  "ring_create os env t name sc payload w =
     (if sc = 0 then (w, Err InvalidInput)
      else case slot_stride_for_payload payload of
        Err _ \<Rightarrow> (w, Err InvalidInput)
      | Ok stride \<Rightarrow>
        (case cstring (shm_name name) of
           Err e \<Rightarrow> (w, Err e)
         | Ok n \<Rightarrow>
           (let w1 = env t (shm_unlink n w) in
            case os_shm_open os t of
              Some e \<Rightarrow> (w1, Err (io_error_of_errno e))
            | None \<Rightarrow>
              (let (w2, ino) = (case shm_lookup w1 n of
                                  Some (ino, _) \<Rightarrow> (w1, ino)
                                | None \<Rightarrow> shm_create_excl n w1) in
               case create_with_fd os t sc stride of
                 Ok (rb, seg) \<Rightarrow> (put_segment ino seg w2, Ok (ino, rb))
               | Err e \<Rightarrow> (w2, Err e)))))"

subsection \<open>Allocation lemmas\<close>

lemma clamp_slots_bounds:
  "1 \<le> clamp_slots os n stride" "clamp_slots os n stride \<le> 4096"
  "0 < n \<Longrightarrow> clamp_slots os n stride \<le> n"
  by (auto simp: clamp_slots_def Let_def split: option.splits)

lemma backoff_Ok:
  "fallocate_backoff os t stride sc = Ok sz \<Longrightarrow> 1 \<le> sc \<Longrightarrow>
   \<exists>n t'. 1 \<le> n \<and> n \<le> sc \<and> sz = 32 + n * stride \<and> os_fallocate os t' sz = None"
proof (induction os t stride sc rule: fallocate_backoff.induct)
  case (1 os t stride sc)
  show ?case
  proof (cases "os_fallocate os t (32 + sc * stride)")
    case None
    then show ?thesis using 1(2,3) by (auto simp: fallocate_backoff.simps [of os t stride sc] Let_def)
  next
    case (Some e)
    then have e: "e = ENOSPC" "1 < sc"
      and rec: "fallocate_backoff os (t + 1) stride (max sc 2 div 2) = Ok sz"
      using 1(2) by (auto simp: fallocate_backoff.simps [of os t stride sc] Let_def
          split: errno.splits if_splits)
    have le: "1 \<le> max sc 2 div 2" "max sc 2 div 2 \<le> sc" using e(2) by auto
    from 1(1) [OF refl Some e(1) e(2) rec le(1)] obtain n t' where
      "1 \<le> n" "n \<le> max sc 2 div 2" "sz = 32 + n * stride" "os_fallocate os t' sz = None" by blast
    with le(2) show ?thesis by (intro exI [of _ n] exI [of _ t']) simp
  qed
qed

lemma backoff_error:
  "fallocate_backoff os t stride sc = Err e \<Longrightarrow> e = StorageFull"
proof (induction os t stride sc rule: fallocate_backoff.induct)
  case (1 os t stride sc)
  then show ?case
    by (subst (asm) (2) fallocate_backoff.simps)
      (auto simp: Let_def split: option.splits errno.splits if_splits)
qed

lemma create_with_fd_Ok:
  assumes "create_with_fd os t sc stride = Ok (rb, seg)" "0 < unat sc" "16 \<le> unat stride"
  shows "1 \<le> slots rb" "slots rb \<le> min (unat sc) 4096" "slot_size rb = stride"
    and "seg_len seg = 32 + slots rb * unat stride" "\<exists>t'. os_fallocate os t' (seg_len seg) = None"
    and "seg_ring seg = init_segment rb" "ring_inv rb (seg_ring seg) []"
proof -
  let ?c = "clamp_slots os (unat sc) (unat stride)"
  obtain sz where b: "fallocate_backoff os t (unat stride) ?c = Ok sz"
    and rb: "rb = \<lparr>slot_count = of_nat (min ?c ((sz - 32) div unat stride)), slot_size = stride\<rparr>"
    and seg: "seg = \<lparr>seg_len = sz, seg_ring = init_segment rb\<rparr>"
    using assms(1) by (auto simp: create_with_fd_def Let_def split: sum.splits option.splits)
  obtain n t' where n: "1 \<le> n" "n \<le> ?c" "sz = 32 + n * unat stride" "os_fallocate os t' sz = None"
    using backoff_Ok [OF b] clamp_slots_bounds(1) by blast
  have lim: "?c \<le> 4096" "?c \<le> unat sc" using clamp_slots_bounds(2,3) assms(2) by auto
  have "(sz - 32) div unat stride = n" using n(3) assms(3) by simp
  then have sl: "slots rb = n" unfolding rb using n(2) lim by (simp add: unat_of_nat32)
  show "1 \<le> slots rb" "slots rb \<le> min (unat sc) 4096" using sl n lim by auto
  show "slot_size rb = stride" by (simp add: rb)
  show "seg_len seg = 32 + slots rb * unat stride" by (simp add: seg sl n(3))
  show "\<exists>t'. os_fallocate os t' (seg_len seg) = None" using n(4) by (auto simp: seg)
  show i: "seg_ring seg = init_segment rb" by (simp add: seg)
  show "ring_inv rb (seg_ring seg) []"
    unfolding i using sl n(1) assms(3) by (intro init_inv) (auto simp: rb)
qed

subsection \<open>Attaching\<close>

text \<open>A machine with enough memory whose system calls do not fail.\<close>

definition os_works :: "shm_os \<Rightarrow> bool" where
  "os_works os \<longleftrightarrow> (\<forall>t n. os_fallocate os t n = None \<and> os_mmap os t n = None) \<and> (\<forall>t. os_shm_open os t = None)"

definition seg_valid :: "segment \<Rightarrow> bool" where
  "seg_valid seg \<longleftrightarrow> 32 \<le> seg_len seg \<and> hdr_capacity (seg_ring seg) \<noteq> 0 \<and> hdr_slot_size (seg_ring seg) \<noteq> 0"

definition handle_of :: "segment \<Rightarrow> ring_buffer" where
  "handle_of seg = \<lparr>slot_count = hdr_capacity (seg_ring seg), slot_size = hdr_slot_size (seg_ring seg)\<rparr>"

lemma from_fd_valid:
  assumes "os_works os" "seg_valid seg"
  obtains seg' where "from_fd os t seg = Ok (handle_of seg, seg')"
    and "hdr_capacity (seg_ring seg') = hdr_capacity (seg_ring seg)"
    and "\<And>hist. ring_inv (handle_of seg) (seg_ring seg) hist \<Longrightarrow> seg_ring seg' = seg_ring seg"
  using assms
  by (simp add: from_fd_def os_works_def seg_valid_def Let_def handle_of_def ring_inv_def ring_ok_def)

lemma create_or_open_existing:
  assumes os: "os_works os" and st: "slot_stride_for_payload payload = Ok stride"
    and nm: "cstring (shm_name name) = Ok n" and lk: "shm_lookup w n = Some (ino, seg)"
    and sv: "seg_valid seg" and fit: "stride \<le> hdr_slot_size (seg_ring seg)"
    and ring: "ring_inv (handle_of seg) (seg_ring seg) hist"
  shows "\<exists>seg'. create_or_open os env t name sc payload w =
      (put_segment ino seg' w, Ok (ino, handle_of seg)) \<and> seg_ring seg' = seg_ring seg"
proof -
  obtain seg' where f: "from_fd os t seg = Ok (handle_of seg, seg')" "seg_ring seg' = seg_ring seg"
    using from_fd_valid [OF os sv] ring by metis
  have "os_shm_open os t = None" using os by (simp add: os_works_def)
  moreover have "is_compatible_with_request (handle_of seg) stride"
    using sv fit by (simp add: is_compatible_with_request_def handle_of_def seg_valid_def word_neq_0_conv)
  ultimately have "wait_open_compatible os env (Suc k) t name stride w =
      (put_segment ino seg' w, Ok (Some (ino, handle_of seg)))" for k
    using f nm lk by (simp add: sys_open_def ring_open_def)
  from this [of 99] show ?thesis
    using f nm lk \<open>os_shm_open os t = None\<close>
    by (intro exI [of _ seg']) (simp add: create_or_open_def st sys_create_def)
qed

lemma lookup_created:
  "shm_lookup (put_segment (shm_next w) seg (fst (shm_create_excl n w))) n = Some (shm_next w, seg)"
  by (simp add: shm_lookup_def put_segment_def shm_create_excl_def)

lemma create_or_open_fresh:
  assumes st: "slot_stride_for_payload payload = Ok stride"
    and nm: "cstring (shm_name name) = Ok n" and lk: "shm_lookup w n = None"
    and os: "os_shm_open os t = None"
  shows "create_or_open os env t name sc payload w =
     (case create_with_fd os t sc stride of
        Ok (rb, seg) \<Rightarrow> (put_segment (shm_next w) seg (fst (shm_create_excl n w)), Ok (shm_next w, rb))
      | Err e \<Rightarrow> (shm_unlink n (fst (shm_create_excl n w)), Err e))"
  using assms
  by (cases "create_with_fd os t sc stride")
    (auto simp: create_or_open_def sys_create_def shm_create_excl_def init_created_def)

subsection \<open>Properties\<close>

text \<open>C25: Allocation never hands out memory it did not get.  When \<open>create_with_fd\<close> succeeds, the
  ring has between 1 and the requested number of slots (4096 at most), the segment is exactly header
  plus slots, its size is one \<open>fallocate\<close> accepted, and the ring starts as the empty log.  The back-off
  loop always ends (it is a total function), and when it fails the error is \<open>StorageFull\<close>.\<close>

theorem ring_allocation_sound:
  assumes "0 < sc" "slot_stride_for_payload payload = Ok stride"
  shows "case create_with_fd os t sc stride of
           Ok (rb, seg) \<Rightarrow> 1 \<le> unat (slot_count rb) \<and> unat (slot_count rb) \<le> min (unat sc) 4096 \<and>
             slot_size rb = stride \<and> seg_len seg = 32 + unat (slot_count rb) * unat stride \<and>
             (\<exists>t'. os_fallocate os t' (seg_len seg) = None) \<and> ring_inv rb (seg_ring seg) []
         | Err e \<Rightarrow> e = StorageFull \<or> (\<exists>t' n e'. os_mmap os t' n = Some e')"
proof (cases "create_with_fd os t sc stride")
  case (Inl e)
  then show ?thesis
    using backoff_error [of os t "unat stride" "clamp_slots os (unat sc) (unat stride)"]
    by (auto simp: create_with_fd_def Let_def split: sum.splits option.splits)
next
  case (Inr x)
  then obtain rb seg where "create_with_fd os t sc stride = Ok (rb, seg)" by (cases x) auto
  moreover have "0 < unat sc" using assms(1) by (simp add: word_less_nat_alt)
  ultimately show ?thesis
    using create_with_fd_Ok [of os t sc stride rb seg] stride_capacity(3) [OF assms(2)] by simp
qed

text \<open>The machine of the witness: \<open>fallocate\<close> refuses more than 4 slots of 24 bytes.\<close>

definition small_os :: shm_os where
  "small_os = \<lparr> os_fallocate = (\<lambda>t n. if 128 < n then Some ENOSPC else None), os_mmap = (\<lambda>t n. None),
     os_shm_open = (\<lambda>t. None), os_avail = None, os_max_bytes = 268435456 \<rparr>"

theorem ring_allocation_sound_witness:
  "case create_with_fd small_os 0 16 24 of
     Ok (rb, seg) \<Rightarrow> 1 \<le> unat (slot_count rb) \<and> unat (slot_count rb) \<le> min 16 4096 \<and> slot_size rb = 24 \<and>
       ring_inv rb (seg_ring seg) []
   | Err e \<Rightarrow> False"
  using ring_allocation_sound [of 16 8 24 small_os 0]
  by (simp add: stride_spec create_with_fd_def clamp_slots_def fallocate_backoff.simps small_os_def Let_def)


definition plenty_os :: shm_os where
  "plenty_os = \<lparr> os_fallocate = (\<lambda>t n. None), os_mmap = (\<lambda>t n. None), os_shm_open = (\<lambda>t. None),
     os_avail = Some 1048576, os_max_bytes = 268435456 \<rparr>"

definition empty_world :: shm_world where
  "empty_world = \<lparr>shm_names = (\<lambda>_. None), shm_inodes = (\<lambda>_. None), shm_next = 0\<rparr>"


end
