(* ===== verification/Ring_Concurrency.thy ===== *)
theory Ring_Concurrency
  imports Ring_Buffer
begin

text \<open>
  One writer and one reader on the same ring, interleaved at the granularity of the individual
  atomic accesses and payload bytes of \<open>RingBuffer::write\<close> and \<open>RingBuffer::read_slot\<close>
  (\<open>axon_core/src/local.rs\<close>).

  The program counters follow the source line by line: \<open>write\<close> reserves an index, loads the read
  watermark, moves it, marks the slot busy, clears its length, copies the payload byte by byte,
  stores the length and publishes the sequence number; \<open>read_slot\<close> checks the window, the sequence
  word and the length, copies byte by byte and checks the sequence word again.  Accesses are
  sequentially consistent.  \<open>rc_hist\<close> is a ghost list of the published payloads.  A writer stops
  before its 64-bit index would wrap.

  The invariant shows that a read that succeeds returns exactly the payload published under its
  sequence number, never a mixture of two payloads.
\<close>

subsection \<open>States\<close>

datatype writer_pc =
    W_Idle
  | W_Reserved u64 bytes
  | W_Lag u64 bytes u64
  | W_Slot u64 bytes
  | W_Marked u64 bytes
  | W_Copy u64 bytes nat
  | W_Len u64 bytes

datatype reader_pc =
    R_Idle
  | R_Call u64 nat
  | R_Window u64 nat
  | R_Seq u64 nat
  | R_Copy u64 nat bytes
  | R_Ok u64 bytes
  | R_Err ring_error

record rc_state =
  rc_shm :: ring_shm
  rc_writer :: writer_pc
  rc_reader :: reader_pc
  rc_hist :: "bytes list"

abbreviation rc_data :: "rc_state \<Rightarrow> bytes" where "rc_data st \<equiv> ring_data (rc_shm st)"

definition upd_data :: "(bytes \<Rightarrow> bytes) \<Rightarrow> rc_state \<Rightarrow> rc_state" where
  "upd_data f st = st\<lparr>rc_shm := (rc_shm st)\<lparr>ring_data := f (rc_data st)\<rparr>\<rparr>"

definition rc_init :: "ring_buffer \<Rightarrow> rc_state" where
  "rc_init rb = \<lparr>rc_shm = init_segment rb, rc_writer = W_Idle, rc_reader = R_Idle, rc_hist = []\<rparr>"

subsection \<open>Steps\<close>

inductive write_step :: "ring_buffer \<Rightarrow> rc_state \<Rightarrow> rc_state \<Rightarrow> bool" for rb where
  reserve: "rc_writer st = W_Idle \<Longrightarrow> length data \<le> payload_cap rb \<Longrightarrow>
     unat (write_index (rc_shm st)) + 1 < 2 ^ 64 \<Longrightarrow>
     write_step rb st
       (st\<lparr>rc_shm := (rc_shm st)\<lparr>write_index := write_index (rc_shm st) + 1\<rparr>,
           rc_writer := W_Reserved (write_index (rc_shm st)) data\<rparr>)"
| load_watermark: "rc_writer st = W_Reserved w data \<Longrightarrow>
     write_step rb st (st\<lparr>rc_writer := W_Lag w data (read_index (rc_shm st))\<rparr>)"
| move_watermark: "rc_writer st = W_Lag w data r \<Longrightarrow>
     write_step rb st
       (st\<lparr>rc_shm := (if r = read_index (rc_shm st) then advance_watermark rb w (rc_shm st) else rc_shm st),
           rc_writer := W_Slot w data\<rparr>)"
| mark_busy: "rc_writer st = W_Slot w data \<Longrightarrow>
     write_step rb st
       ((upd_data (\<lambda>d. set_seq d (slot_off rb w) SEQ_BUSY) st)\<lparr>rc_writer := W_Marked w data\<rparr>)"
| clear_len: "rc_writer st = W_Marked w data \<Longrightarrow>
     write_step rb st
       ((upd_data (\<lambda>d. set_len d (slot_off rb w) 0) st)\<lparr>rc_writer := W_Copy w data 0\<rparr>)"
| copy_byte: "rc_writer st = W_Copy w data k \<Longrightarrow> k < length data \<Longrightarrow>
     write_step rb st
       ((upd_data (\<lambda>d. store_at d (slot_off rb w + SLOT_DATA_OFFSET + k) [data ! k]) st)
          \<lparr>rc_writer := W_Copy w data (Suc k)\<rparr>)"
| store_len: "rc_writer st = W_Copy w data (length data) \<Longrightarrow>
     write_step rb st
       ((upd_data (\<lambda>d. set_len d (slot_off rb w) (of_nat (length data))) st)\<lparr>rc_writer := W_Len w data\<rparr>)"
| publish: "rc_writer st = W_Len w data \<Longrightarrow>
     write_step rb st
       ((upd_data (\<lambda>d. set_seq d (slot_off rb w) w) st)
          \<lparr>rc_writer := W_Idle, rc_hist := rc_hist st @ [data]\<rparr>)"

inductive read_step :: "ring_buffer \<Rightarrow> rc_state \<Rightarrow> rc_state \<Rightarrow> bool" for rb where
  call: "read_step rb st (st\<lparr>rc_reader := R_Call s out_len\<rparr>)"
| no_data: "rc_reader st = R_Call s out_len \<Longrightarrow> write_index (rc_shm st) \<le> s \<Longrightarrow>
     read_step rb st (st\<lparr>rc_reader := R_Err No_data_at_sequence\<rparr>)"
| overwritten: "rc_reader st = R_Call s out_len \<Longrightarrow> s < write_index (rc_shm st) \<Longrightarrow>
     ucast (slot_count rb) < write_index (rc_shm st) - s \<Longrightarrow>
     read_step rb st (st\<lparr>rc_reader := R_Err Slot_overwritten\<rparr>)"
| in_window: "rc_reader st = R_Call s out_len \<Longrightarrow> s < write_index (rc_shm st) \<Longrightarrow>
     write_index (rc_shm st) - s \<le> ucast (slot_count rb) \<Longrightarrow>
     read_step rb st (st\<lparr>rc_reader := R_Window s out_len\<rparr>)"
| bad_seq: "rc_reader st = R_Window s out_len \<Longrightarrow> slot_seq (rc_data st) (slot_off rb s) \<noteq> s \<Longrightarrow>
     read_step rb st (st\<lparr>rc_reader := R_Err Slot_not_yet_written\<rparr>)"
| good_seq: "rc_reader st = R_Window s out_len \<Longrightarrow> slot_seq (rc_data st) (slot_off rb s) = s \<Longrightarrow>
     read_step rb st (st\<lparr>rc_reader := R_Seq s out_len\<rparr>)"
| no_len: "rc_reader st = R_Seq s out_len \<Longrightarrow> slot_len (rc_data st) (slot_off rb s) = 0 \<Longrightarrow>
     read_step rb st (st\<lparr>rc_reader := R_Err Slot_not_yet_written\<rparr>)"
| too_small: "rc_reader st = R_Seq s out_len \<Longrightarrow> out_len < unat (slot_len (rc_data st) (slot_off rb s)) \<Longrightarrow>
     read_step rb st (st\<lparr>rc_reader := R_Err Output_buffer_too_small\<rparr>)"
| good_len: "rc_reader st = R_Seq s out_len \<Longrightarrow> slot_len (rc_data st) (slot_off rb s) \<noteq> 0 \<Longrightarrow>
     unat (slot_len (rc_data st) (slot_off rb s)) \<le> out_len \<Longrightarrow>
     read_step rb st (st\<lparr>rc_reader := R_Copy s (unat (slot_len (rc_data st) (slot_off rb s))) []\<rparr>)"
| fetch_byte: "rc_reader st = R_Copy s n bs \<Longrightarrow> length bs < n \<Longrightarrow>
     read_step rb st
       (st\<lparr>rc_reader := R_Copy s n (bs @ load_at (rc_data st) (slot_off rb s + SLOT_DATA_OFFSET + length bs) 1)\<rparr>)"
| recheck_ok: "rc_reader st = R_Copy s n bs \<Longrightarrow> length bs = n \<Longrightarrow>
     slot_seq (rc_data st) (slot_off rb s) = s \<Longrightarrow>
     read_step rb st (st\<lparr>rc_reader := R_Ok s bs\<rparr>)"
| recheck_bad: "rc_reader st = R_Copy s n bs \<Longrightarrow> length bs = n \<Longrightarrow>
     slot_seq (rc_data st) (slot_off rb s) \<noteq> s \<Longrightarrow>
     read_step rb st (st\<lparr>rc_reader := R_Err Slot_overwritten\<rparr>)"

inductive rc_reachable :: "ring_buffer \<Rightarrow> rc_state \<Rightarrow> bool" for rb where
  start: "rc_reachable rb (rc_init rb)"
| writer: "rc_reachable rb st \<Longrightarrow> write_step rb st st' \<Longrightarrow> rc_reachable rb st'"
| reader: "rc_reachable rb st \<Longrightarrow> read_step rb st st' \<Longrightarrow> rc_reachable rb st'"

subsection \<open>The invariant\<close>

text \<open>Memory: a slot whose sequence word is a published number holds that payload, and no slot
  carries a number that was not published (apart from the zero of a fresh segment).\<close>

definition slots_ok :: "ring_buffer \<Rightarrow> bytes \<Rightarrow> bytes list \<Rightarrow> bool" where
  "slots_ok rb d hist \<longleftrightarrow> ring_ok rb d \<and> length hist < 2 ^ 64 \<and>
     (\<forall>s. unat s < length hist \<longrightarrow> slot_seq d (slot_off rb s) = s \<longrightarrow>
        slot_holds rb d (unat s) (Some (hist ! unat s))) \<and>
     (\<forall>s. slot_seq d (slot_off rb s) = SEQ_BUSY \<or> slot_seq d (slot_off rb s) = 0 \<or>
        unat (slot_seq d (slot_off rb s)) < length hist)"

definition begun :: "rc_state \<Rightarrow> ring_buffer \<Rightarrow> u64 \<Rightarrow> bytes \<Rightarrow> bool" where
  "begun st rb w data \<longleftrightarrow> unat w = length (rc_hist st) \<and>
     unat (write_index (rc_shm st)) = length (rc_hist st) + 1 \<and> length data \<le> payload_cap rb"

fun writer_ok :: "ring_buffer \<Rightarrow> rc_state \<Rightarrow> writer_pc \<Rightarrow> bool" where
  "writer_ok rb st W_Idle = (unat (write_index (rc_shm st)) = length (rc_hist st))"
| "writer_ok rb st (W_Reserved w data) = begun st rb w data"
| "writer_ok rb st (W_Lag w data r) = begun st rb w data"
| "writer_ok rb st (W_Slot w data) = begun st rb w data"
| "writer_ok rb st (W_Marked w data) =
     (begun st rb w data \<and> slot_seq (rc_data st) (slot_off rb w) = SEQ_BUSY)"
| "writer_ok rb st (W_Copy w data k) =
     (begun st rb w data \<and> slot_seq (rc_data st) (slot_off rb w) = SEQ_BUSY \<and> k \<le> length data \<and>
      slot_len (rc_data st) (slot_off rb w) = 0 \<and>
      slot_payload (rc_data st) (slot_off rb w) k = take k data)"
| "writer_ok rb st (W_Len w data) =
     (begun st rb w data \<and> slot_seq (rc_data st) (slot_off rb w) = SEQ_BUSY \<and>
      slot_len (rc_data st) (slot_off rb w) = of_nat (length data) \<and>
      slot_payload (rc_data st) (slot_off rb w) (length data) = data)"

text \<open>The first lap is special: sequence number 0 equals the zero of a fresh slot, so a reader may
  pass its first check before anything was published.\<close>

definition first_lap :: "rc_state \<Rightarrow> u64 \<Rightarrow> nat \<Rightarrow> bytes \<Rightarrow> bool" where
  "first_lap st s n bs \<longleftrightarrow> s = 0 \<and> rc_hist st = [] \<and>
     (\<exists>w data. rc_writer st = W_Len w data \<and> n = length data \<and> length bs \<le> n \<and>
        bs = take (length bs) data)"

definition copy_ok :: "ring_buffer \<Rightarrow> rc_state \<Rightarrow> u64 \<Rightarrow> nat \<Rightarrow> bytes \<Rightarrow> bool" where
  "copy_ok rb st s n bs \<longleftrightarrow> unat s < length (rc_hist st) \<and>
     (slot_seq (rc_data st) (slot_off rb s) = s \<longrightarrow>
        n = length (rc_hist st ! unat s) \<and> length bs \<le> n \<and> bs = take (length bs) (rc_hist st ! unat s))"

fun reader_ok :: "ring_buffer \<Rightarrow> rc_state \<Rightarrow> reader_pc \<Rightarrow> bool" where
  "reader_ok rb st (R_Window s l) = (s \<noteq> SEQ_BUSY)"
| "reader_ok rb st (R_Seq s l) = (unat s < length (rc_hist st) \<or> (s = 0 \<and> rc_hist st = []))"
| "reader_ok rb st (R_Copy s n bs) = (copy_ok rb st s n bs \<or> first_lap st s n bs)"
| "reader_ok rb st (R_Ok s bs) = (unat s < length (rc_hist st) \<and> bs = rc_hist st ! unat s)"
| "reader_ok rb st _ = True"

definition fresh_len :: "ring_buffer \<Rightarrow> rc_state \<Rightarrow> bool" where
  "fresh_len rb st \<longleftrightarrow> (rc_hist st = [] \<longrightarrow> (\<forall>w data. rc_writer st \<noteq> W_Len w data) \<longrightarrow>
     slot_len (rc_data st) (slot_off rb 0) = 0)"

definition rc_inv :: "ring_buffer \<Rightarrow> rc_state \<Rightarrow> bool" where
  "rc_inv rb st \<longleftrightarrow> slots_ok rb (rc_data st) (rc_hist st) \<and> writer_ok rb st (rc_writer st) \<and>
     reader_ok rb st (rc_reader st) \<and> fresh_len rb st"

lemma not_busy: "unat (s :: u64) < n \<Longrightarrow> n < 2 ^ 64 \<Longrightarrow> s \<noteq> SEQ_BUSY"
  using unat_max64 by auto

text \<open>A store into the slot the writer marked busy keeps the memory invariant.\<close>

lemma slots_ok_busy:
  assumes ok: "slots_ok rb d hist" and os: "only_slot rb w d d'"
    and busy: "slot_seq d' (slot_off rb w) = SEQ_BUSY"
  shows "slots_ok rb d' hist"
proof -
  have r: "ring_ok rb d" and n: "length hist < 2 ^ 64" using ok by (auto simp: slots_ok_def)
  have cases: "slot_seq d' (slot_off rb s) = SEQ_BUSY \<or>
     unat s mod slots rb \<noteq> unat w mod slots rb \<and> slot_seq d' (slot_off rb s) = slot_seq d (slot_off rb s)" for s
    using busy same_slot_off [of s rb w] only_slot_other(1) [OF os r] by metis
  have "slot_holds rb d' (unat s) (Some (hist ! unat s))"
    if "unat s < length hist" "slot_seq d' (slot_off rb s) = s" for s
  proof -
    have "s \<noteq> SEQ_BUSY" by (rule not_busy [OF that(1) n])
    with cases [of s] that have "unat s mod slots rb \<noteq> unat w mod slots rb"
      "slot_seq d (slot_off rb s) = s" by auto
    then show ?thesis
      using ok that(1) slot_holds_other [OF os r, of "unat s"] by (simp add: slots_ok_def)
  qed
  moreover have "slot_seq d' (slot_off rb s) = SEQ_BUSY \<or> slot_seq d' (slot_off rb s) = 0 \<or>
      unat (slot_seq d' (slot_off rb s)) < length hist" for s
    using cases [of s] ok by (auto simp: slots_ok_def)
  ultimately show ?thesis using only_slot_ok [OF os r] n by (simp add: slots_ok_def)
qed

lemma copy_ok_busy:
  assumes "copy_ok rb st s n bs" "slots_ok rb (rc_data st) (rc_hist st)"
    and "only_slot rb w (rc_data st) (rc_data st')" "rc_hist st' = rc_hist st"
    and "slot_seq (rc_data st') (slot_off rb w) = SEQ_BUSY"
  shows "copy_ok rb st' s n bs"
proof -
  have r: "ring_ok rb (rc_data st)" and n: "length (rc_hist st) < 2 ^ 64"
    using assms(2) by (auto simp: slots_ok_def)
  have lt: "unat s < length (rc_hist st)" using assms(1) by (simp add: copy_ok_def)
  have "slot_seq (rc_data st) (slot_off rb s) = s" if "slot_seq (rc_data st') (slot_off rb s) = s"
    using that not_busy [OF lt n] assms(5) same_slot_off [of s rb w]
      only_slot_other(1) [OF assms(3) r, of s] by metis
  then show ?thesis using assms(1,4) by (auto simp: copy_ok_def)
qed

lemma upd_data_simps [simp]:
  "rc_data (upd_data f st) = f (rc_data st)" "rc_hist (upd_data f st) = rc_hist st"
  "rc_reader (upd_data f st) = rc_reader st" "rc_writer (upd_data f st) = rc_writer st"
  "write_index (rc_shm (upd_data f st)) = write_index (rc_shm st)"
  by (simp_all add: upd_data_def)

lemma busy_step:
  assumes inv: "rc_inv rb st" and st': "st' = (upd_data f st)\<lparr>rc_writer := pc\<rparr>"
    and os: "only_slot rb w (rc_data st) (f (rc_data st))"
    and busy: "slot_seq (f (rc_data st)) (slot_off rb w) = SEQ_BUSY"
    and pc: "\<And>w data. rc_writer st \<noteq> W_Len w data" and ok: "writer_ok rb st' pc"
    and fresh: "fresh_len rb st'"
  shows "rc_inv rb st'"
proof -
  have so: "slots_ok rb (rc_data st) (rc_hist st)" using inv by (simp add: rc_inv_def)
  have "reader_ok rb st' (rc_reader st')"
  proof (cases "rc_reader st")
    case (R_Copy s n bs)
    then have "copy_ok rb st s n bs" using inv pc by (auto simp: rc_inv_def first_lap_def)
    from copy_ok_busy [OF this so, of w st'] os busy show ?thesis by (simp add: st' R_Copy)
  qed (use inv in \<open>auto simp: rc_inv_def st'\<close>)
  then show ?thesis using slots_ok_busy [OF so os busy] ok fresh by (simp add: rc_inv_def st')
qed

lemma fresh_slot: "begun st rb w data \<Longrightarrow> rc_hist st = [] \<Longrightarrow> w = 0"
  by (simp add: begun_def unat_eq_0)

lemma publish_step:
  assumes inv: "rc_inv rb st" and pc: "rc_writer st = W_Len w data"
    and st': "st' = (upd_data (\<lambda>d. set_seq d (slot_off rb w) w) st)
                \<lparr>rc_writer := W_Idle, rc_hist := rc_hist st @ [data]\<rparr>"
  shows "rc_inv rb st'"
proof -
  let ?d = "rc_data st" and ?h = "rc_hist st" and ?d' = "rc_data st'"
  have so: "slots_ok rb ?d ?h" and r: "ring_ok rb ?d"
    and wo: "writer_ok rb st (W_Len w data)" using inv pc by (auto simp: rc_inv_def slots_ok_def)
  then have w: "unat w = length ?h" and wi: "unat (write_index (rc_shm st)) = length ?h + 1"
    and cap: "length data \<le> payload_cap rb" by (auto simp: begun_def)
  have lim: "length ?h + 1 < 2 ^ 64"
    using wi unsigned_less [of "write_index (rc_shm st)", where 'a = nat] by simp
  have d': "?d' = set_seq ?d (slot_off rb w) w" by (simp add: st')
  note f = set_seq_fields [OF r, of w w, folded d']
  have here: "unat s mod slots rb = unat w mod slots rb \<Longrightarrow> slot_seq ?d' (slot_off rb s) = w" for s
    using f(2) same_slot_off [of s rb w] by simp
  note there = only_slot_other [OF f(1) r]
  have holds: "slot_holds rb ?d' (length ?h) (Some data)"
    using wo cap f w by (simp add: slot_holds_def Let_def flip: w)
  have live: "slot_holds rb ?d' (unat s) (Some ((?h @ [data]) ! unat s))"
    if "unat s < length ?h + 1" "slot_seq ?d' (slot_off rb s) = s" for s
  proof (cases "unat s mod slots rb = unat w mod slots rb")
    case True
    then have "s = w" using here [OF True] that(2) by simp
    then show ?thesis using holds w by simp
  next
    case False
    then have lt: "unat s < length ?h" using that(1) w by (metis less_Suc_eq Suc_eq_plus1)
    have "slot_seq ?d (slot_off rb s) = s" using there(1) [OF False] that(2) by simp
    then show ?thesis
      using so lt slot_holds_other [OF f(1) r, of "unat s"] False by (simp add: slots_ok_def nth_append)
  qed
  have nums: "slot_seq ?d' (slot_off rb s) = SEQ_BUSY \<or> slot_seq ?d' (slot_off rb s) = 0 \<or>
      unat (slot_seq ?d' (slot_off rb s)) < length ?h + 1" for s
    using here [of s] there(1) [of s] so w
    by (cases "unat s mod slots rb = unat w mod slots rb") (auto simp: slots_ok_def less_Suc_eq)
  have "slots_ok rb ?d' (rc_hist st')"
    using live nums lim only_slot_ok [OF f(1) r] by (simp add: slots_ok_def st')
  moreover have "reader_ok rb st' (rc_reader st')"
  proof (cases "rc_reader st")
    case (R_Copy s n bs)
    then consider "copy_ok rb st s n bs" | "first_lap st s n bs" using inv by (auto simp: rc_inv_def)
    then have "copy_ok rb st' s n bs"
    proof cases
      case 1
      then have lt: "unat s < length ?h" by (simp add: copy_ok_def)
      then have "s \<noteq> w" using w by auto
      then have "slot_seq ?d (slot_off rb s) = s" if "slot_seq ?d' (slot_off rb s) = s"
        using that here [of s] there(1) [of s] by metis
      then show ?thesis using 1 lt by (auto simp: copy_ok_def st' nth_append)
    next
      case 2
      then show ?thesis using pc by (auto simp: first_lap_def copy_ok_def st')
    qed
    then show ?thesis by (simp add: st' R_Copy)
  qed (use inv in \<open>auto simp: rc_inv_def st' nth_append\<close>)
  ultimately show ?thesis using wi by (simp add: rc_inv_def st' fresh_len_def)
qed

lemma frame_writer_pc:
  "rc_inv rb st \<Longrightarrow> (\<And>w data. rc_writer st \<noteq> W_Len w data) \<Longrightarrow> (\<And>w data. pc \<noteq> W_Len w data) \<Longrightarrow>
   ring_data m = rc_data st \<Longrightarrow> writer_ok rb (st\<lparr>rc_shm := m, rc_writer := pc\<rparr>) pc \<Longrightarrow>
   rc_inv rb (st\<lparr>rc_shm := m, rc_writer := pc\<rparr>)"
  by (cases "rc_reader st") (auto simp: rc_inv_def fresh_len_def copy_ok_def first_lap_def)

lemma write_step_inv: "write_step rb st st' \<Longrightarrow> rc_inv rb st \<Longrightarrow> rc_inv rb st'"
proof (induction rule: write_step.induct)
  case (reserve st data)
  then show ?case
    by (intro frame_writer_pc) (auto simp: rc_inv_def begun_def unat_Suc64)
next
  case (load_watermark st w data)
  then show ?case
    using frame_writer_pc [of rb st "W_Lag w data (read_index (rc_shm st))" "rc_shm st"]
    by (simp add: rc_inv_def begun_def)
next
  case (move_watermark st w data r)
  then show ?case by (intro frame_writer_pc) (auto simp: rc_inv_def begun_def)
next
  case (mark_busy st w data)
  then have r: "ring_ok rb (rc_data st)" and b: "begun st rb w data" "fresh_len rb st"
    by (auto simp: rc_inv_def slots_ok_def)
  note f = set_seq_fields [OF r, of w SEQ_BUSY]
  show ?case
    using b f fresh_slot [OF b(1)] mark_busy(1)
    by (intro busy_step [where f = "\<lambda>d. set_seq d (slot_off rb w) SEQ_BUSY", OF mark_busy(2) refl f(1)]) (auto simp: begun_def fresh_len_def)
next
  case (clear_len st w data)
  then have r: "ring_ok rb (rc_data st)" and b: "begun st rb w data"
    and q: "slot_seq (rc_data st) (slot_off rb w) = SEQ_BUSY" by (auto simp: rc_inv_def slots_ok_def)
  note f = set_len_fields [OF r, of w 0]
  show ?case
    using b q f fresh_slot [OF b] clear_len(1)
    by (intro busy_step [where f = "\<lambda>d. set_len d (slot_off rb w) 0", OF clear_len(2) refl f(1)])
      (auto simp: begun_def fresh_len_def slot_payload_def load_at_def)
next
  case (copy_byte st w data k)
  then have r: "ring_ok rb (rc_data st)" and b: "begun st rb w data"
    and q: "slot_seq (rc_data st) (slot_off rb w) = SEQ_BUSY" "fresh_len rb st"
      "slot_len (rc_data st) (slot_off rb w) = 0"
      "slot_payload (rc_data st) (slot_off rb w) k = take k data"
    by (auto simp: rc_inv_def slots_ok_def)
  have "k < payload_cap rb" using b copy_byte(2) by (simp add: begun_def)
  note f = copy_byte_fields [OF r this, of w "data ! k"]
  show ?case
    using b q f copy_byte(1,2) fresh_slot [OF b]
    by (intro busy_step [where f = "\<lambda>d. store_at d (slot_off rb w + 16 + k) [data ! k]",
        OF copy_byte(3) refl f(1)])
      (auto simp: begun_def fresh_len_def take_Suc_conv_app_nth)
next
  case (store_len st w data)
  then have r: "ring_ok rb (rc_data st)" and b: "begun st rb w data"
    and q: "slot_seq (rc_data st) (slot_off rb w) = SEQ_BUSY"
      "slot_payload (rc_data st) (slot_off rb w) (length data) = data"
    by (auto simp: rc_inv_def slots_ok_def)
  note f = set_len_fields [OF r, of w "of_nat (length data)"]
  show ?case
    using b q f store_len(1)
    by (intro busy_step [where f = "\<lambda>d. set_len d (slot_off rb w) (of_nat (length data))",
        OF store_len(2) refl f(1)]) (auto simp: begun_def fresh_len_def)
next
  case (publish st w data)
  then show ?case by (intro publish_step [OF publish(2,1) refl])
qed

lemma frame_reader: "rc_inv rb st \<Longrightarrow> reader_ok rb (st\<lparr>rc_reader := pc\<rparr>) pc \<Longrightarrow> rc_inv rb (st\<lparr>rc_reader := pc\<rparr>)"
  by (cases "rc_writer st") (auto simp: rc_inv_def fresh_len_def begun_def)

lemma live_payload:
  assumes "slots_ok rb d hist" "unat s < length hist" "slot_seq d (slot_off rb s) = s"
  shows "slot_len d (slot_off rb s) = of_nat (length (hist ! unat s))"
    and "unat (slot_len d (slot_off rb s)) = length (hist ! unat s)"
    and "length (hist ! unat s) \<le> payload_cap rb"
    and "slot_payload d (slot_off rb s) (length (hist ! unat s)) = hist ! unat s"
  using assms unat_payload_len [of _ rb] by (auto simp: slots_ok_def slot_holds_def Let_def)

lemma next_byte:
  assumes "slot_payload d off (length p) = p" "length bs < length p" "bs = take (length bs) p"
  shows "bs @ load_at d (off + 16 + length bs) 1 = take (Suc (length bs)) p"
proof -
  have eq: "take (length p) (drop (off + 16) d) = p"
    using assms(1) by (simp add: slot_payload_def load_at_def)
  then have "length p \<le> length d - (off + 16)" by (metis length_take length_drop min.cobounded1)
  then have r: "off + 16 + length bs < length d" using assms(2) by linarith
  then have "p ! length bs = d ! (off + 16 + length bs)"
    using arg_cong [OF eq, of "\<lambda>x. x ! length bs"] assms(2) by simp
  then have "load_at d (off + 16 + length bs) 1 = [p ! length bs]"
    using r by (simp add: load_at_def Cons_nth_drop_Suc [symmetric])
  then show ?thesis using assms(2,3) by (simp add: take_Suc_conv_app_nth)
qed

lemma slots_ok_numbers:
  "slots_ok rb d hist \<Longrightarrow> slot_seq d (slot_off rb s) = SEQ_BUSY \<or> slot_seq d (slot_off rb s) = 0 \<or>
     unat (slot_seq d (slot_off rb s)) < length hist"
  by (simp add: slots_ok_def)

lemma read_step_inv: "read_step rb st st' \<Longrightarrow> rc_inv rb st \<Longrightarrow> rc_inv rb st'"
proof (induction rule: read_step.induct)
  case (in_window st s out_len)
  then show ?case by (intro frame_reader) auto
next
  case (good_seq st s out_len)
  have "slots_ok rb (rc_data st) (rc_hist st)" "s \<noteq> SEQ_BUSY" using good_seq by (auto simp: rc_inv_def)
  then have "s = 0 \<or> unat s < length (rc_hist st)"
    using good_seq(2) slots_ok_numbers [of rb "rc_data st" "rc_hist st" s] by auto
  then show ?case using good_seq(3) by (intro frame_reader) auto
next
  case (good_len st s out_len)
  let ?d = "rc_data st" and ?h = "rc_hist st" and ?n = "unat (slot_len (rc_data st) (slot_off rb s))"
  have so: "slots_ok rb ?d ?h" and c: "unat s < length ?h \<or> (s = 0 \<and> ?h = [])"
    using good_len by (auto simp: rc_inv_def)
  from c have "copy_ok rb st s ?n [] \<or> first_lap st s ?n []"
  proof
    assume "unat s < length ?h"
    then show ?thesis using live_payload(2) [OF so] by (simp add: copy_ok_def)
  next
    assume z: "s = 0 \<and> ?h = []"
    then obtain w data where pc: "rc_writer st = W_Len w data"
      using good_len by (auto simp: rc_inv_def fresh_len_def)
    then have "begun st rb w data" "slot_len ?d (slot_off rb w) = of_nat (length data)"
      using good_len(4) by (auto simp: rc_inv_def)
    then have "?n = length data"
      using z fresh_slot [of st rb w data] unat_payload_len [of "length data" rb] by (auto simp: begun_def)
    then show ?thesis using z pc by (simp add: first_lap_def)
  qed
  then show ?case using good_len(4) by (intro frame_reader) (auto simp: copy_ok_def first_lap_def)
next
  case (fetch_byte st s n bs)
  let ?d = "rc_data st" and ?h = "rc_hist st"
  let ?bs = "bs @ load_at ?d (slot_off rb s + 16 + length bs) 1"
  have so: "slots_ok rb ?d ?h" and c: "copy_ok rb st s n bs \<or> first_lap st s n bs"
    using fetch_byte by (auto simp: rc_inv_def)
  from c have "copy_ok rb st s n ?bs \<or> first_lap st s n ?bs"
  proof
    assume ok: "copy_ok rb st s n bs"
    then have lt: "unat s < length ?h" by (simp add: copy_ok_def)
    have "n = length (?h ! unat s) \<and> length ?bs \<le> n \<and> ?bs = take (length ?bs) (?h ! unat s)"
      if "slot_seq ?d (slot_off rb s) = s"
    proof -
      have n: "n = length (?h ! unat s)" "bs = take (length bs) (?h ! unat s)"
        using ok that by (auto simp: copy_ok_def)
      have e: "?bs = take (Suc (length bs)) (?h ! unat s)"
        using live_payload(4) [OF so lt that] fetch_byte(2) n by (intro next_byte) auto
      show ?thesis unfolding e using n(1) fetch_byte(2) by simp
    qed
    then show ?thesis using lt by (auto simp: copy_ok_def)
  next
    assume ok: "first_lap st s n bs"
    then obtain w data where pc: "rc_writer st = W_Len w data" "n = length data"
      "bs = take (length bs) data" "s = 0" "?h = []" by (auto simp: first_lap_def)
    then have b: "begun st rb w data" "slot_payload ?d (slot_off rb w) (length data) = data"
      using fetch_byte(3) by (auto simp: rc_inv_def)
    then have "w = s" using fresh_slot pc by simp
    then have e: "?bs = take (Suc (length bs)) data"
      using b(2) fetch_byte(2) pc by (intro next_byte) auto
    have "first_lap st s n (take (Suc (length bs)) data)"
      using pc fetch_byte(2) by (simp add: first_lap_def)
    then show ?thesis unfolding e by simp
  qed
  then show ?case using fetch_byte(3) by (intro frame_reader) (auto simp: copy_ok_def first_lap_def)
next
  case (recheck_ok st s n bs)
  have n: "length (rc_hist st) < 2 ^ 64" using recheck_ok by (auto simp: rc_inv_def slots_ok_def)
  have "\<not> first_lap st s n bs"
  proof
    assume "first_lap st s n bs"
    then obtain w data where pc: "rc_writer st = W_Len w data" "s = 0" "rc_hist st = []"
      by (auto simp: first_lap_def)
    then have "begun st rb w data" "slot_seq (rc_data st) (slot_off rb w) = SEQ_BUSY"
      using recheck_ok(4) by (auto simp: rc_inv_def)
    then show False using pc fresh_slot [of st rb w data] recheck_ok(3) by simp
  qed
  then have "copy_ok rb st s n bs" using recheck_ok by (auto simp: rc_inv_def)
  then have "unat s < length (rc_hist st) \<and> bs = rc_hist st ! unat s"
    using recheck_ok(2,3) by (auto simp: copy_ok_def)
  then show ?case using recheck_ok(4) by (intro frame_reader) auto
qed (auto intro!: frame_reader)

lemma rc_init_inv:
  assumes "0 < slots rb" "16 \<le> unat (slot_size rb)"
  shows "rc_inv rb (rc_init rb)"
proof -
  let ?d = "replicate (slots rb * unat (slot_size rb)) (0 :: byte)"
  have ok: "ring_ok rb ?d" using assms by (simp add: ring_ok_def)
  have "load_at ?d a k = replicate k 0" if "a + k \<le> length ?d" for a k
    using that by (simp add: load_at_def)
  moreover have "le_to_nat (replicate k 0) = 0" for k by (induction k) auto
  ultimately have "slot_seq ?d (slot_off rb s) = 0" "slot_len ?d (slot_off rb s) = 0" for s
    using slot_room(1) [OF ok, of s] by (simp_all add: slot_seq_def slot_len_def from_le_def)
  then show ?thesis
    using ok by (simp add: rc_inv_def rc_init_def slots_ok_def init_segment_def fresh_len_def)
qed

lemma reachable_inv:
  assumes "rc_reachable rb st" "0 < slots rb" "16 \<le> unat (slot_size rb)"
  shows "rc_inv rb st"
  using assms(1)
  by induction (auto intro: rc_init_inv assms write_step_inv read_step_inv)

subsection \<open>Undisturbed runs succeed\<close>

lemma copy_loop:
  "rc_reachable rb st \<Longrightarrow> rc_writer st = W_Copy w data k \<Longrightarrow> k \<le> length data \<Longrightarrow>
   \<exists>st'. rc_reachable rb st' \<and> rc_writer st' = W_Copy w data (length data) \<and>
     rc_hist st' = rc_hist st \<and> write_index (rc_shm st') = write_index (rc_shm st)"
proof (induction "length data - k" arbitrary: st k)
  case 0
  then show ?case by auto
next
  case (Suc n)
  then have lt: "k < length data" by simp
  let ?st = "(upd_data (\<lambda>d. store_at d (slot_off rb w + 16 + k) [data ! k]) st)\<lparr>rc_writer := W_Copy w data (Suc k)\<rparr>"
  have "rc_reachable rb ?st"
    using Suc.prems(1) write_step.copy_byte [OF Suc.prems(2) lt] by (rule rc_reachable.writer)
  from Suc.hyps(1) [of "Suc k" ?st, OF _ this] Suc.hyps(2) lt show ?case by simp
qed

lemma write_completes:
  assumes "rc_reachable rb st" "rc_writer st = W_Idle" "length data \<le> payload_cap rb"
    and "unat (write_index (rc_shm st)) + 1 < 2 ^ 64" "0 < slots rb" "16 \<le> unat (slot_size rb)"
  shows "\<exists>st'. rc_reachable rb st' \<and> rc_writer st' = W_Idle \<and> rc_hist st' = rc_hist st @ [data] \<and>
     write_index (rc_shm st') = write_index (rc_shm st) + 1 \<and>
     slot_seq (rc_data st') (slot_off rb (write_index (rc_shm st))) = write_index (rc_shm st)"
proof -
  let ?w = "write_index (rc_shm st)"
  note steps = write_step.intros [THEN rc_reachable.writer [rotated]]
  obtain s3 where s3: "rc_reachable rb s3" "rc_writer s3 = W_Slot ?w data" "rc_hist s3 = rc_hist st"
    "write_index (rc_shm s3) = ?w + 1"
    using steps(3) [OF _ steps(2) [OF _ steps(1) [OF assms(2,3,4,1)]]] by fastforce
  obtain s5 where s5: "rc_reachable rb s5" "rc_writer s5 = W_Copy ?w data 0" "rc_hist s5 = rc_hist st"
    "write_index (rc_shm s5) = ?w + 1"
    using steps(5) [OF _ steps(4) [OF s3(2,1)]] s3 by fastforce
  obtain s6 where s6: "rc_reachable rb s6" "rc_writer s6 = W_Copy ?w data (length data)"
    "rc_hist s6 = rc_hist st" "write_index (rc_shm s6) = ?w + 1"
    using copy_loop [OF s5(1,2)] s5 by auto
  obtain s7 where s7: "rc_reachable rb s7" "rc_writer s7 = W_Len ?w data" "rc_hist s7 = rc_hist st"
    "write_index (rc_shm s7) = ?w + 1"
    using steps(7) [OF s6(2,1)] s6 by fastforce
  have "ring_ok rb (rc_data s7)"
    using reachable_inv [OF s7(1) assms(5,6)] by (simp add: rc_inv_def slots_ok_def)
  then show ?thesis
    using steps(8) [OF s7(2,1)] s7 set_seq_fields(2) by fastforce
qed

lemma fetch_loop:
  "rc_reachable rb st \<Longrightarrow> rc_reader st = R_Copy s n bs \<Longrightarrow> length bs \<le> n \<Longrightarrow>
   slot_off rb s + 16 + n \<le> length (rc_data st) \<Longrightarrow>
   \<exists>st' bs'. rc_reachable rb st' \<and> rc_reader st' = R_Copy s n bs' \<and> length bs' = n \<and>
     rc_shm st' = rc_shm st \<and> rc_hist st' = rc_hist st \<and> rc_writer st' = rc_writer st"
proof (induction "n - length bs" arbitrary: st bs)
  case 0
  then show ?case by auto
next
  case (Suc k)
  then have lt: "length bs < n" by simp
  let ?b = "load_at (rc_data st) (slot_off rb s + 16 + length bs) 1"
  have b: "length ?b = 1" using lt Suc.prems(4) by (simp add: load_at_def)
  let ?st = "st\<lparr>rc_reader := R_Copy s n (bs @ ?b)\<rparr>"
  have "rc_reachable rb ?st"
    using Suc.prems(1) read_step.fetch_byte [OF Suc.prems(2) lt] by (rule rc_reachable.reader)
  from Suc.hyps(1) [of "bs @ ?b" ?st, OF _ this] Suc.hyps(2) lt Suc.prems(4) b show ?case by simp
qed

lemma read_completes:
  assumes "rc_reachable rb st" "unat s < length (rc_hist st)" "s < write_index (rc_shm st)"
    and "write_index (rc_shm st) - s \<le> ucast (slot_count rb)"
    and "slot_seq (rc_data st) (slot_off rb s) = s" "rc_hist st ! unat s \<noteq> []"
    and "length (rc_hist st ! unat s) \<le> out_len" "0 < slots rb" "16 \<le> unat (slot_size rb)"
  shows "\<exists>st'. rc_reachable rb st' \<and> rc_reader st' = R_Ok s (rc_hist st ! unat s) \<and>
     rc_hist st' = rc_hist st"
proof -
  let ?p = "rc_hist st ! unat s"
  have so: "slots_ok rb (rc_data st) (rc_hist st)"
    using reachable_inv [OF assms(1,8,9)] by (simp add: rc_inv_def)
  note live = live_payload [OF so assms(2,5)]
  have len: "slot_len (rc_data st) (slot_off rb s) \<noteq> 0"
    using live(2) assms(6) by (metis length_0_conv unsigned_0)
  have room: "slot_off rb s + 16 + length ?p \<le> length (rc_data st)"
    using so live(3) by (intro slot_room(2)) (simp add: slots_ok_def)
  note steps = read_step.intros [THEN rc_reachable.reader [rotated]]
  obtain s4 where s4: "rc_reachable rb s4" "rc_reader s4 = R_Copy s (length ?p) []" "rc_shm s4 = rc_shm st"
    "rc_hist s4 = rc_hist st"
    using steps(9) [OF _ _ _ steps(6) [OF _ _ steps(4) [OF _ _ _ steps(1) [OF assms(1), of s out_len]]],
        of s out_len] assms len live(2) by fastforce
  obtain s5 bs where s5: "rc_reachable rb s5" "rc_reader s5 = R_Copy s (length ?p) bs"
    "length bs = length ?p" "rc_shm s5 = rc_shm st" "rc_hist s5 = rc_hist st"
    using fetch_loop [OF s4(1,2)] room s4 by fastforce
  have fin: "rc_reachable rb (s5\<lparr>rc_reader := R_Ok s bs\<rparr>)"
    using s5 assms(5) by (intro steps(11)) auto
  then have "bs = ?p" using reachable_inv [OF fin assms(8,9)] s5 by (simp add: rc_inv_def)
  then show ?thesis using fin s5 by fastforce
qed

lemma write_then_read:
  assumes "slot_stride_for_payload p = Ok (slot_size rb)" "0 < slot_count rb"
    and "rc_reachable rb st" "rc_writer st = W_Idle" "length data \<le> payload_cap rb" "data \<noteq> []"
    and "unat (write_index (rc_shm st)) + 1 < 2 ^ 64" "length data \<le> out_len"
  shows "\<exists>st'. rc_reachable rb st' \<and> rc_hist st' = rc_hist st @ [data] \<and>
           rc_reader st' = R_Ok (write_index (rc_shm st)) data"
proof -
  let ?w = "write_index (rc_shm st)"
  have g: "0 < slots rb" "16 \<le> unat (slot_size rb)"
    using assms(2) stride_capacity(3) [OF assms(1)] by (simp_all add: word_less_nat_alt)
  obtain s1 where s1: "rc_reachable rb s1" "rc_hist s1 = rc_hist st @ [data]"
    "write_index (rc_shm s1) = ?w + 1" "slot_seq (rc_data s1) (slot_off rb ?w) = ?w"
    using write_completes [OF assms(3,4,5,7) g] by blast
  have w: "unat ?w = length (rc_hist st)"
    using reachable_inv [OF assms(3) g] assms(4) by (simp add: rc_inv_def)
  have lt: "?w < write_index (rc_shm s1)" and one: "write_index (rc_shm s1) - ?w \<le> ucast (slot_count rb)"
    using assms(7) g(1) by (simp_all add: s1(3) word_less_nat_alt word_le_nat_alt unat_Suc64)
  have "unat ?w < length (rc_hist s1)" "rc_hist s1 ! unat ?w = data" using s1(2) w by simp_all
  from read_completes [OF s1(1) this(1) lt one s1(4) _ _ g, unfolded this(2), OF assms(6,8)] s1(2)
  show ?thesis by fastforce
qed

subsection \<open>Properties\<close>

text \<open>C1: No torn reads.  In every interleaving of one writer and one reader at the granularity of
  single atomic accesses and payload bytes, a \<open>read_slot\<close> that succeeds returns exactly the payload
  published under the requested sequence number, however often the writer laps the slot meanwhile.\<close>

theorem ring_no_torn_reads:
  assumes "slot_stride_for_payload p = Ok (slot_size rb)" "0 < slot_count rb"
    and "rc_reachable rb st" "rc_reader st = R_Ok s bs"
  shows "unat s < length (rc_hist st) \<and> bs = rc_hist st ! unat s"
proof -
  have "0 < slots rb" using assms(2) by (simp add: word_less_nat_alt)
  with reachable_inv [OF assms(3)] stride_capacity(3) [OF assms(1)] have "rc_inv rb st" by simp
  then show ?thesis using assms(4) by (simp add: rc_inv_def)
qed

theorem ring_no_torn_reads_witness:
  "\<exists>st. rc_reachable \<lparr>slot_count = 2, slot_size = 24\<rparr> st \<and> rc_reader st = R_Ok 0 [7, 8] \<and>
     unat (0 :: u64) < length (rc_hist st) \<and> [7, 8] = rc_hist st ! 0"
proof -
  let ?rb = "\<lparr>slot_count = 2, slot_size = 24\<rparr>"
  have g: "slot_stride_for_payload 8 = Ok (slot_size ?rb)" "0 < slot_count ?rb" by (simp_all add: stride_spec)
  obtain st where st: "rc_reachable ?rb st" "rc_reader st = R_Ok 0 [7, 8]"
    using write_then_read [OF g rc_reachable.start, of "[7, 8]" 2]
    by (auto simp: rc_init_def init_segment_def payload_capacity_from_stride_def)
  then show ?thesis using ring_no_torn_reads [OF g st] by auto
qed



end
