(* ===== verification/Local_PubSub.thy ===== *)
theory Local_PubSub
  imports Ring_Buffer
begin

text \<open>
  The local publish/subscribe channel on top of a ring (\<open>axon_core/src/local.rs\<close>,
  \<open>LocalPubSub\<close>): publishing with a publisher GID, the eventfd signals, and the zero-copy loans
  (\<open>borrow_buffer\<close>, \<open>commit_buffer\<close>, \<open>take_loaned\<close>).

  A pointer into the data region is its offset from \<open>data_ptr\<close>.  The counters of the eventfds a
  process can write are a function from descriptors to counts; a write at the maximal count is
  refused by the kernel and ignored by the code.
\<close>

subsection \<open>State\<close>

record local_pubsub =
  lp_ring :: ring_buffer
  lp_shm :: ring_shm
  lp_eventfd :: int
  lp_cross_fd :: int
  lp_counters :: "int \<Rightarrow> nat"
  lp_timestamps :: "u64 \<Rightarrow> nat option"
  lp_publisher_gids :: "u64 \<Rightarrow> u64 option"
  lp_loaned :: "nat \<Rightarrow> u64 option"

definition eventfd_write :: "int \<Rightarrow> (int \<Rightarrow> nat) \<Rightarrow> (int \<Rightarrow> nat)" where
  "eventfd_write fd cs = (if cs fd < 2 ^ 64 - 2 then cs(fd := cs fd + 1) else cs)"

subsection \<open>Operations\<close>

definition lp_signal :: "local_pubsub \<Rightarrow> local_pubsub" where
  "lp_signal lp =
     (let cs = eventfd_write (lp_eventfd lp) (lp_counters lp) in
      lp\<lparr>lp_counters :=
           (if 0 \<le> lp_cross_fd lp \<and> lp_cross_fd lp \<noteq> lp_eventfd lp
            then eventfd_write (lp_cross_fd lp) cs else cs)\<rparr>)"

definition lp_publish_with_gid :: "local_pubsub \<Rightarrow> bytes \<Rightarrow> u64 \<Rightarrow> nat
    \<Rightarrow> local_pubsub \<times> (u64, ring_error) rust_result" where
  "lp_publish_with_gid lp data gid now =
     (case rb_write (lp_ring lp) (lp_shm lp) data of
        (m, Err e) \<Rightarrow> (lp\<lparr>lp_shm := m\<rparr>, Err e)
      | (m, Ok s) \<Rightarrow>
          (lp_signal
             (lp\<lparr>lp_shm := m, lp_timestamps := (lp_timestamps lp)(s \<mapsto> now),
                 lp_publisher_gids :=
                   (if gid \<noteq> 0 then (lp_publisher_gids lp)(s \<mapsto> gid) else lp_publisher_gids lp)\<rparr>),
           Ok s))"

definition lp_publish :: "local_pubsub \<Rightarrow> bytes \<Rightarrow> nat \<Rightarrow> local_pubsub \<times> (u64, ring_error) rust_result" where
  "lp_publish lp data now = lp_publish_with_gid lp data 0 now"

definition lp_receive :: "local_pubsub \<Rightarrow> u64 \<Rightarrow> bytes
    \<Rightarrow> local_pubsub \<times> bytes \<times> (nat, ring_error) rust_result" where
  "lp_receive lp s out =
     (let (m, out', r) = rb_read (lp_ring lp) (lp_shm lp) s out in (lp\<lparr>lp_shm := m\<rparr>, out', r))"

definition lp_receive_peek :: "local_pubsub \<Rightarrow> u64 \<Rightarrow> bytes \<Rightarrow> bytes \<times> (nat, ring_error) rust_result" where
  "lp_receive_peek lp s out = read_without_consuming (lp_ring lp) (lp_shm lp) s out"

definition lp_message_size :: "local_pubsub \<Rightarrow> u64 \<Rightarrow> (nat, ring_error) rust_result" where
  "lp_message_size lp s = slot_data_size (lp_ring lp) (lp_shm lp) s"

definition lp_event_fd :: "local_pubsub \<Rightarrow> int" where
  "lp_event_fd lp = (if 0 \<le> lp_cross_fd lp then lp_cross_fd lp else lp_eventfd lp)"

definition lp_payload_capacity :: "local_pubsub \<Rightarrow> nat" where
  "lp_payload_capacity lp = payload_capacity_from_stride (slot_size (lp_ring lp))"

definition lp_skip_all_pending :: "local_pubsub \<Rightarrow> local_pubsub" where
  "lp_skip_all_pending lp = lp\<lparr>lp_shm := skip_all_pending (lp_shm lp)\<rparr>"

text \<open>Reserve a slot for direct writing.  On a full ring the reservation is rolled back.  The
  unsigned subtraction \<open>write_idx - read_idx\<close> wraps.\<close>

definition borrow_buffer :: "local_pubsub \<Rightarrow> nat \<Rightarrow> local_pubsub \<times> (nat \<times> nat) option" where
  "borrow_buffer lp max_size =
     (let rb = lp_ring lp; m = lp_shm lp in
      if payload_capacity_from_stride (slot_size rb) < max_size then (lp, None)
      else
        (let w = write_index m;
             m1 = m\<lparr>write_index := w + 1\<rparr> in
         if ucast (slot_count rb) \<le> w - read_index m1
         then (lp\<lparr>lp_shm := m1\<lparr>write_index := write_index m1 - 1\<rparr>\<rparr>, None)
         else
           (let off = slot_off rb w;
                d1 = set_seq (ring_data m1) off SEQ_BUSY;
                d2 = set_len d1 off 0;
                p = off + SLOT_DATA_OFFSET in
            (lp\<lparr>lp_shm := m1\<lparr>ring_data := d2\<rparr>, lp_loaned := (lp_loaned lp)(p \<mapsto> w)\<rparr>,
             Some (p, max_size)))))"

text \<open>What the borrower does with its pointer: write payload bytes.\<close>

definition fill_loan :: "local_pubsub \<Rightarrow> nat \<Rightarrow> bytes \<Rightarrow> local_pubsub" where
  "fill_loan lp p bs =
     lp\<lparr>lp_shm := (lp_shm lp)\<lparr>ring_data := store_at (ring_data (lp_shm lp)) p bs\<rparr>\<rparr>"

definition commit_buffer :: "local_pubsub \<Rightarrow> nat \<Rightarrow> nat \<Rightarrow> local_pubsub \<times> bool" where
  "commit_buffer lp p n =
     (let rb = lp_ring lp; stride = unat (slot_size rb) in
      if p mod stride \<noteq> SLOT_DATA_OFFSET \<or> payload_capacity_from_stride (slot_size rb) < n
      then (lp, False)
      else case lp_loaned lp p of
        None \<Rightarrow> (lp, False)
      | Some s \<Rightarrow>
          (let off = p - SLOT_DATA_OFFSET; m = lp_shm lp;
               d1 = set_len (ring_data m) off (of_nat n);
               d2 = set_seq d1 off s in
           (lp\<lparr>lp_shm := m\<lparr>ring_data := d2\<rparr>, lp_loaned := (lp_loaned lp)(p := None),
               lp_counters := eventfd_write (lp_eventfd lp) (lp_counters lp)\<rparr>, True)))"

definition take_loaned :: "local_pubsub \<Rightarrow> u64 \<Rightarrow> local_pubsub \<times> (nat \<times> nat) option" where
  "take_loaned lp s =
     (let rb = lp_ring lp; m = lp_shm lp in
      if write_index m \<le> s then (lp, None)
      else if s < read_index m then (lp, None)
      else
        (let off = slot_off rb s; d = ring_data m in
         if slot_seq d off \<noteq> s then (lp, None)
         else
           (let n = unat (slot_len d off) in
            if n = 0 then (lp, None)
            else (lp\<lparr>lp_shm := m\<lparr>read_index := s + 1\<rparr>\<rparr>, Some (off + SLOT_DATA_OFFSET, n)))))"

subsection \<open>Loans against the log\<close>

lemma fill_loan_simps [simp]:
  "lp_ring (fill_loan lp p bs) = lp_ring lp" "lp_loaned (fill_loan lp p bs) = lp_loaned lp"
  by (simp_all add: fill_loan_def)

text \<open>A filled ring refuses the loan and is left as it was; otherwise the log grows by an entry that
  is not readable yet.\<close>

lemma borrow_full:
  assumes inv: "ring_inv (lp_ring lp) (lp_shm lp) hist"
    and full: "slots (lp_ring lp) \<le> length hist - unat (read_index (lp_shm lp))"
  shows "borrow_buffer lp n = (lp, None)"
proof -
  have "read_index (lp_shm lp) \<le> write_index (lp_shm lp)" "unat (write_index (lp_shm lp)) = length hist"
    using inv by (simp_all add: ring_inv_def)
  then have "ucast (slot_count (lp_ring lp)) \<le> write_index (lp_shm lp) - read_index (lp_shm lp)"
    using full by (simp add: word_le_nat_alt unat_sub)
  then show ?thesis by (simp add: borrow_buffer_def Let_def)
qed

lemma borrow_grants:
  assumes inv: "ring_inv (lp_ring lp) (lp_shm lp) hist" and room: "length hist + 1 < 2 ^ 64"
    and free: "length hist - unat (read_index (lp_shm lp)) < slots (lp_ring lp)"
    and fits: "n \<le> payload_cap (lp_ring lp)"
  obtains lp' where "borrow_buffer lp n =
      (lp', Some (slot_off (lp_ring lp) (of_nat (length hist)) + 16, n))"
    and "ring_inv (lp_ring lp) (lp_shm lp') (hist @ [None])" "lp_ring lp' = lp_ring lp"
    and "lp_loaned lp' (slot_off (lp_ring lp) (of_nat (length hist)) + 16) = Some (of_nat (length hist))"
proof -
  let ?rb = "lp_ring lp" and ?m = "lp_shm lp" and ?n = "length hist"
  let ?w = "write_index ?m" and ?d = "ring_data ?m"
  have ok: "ring_ok ?rb ?d" and wn: "unat ?w = ?n" and rw: "read_index ?m \<le> ?w"
    and held: "\<And>i. i < ?n \<Longrightarrow> ?n \<le> i + slots ?rb \<Longrightarrow> slot_holds ?rb ?d i (hist ! i)"
    using inv by (auto simp: ring_inv_def)
  have w: "?w = of_nat ?n" using wn by (metis of_nat_unat ucast_id)
  let ?d1 = "set_seq ?d (slot_off ?rb ?w) SEQ_BUSY"
  let ?d2 = "set_len ?d1 (slot_off ?rb ?w) 0"
  note f1 = set_seq_fields [OF ok, of ?w SEQ_BUSY]
  have ok1: "ring_ok ?rb ?d1" by (rule only_slot_ok [OF f1(1) ok])
  note f2 = set_len_fields [OF ok1, of ?w 0]
  have ok2: "ring_ok ?rb ?d2" by (rule only_slot_ok [OF f2(1) ok1])
  have notfull: "\<not> ucast (slot_count ?rb) \<le> ?w - read_index ?m"
    using free wn rw by (simp add: word_le_nat_alt unat_sub)
  let ?lp = "lp\<lparr>lp_shm := ?m\<lparr>write_index := ?w + 1, ring_data := ?d2\<rparr>,
                lp_loaned := (lp_loaned lp)(slot_off ?rb ?w + 16 \<mapsto> ?w)\<rparr>"
  have "borrow_buffer lp n = (?lp, Some (slot_off ?rb ?w + 16, n))"
    using fits notfull by (simp add: borrow_buffer_def Let_def)
  moreover have "slot_holds ?rb ?d2 i ((hist @ [None]) ! i)"
    if i: "i < ?n + 1" "?n + 1 \<le> i + slots ?rb" for i
  proof (cases "i = ?n")
    case True
    then show ?thesis using f1(2) f2(2) by (simp add: slot_holds_def Let_def w nth_append)
  next
    case False
    have "unat (of_nat i :: u64) mod slots ?rb \<noteq> unat ?w mod slots ?rb"
      using i False wn hist_index [OF wn, of i] mod_window [of i ?n "slots ?rb"] by simp
    then show ?thesis
      using held [of i] i False slot_holds_other [OF f1(1) ok] slot_holds_other [OF f2(1) ok1]
      by (simp add: nth_append)
  qed
  then have "ring_inv ?rb (lp_shm ?lp) (hist @ [None])"
    using ok2 wn rw room by (simp add: ring_inv_def word_le_nat_alt unat_Suc64)
  ultimately show ?thesis using that [of ?lp] w by simp
qed

text \<open>A store confined to the slot of log entry \<open>i\<close> changes at most that entry.\<close>

lemma slot_update_inv:
  assumes inv: "ring_inv rb m hist" and os: "only_slot rb (of_nat i) (ring_data m) d'"
    and i: "i < length hist" "length hist \<le> i + slots rb" and e: "slot_holds rb d' i e"
  shows "ring_inv rb (m\<lparr>ring_data := d'\<rparr>) (hist[i := e])"
proof -
  have ok: "ring_ok rb (ring_data m)" and wn: "unat (write_index m) = length hist"
    using inv by (auto simp: ring_inv_def)
  have "slot_holds rb d' j (hist[i := e] ! j)" if j: "j < length hist" "length hist \<le> j + slots rb" for j
  proof (cases "j = i")
    case False
    have "unat (of_nat j :: u64) mod slots rb \<noteq> unat (of_nat i :: u64) mod slots rb"
      using False i j mod_window [of i j "slots rb"] mod_window [of j i "slots rb"]
        hist_index [OF wn, of i] hist_index [OF wn, of j]
      by (cases "i < j") auto
    then show ?thesis
      using inv j False slot_holds_other [OF os ok] by (simp add: ring_inv_def)
  qed (use i e in simp)
  then show ?thesis using inv only_slot_ok [OF os ok] by (simp add: ring_inv_def)
qed

lemma fill_loan_inv:
  assumes inv: "ring_inv (lp_ring lp) (lp_shm lp) hist" and e: "hist ! i = None"
    and i: "i < length hist" "length hist \<le> i + slots (lp_ring lp)"
    and fits: "length bs \<le> payload_cap (lp_ring lp)"
    and p: "p = slot_off (lp_ring lp) (of_nat i) + 16"
  shows "ring_inv (lp_ring lp) (lp_shm (fill_loan lp p bs)) hist"
    and "slot_payload (ring_data (lp_shm (fill_loan lp p bs))) (slot_off (lp_ring lp) (of_nat i)) (length bs) = bs"
proof -
  let ?rb = "lp_ring lp" and ?d = "ring_data (lp_shm lp)" and ?o = "slot_off (lp_ring lp) (of_nat i)"
  have ok: "ring_ok ?rb ?d" and b: "slot_seq ?d ?o = SEQ_BUSY"
    using inv i e by (auto simp: ring_inv_def slot_holds_def Let_def)
  have os: "only_slot ?rb (of_nat i) ?d (store_at ?d p bs)"
    unfolding p using ok fits
    by (intro store_only_slot) (auto simp: payload_capacity_from_stride_def ring_ok_def)
  have r: "?o + 16 + length bs \<le> length ?d" by (rule slot_room(2) [OF ok fits])
  then have "slot_holds ?rb (store_at ?d p bs) i None"
    using b by (simp add: slot_holds_def Let_def slot_access_defs slot_access_simps p)
  from slot_update_inv [OF inv os i this] e
  show "ring_inv ?rb (lp_shm (fill_loan lp p bs)) hist"
    by (simp add: fill_loan_def) (metis list_update_id)
  show "slot_payload (ring_data (lp_shm (fill_loan lp p bs))) ?o (length bs) = bs"
    using r by (simp add: fill_loan_def slot_payload_def p load_store_same)
qed

lemma commit_slot:
  fixes w s :: u64
  assumes "ring_ok rb d" "n \<le> payload_cap rb"
  defines "d' \<equiv> set_seq (set_len d (slot_off rb w) (of_nat n)) (slot_off rb w) s"
  shows "only_slot rb w d d'" "slot_seq d' (slot_off rb w) = s"
    and "slot_len d' (slot_off rb w) = of_nat n"
    and "slot_payload d' (slot_off rb w) n = slot_payload d (slot_off rb w) n"
proof -
  note f1 = set_len_fields [OF assms(1), of w "of_nat n"]
  have ok1: "ring_ok rb (set_len d (slot_off rb w) (of_nat n))" by (rule only_slot_ok [OF f1(1) assms(1)])
  note f2 = set_seq_fields [OF ok1, of w s]
  show "only_slot rb w d d'" using f1(1) f2(1) by (simp add: only_slot_def d'_def)
  show "slot_seq d' (slot_off rb w) = s" "slot_len d' (slot_off rb w) = of_nat n"
    "slot_payload d' (slot_off rb w) n = slot_payload d (slot_off rb w) n"
    using f1 f2 by (simp_all add: d'_def)
qed

lemma loan_pointer: "16 < unat (slot_size rb) \<Longrightarrow> (slot_off rb w + 16) mod unat (slot_size rb) = 16"
  by (simp add: slot_off_def)

lemma commit_inv:
  assumes inv: "ring_inv (lp_ring lp) (lp_shm lp) hist"
    and i: "i < length hist" "length hist \<le> i + slots (lp_ring lp)"
    and p: "p = slot_off (lp_ring lp) (of_nat i) + 16" and loan: "lp_loaned lp p = Some (of_nat i)"
    and n: "n \<le> payload_cap (lp_ring lp)" and sz: "16 < unat (slot_size (lp_ring lp))"
  shows "snd (commit_buffer lp p n)"
    and "ring_inv (lp_ring lp) (lp_shm (fst (commit_buffer lp p n)))
           (hist[i := Some (slot_payload (ring_data (lp_shm lp)) (slot_off (lp_ring lp) (of_nat i)) n)])"
proof -
  let ?rb = "lp_ring lp" and ?d = "ring_data (lp_shm lp)" and ?o = "slot_off (lp_ring lp) (of_nat i)"
  have ok: "ring_ok ?rb ?d" using inv by (simp add: ring_inv_def)
  let ?d' = "set_seq (set_len ?d ?o (of_nat n)) ?o (of_nat i)"
  note f = commit_slot [OF ok n, where w = "of_nat i" and s = "of_nat i"]
  have c: "commit_buffer lp p n =
      (lp\<lparr>lp_shm := (lp_shm lp)\<lparr>ring_data := ?d'\<rparr>, lp_loaned := (lp_loaned lp)(p := None),
          lp_counters := eventfd_write (lp_eventfd lp) (lp_counters lp)\<rparr>, True)"
    using loan n loan_pointer [OF sz] by (simp add: commit_buffer_def Let_def p)
  have len: "length (slot_payload ?d ?o n) = n"
    using slot_room(2) [OF ok n, of "of_nat i"] by (simp add: slot_payload_def load_at_def)
  have "slot_holds ?rb ?d' i (Some (slot_payload ?d ?o n))"
    using f n len by (simp add: slot_holds_def Let_def)
  from slot_update_inv [OF inv f(1) i this] c
  show "snd (commit_buffer lp p n)" "ring_inv ?rb (lp_shm (fst (commit_buffer lp p n)))
           (hist[i := Some (slot_payload ?d ?o n)])"
    by simp_all
qed

lemma signal_simps [simp]:
  "lp_ring (lp_signal lp) = lp_ring lp" "lp_shm (lp_signal lp) = lp_shm lp"
  "lp_loaned (lp_signal lp) = lp_loaned lp" "lp_timestamps (lp_signal lp) = lp_timestamps lp"
  "lp_publisher_gids (lp_signal lp) = lp_publisher_gids lp"
  by (simp_all add: lp_signal_def Let_def)

lemma publish_simps [simp]:
  "lp_ring (fst (lp_publish_with_gid lp data gid now)) = lp_ring lp"
  "lp_loaned (fst (lp_publish_with_gid lp data gid now)) = lp_loaned lp"
  "lp_shm (fst (lp_publish_with_gid lp data gid now)) = fst (rb_write (lp_ring lp) (lp_shm lp) data)"
  "snd (lp_publish_with_gid lp data gid now) = snd (rb_write (lp_ring lp) (lp_shm lp) data)"
  by (auto simp: lp_publish_with_gid_def split: prod.splits sum.splits)

lemma publish_inv:
  assumes "ring_inv (lp_ring lp) (lp_shm lp) hist" "length data \<le> payload_cap (lp_ring lp)"
    and "length hist + 1 < 2 ^ 64"
  shows "ring_inv (lp_ring lp) (lp_shm (fst (lp_publish_with_gid lp data gid now))) (hist @ [Some data])"
    and "snd (lp_publish_with_gid lp data gid now) = Ok (of_nat (length hist))"
  using write_fits [OF assms] by simp_all

definition lp_open :: "ring_buffer \<Rightarrow> local_pubsub" where
  "lp_open rb = \<lparr>lp_ring = rb, lp_shm = init_segment rb, lp_eventfd = 5, lp_cross_fd = - 1,
     lp_counters = (\<lambda>_. 0), lp_timestamps = (\<lambda>_. None), lp_publisher_gids = (\<lambda>_. None),
     lp_loaned = (\<lambda>_. None)\<rparr>"

subsection \<open>Properties\<close>

text \<open>C17: The zero-copy path delivers what the borrower wrote.  On a ring that is not full, a loan is
  granted; until it is committed no reader sees the reserved sample (\<open>slot not yet written\<close>), and
  after the borrower wrote \<open>bs\<close> through the pointer and committed, a read of the reserved sequence
  number returns \<open>bs\<close>, with all earlier samples unchanged.\<close>

theorem loan_round_trip:
  assumes "ring_inv (lp_ring lp) (lp_shm lp) hist" "length hist + 1 < 2 ^ 64"
    and "length hist - unat (read_index (lp_shm lp)) < unat (slot_count (lp_ring lp))"
    and "n \<le> payload_capacity_from_stride (slot_size (lp_ring lp))" "16 < unat (slot_size (lp_ring lp))"
    and "length bs \<le> n" "bs \<noteq> []" "length bs \<le> length out"
  shows "\<exists>lp1 p. borrow_buffer lp n = (lp1, Some (p, n)) \<and>
           lp_receive_peek lp1 (of_nat (length hist)) out = (out, Err Slot_not_yet_written) \<and>
           (let (lp3, b) = commit_buffer (fill_loan lp1 p bs) p (length bs) in
            b \<and> lp_receive_peek lp3 (of_nat (length hist)) out = (copy_into out bs, Ok (length bs)) \<and>
            ring_inv (lp_ring lp) (lp_shm lp3) (hist @ [Some bs]))"
proof -
  let ?i = "length hist"
  from borrow_grants [OF assms(1-4)] obtain lp1 where
    lp1: "borrow_buffer lp n = (lp1, Some (slot_off (lp_ring lp) (of_nat ?i) + 16, n))"
    and inv1: "ring_inv (lp_ring lp1) (lp_shm lp1) (hist @ [None])" and rb: "lp_ring lp1 = lp_ring lp"
    and loan: "lp_loaned lp1 (slot_off (lp_ring lp1) (of_nat ?i) + 16) = Some (of_nat ?i)"
    by (metis)
  define p where p: "p = slot_off (lp_ring lp1) (of_nat ?i) + 16"
  let ?lp2 = "fill_loan lp1 p bs"
  have cap: "length bs \<le> payload_cap (lp_ring lp1)" using assms(4,6) rb by simp
  have pos: "0 < slots (lp_ring lp1)" using assms(3) rb by simp
  have iu: "unat (of_nat ?i :: u64) = ?i" using assms(2) by (intro unat_of_nat64) simp
  have win: "?i < length (hist @ [None])" "length (hist @ [None]) \<le> ?i + slots (lp_ring lp1)"
    using pos by simp_all
  have none: "(hist @ [None]) ! ?i = None" by simp
  note fl = fill_loan_inv [OF inv1 none win cap p]
  have inv2: "ring_inv (lp_ring ?lp2) (lp_shm ?lp2) (hist @ [None])" using fl(1) by simp
  have win2: "length (hist @ [None]) \<le> ?i + slots (lp_ring ?lp2)" using win(2) by simp
  have p2: "p = slot_off (lp_ring ?lp2) (of_nat ?i) + 16" using p by simp
  have loan2: "lp_loaned ?lp2 p = Some (of_nat ?i)" using loan p by simp
  have cap2: "length bs \<le> payload_cap (lp_ring ?lp2)" and sz2: "16 < unat (slot_size (lp_ring ?lp2))"
    using cap assms(5) rb by simp_all
  note ci = commit_inv [OF inv2 win(1) win2 p2 loan2 cap2 sz2]
  have c: "snd (commit_buffer ?lp2 p (length bs))"
    "ring_inv (lp_ring lp1) (lp_shm (fst (commit_buffer ?lp2 p (length bs)))) (hist @ [Some bs])"
    using ci fl(2) by simp_all
  have rb3: "lp_ring (fst (commit_buffer ?lp2 p (length bs))) = lp_ring lp1"
    by (simp add: commit_buffer_def Let_def fill_loan_def split: option.splits)
  have r1: "lp_receive_peek lp1 (of_nat ?i) out = (out, Err Slot_not_yet_written)"
    using read_refines [OF inv1] pos
    by (simp add: lp_receive_peek_def read_without_consuming_def log_read_def iu)
  have r3: "lp_receive_peek (fst (commit_buffer ?lp2 p (length bs))) (of_nat ?i) out =
      (copy_into out bs, Ok (length bs))"
    using read_refines [OF c(2)] pos assms(7,8)
    by (simp add: lp_receive_peek_def read_without_consuming_def log_read_def iu rb3)
  show ?thesis
    using lp1 r1 r3 c rb p by (intro exI [of _ lp1] exI [of _ p]) (simp add: split_beta Let_def)
qed

theorem loan_round_trip_witness:
  "\<exists>lp1 p. borrow_buffer (lp_open \<lparr>slot_count = 2, slot_size = 24\<rparr>) 8 = (lp1, Some (p, 8)) \<and>
     lp_receive_peek (fst (commit_buffer (fill_loan lp1 p [1, 2, 3]) p 3)) 0 [0, 0, 0] = ([1, 2, 3], Ok 3)"
  using loan_round_trip [of "lp_open \<lparr>slot_count = 2, slot_size = 24\<rparr>" "[]" 8 "[1, 2, 3]" "[0, 0, 0]"]
    init_inv [of "\<lparr>slot_count = 2, slot_size = 24\<rparr>"]
  by (auto simp: lp_open_def payload_capacity_from_stride_def init_segment_def copy_into_def split_beta Let_def
      numeral_3_eq_3)

text \<open>Note: A refused loan leaves no trace: when the unread backlog already fills the ring,
  \<open>borrow_buffer\<close> returns nothing and the channel is exactly as before (the reserved index is given
  back, and the unsigned subtraction of the two indices cannot wrap).\<close>

theorem loan_refused_when_full:
  assumes "ring_inv (lp_ring lp) (lp_shm lp) hist"
    and "unat (slot_count (lp_ring lp)) \<le> length hist - unat (read_index (lp_shm lp))"
  shows "borrow_buffer lp n = (lp, None) \<and> read_index (lp_shm lp) \<le> write_index (lp_shm lp)"
  using borrow_full [OF assms] assms(1) by (simp add: ring_inv_def)

theorem loan_refused_when_full_witness:
  "let lp = fst (lp_publish (lp_open \<lparr>slot_count = 1, slot_size = 24\<rparr>) [9] 0) in borrow_buffer lp 1 = (lp, None)"
proof -
  let ?rb = "\<lparr>slot_count = 1, slot_size = 24\<rparr>" and ?lp = "fst (lp_publish (lp_open \<lparr>slot_count = 1, slot_size = 24\<rparr>) [9] 0)"
  have i0: "ring_inv (lp_ring (lp_open ?rb)) (lp_shm (lp_open ?rb)) []"
    using init_inv [of ?rb] by (simp add: lp_open_def)
  have i1: "ring_inv (lp_ring ?lp) (lp_shm ?lp) ([] @ [Some [9]])"
    using publish_inv(1) [OF i0, of "[9]"]
    by (simp add: lp_publish_def lp_open_def payload_capacity_from_stride_def)
  have "read_index (lp_shm ?lp) = 0"
    by (simp add: lp_publish_def lp_open_def rb_write_def payload_capacity_from_stride_def Let_def
        advance_watermark_def checked_sub64_def init_segment_def)
  with loan_refused_when_full [OF i1, of 1] show ?thesis
    by (simp add: lp_publish_def lp_open_def)
qed

text \<open>Note: A loan committed after its slot was reused destroys the newer sample.  Writers do not
  respect outstanding loans; when the commit of sequence \<open>q\<close> comes after sample \<open>s\<close> was written into
  the same slot, the commit succeeds, and sample \<open>s\<close>, readable before, can no longer be read.\<close>

theorem late_commit_hides_newer_sample:
  assumes "lp_loaned lp p = Some q" "p = slot_off (lp_ring lp) s + 16" "q \<noteq> s"
    and "ring_ok (lp_ring lp) (ring_data (lp_shm lp))" "16 < unat (slot_size (lp_ring lp))"
    and "n \<le> payload_capacity_from_stride (slot_size (lp_ring lp))"
    and "lp_receive_peek lp s out = (out', Ok k)"
  shows "let (lp', b) = commit_buffer lp p n in
         b \<and> lp_receive_peek lp' s out = (out, Err Slot_not_yet_written)"
proof -
  let ?rb = "lp_ring lp" and ?m = "lp_shm lp"
  have win: "\<not> write_index ?m \<le> s" "\<not> ucast (slot_count ?rb) < write_index ?m - s"
    using assms(7)
    by (auto simp: lp_receive_peek_def read_without_consuming_def read_slot_def Let_def split: if_splits)
  have "slot_seq (set_seq (set_len (ring_data ?m) (slot_off ?rb s) (of_nat n)) (slot_off ?rb s) q)
      (slot_off ?rb s) = q"
    using commit_slot(2) [OF assms(4,6), where w = s and s = q] .
  then show ?thesis
    using assms(1,3,6) win loan_pointer [OF assms(5)]
    by (simp add: commit_buffer_def Let_def assms(2) lp_receive_peek_def read_without_consuming_def
        read_slot_def)
qed

theorem late_commit_hides_newer_sample_witness:
  "\<exists>lp1 p lp3. borrow_buffer (lp_open \<lparr>slot_count = 2, slot_size = 24\<rparr>) 8 = (lp1, Some (p, 8)) \<and>
     lp3 = fst (lp_publish_with_gid (fst (lp_publish_with_gid lp1 [1] 7 0)) [2] 7 0) \<and>
     lp_receive_peek lp3 2 [0] = ([2], Ok 1) \<and>
     snd (commit_buffer lp3 p 1) \<and>
     lp_receive_peek (fst (commit_buffer lp3 p 1)) 2 [0] = ([0], Err Slot_not_yet_written)"
proof -
  let ?rb = "\<lparr>slot_count = 2, slot_size = 24\<rparr>"
  have i0: "ring_inv (lp_ring (lp_open ?rb)) (lp_shm (lp_open ?rb)) []"
    using init_inv [of ?rb] by (simp add: lp_open_def)
  obtain lp1 where b: "borrow_buffer (lp_open ?rb) 8 = (lp1, Some (slot_off ?rb 0 + 16, 8))"
    and i1: "ring_inv (lp_ring lp1) (lp_shm lp1) [None]" and rb: "lp_ring lp1 = ?rb"
    and loan: "lp_loaned lp1 (slot_off ?rb 0 + 16) = Some 0"
    using borrow_grants [OF i0, of 8]
    by (auto simp: lp_open_def init_segment_def payload_capacity_from_stride_def)
  let ?lp2 = "fst (lp_publish_with_gid lp1 [1] 7 0)"
  let ?lp3 = "fst (lp_publish_with_gid ?lp2 [2] 7 0)"
  have i2: "ring_inv (lp_ring ?lp2) (lp_shm ?lp2) [None, Some [1]]"
    using publish_inv(1) [OF i1, of "[1]"] rb by (simp add: payload_capacity_from_stride_def)
  have i3: "ring_inv ?rb (lp_shm ?lp3) [None, Some [1], Some [2]]"
    using publish_inv(1) [OF i2, of "[2]"] rb by (simp add: payload_capacity_from_stride_def)
  have r3: "lp_receive_peek ?lp3 2 [0] = ([2], Ok 1)"
    using read_refines [OF i3, of 2 "[0]"] rb
    by (simp add: lp_receive_peek_def read_without_consuming_def log_read_def copy_into_def)
  have off: "slot_off ?rb 0 = slot_off ?rb 2" by (simp add: slot_off_def)
  have "let (lp', b) = commit_buffer ?lp3 (slot_off ?rb 0 + 16) 1 in
      b \<and> lp_receive_peek lp' 2 [0] = ([0], Err Slot_not_yet_written)"
    using late_commit_hides_newer_sample [OF _ _ _ _ _ _ r3, of "slot_off ?rb 0 + 16" 0 1] i3 loan rb off
    by (simp add: ring_inv_def payload_capacity_from_stride_def)
  then show ?thesis using b r3 by (auto simp: split_beta Let_def)
qed

text \<open>C37: Publishing wakes the descriptor subscribers wait on.  A successful publish stores time stamp
  and publisher GID under the sample's sequence number and raises the counter of \<open>event_fd\<close>.\<close>

theorem publish_records_and_signals:
  assumes "ring_inv (lp_ring lp) (lp_shm lp) hist" "length hist + 1 < 2 ^ 64"
    and "length data \<le> payload_capacity_from_stride (slot_size (lp_ring lp))"
    and "lp_counters lp (lp_event_fd lp) < 2 ^ 64 - 2"
  shows "let (lp', r) = lp_publish_with_gid lp data gid now; s = of_nat (length hist) in
         r = Ok s \<and> lp_timestamps lp' s = Some now \<and> (gid \<noteq> 0 \<longrightarrow> lp_publisher_gids lp' s = Some gid) \<and>
         lp_counters lp' (lp_event_fd lp') = lp_counters lp (lp_event_fd lp) + 1"
proof -
  obtain m where "rb_write (lp_ring lp) (lp_shm lp) data = (m, Ok (of_nat (length hist)))"
    using write_fits(1) [OF assms(1,3,2)] by (metis prod.collapse)
  then show ?thesis
    using assms(4) by (auto simp: lp_publish_with_gid_def Let_def lp_signal_def eventfd_write_def lp_event_fd_def)
qed

theorem publish_records_and_signals_witness:
  "let (lp', r) = lp_publish_with_gid (lp_open \<lparr>slot_count = 2, slot_size = 24\<rparr>) [1, 2] 9 33 in
   r = Ok 0 \<and> lp_timestamps lp' 0 = Some 33 \<and> lp_publisher_gids lp' 0 = Some 9"
  using publish_records_and_signals [of "lp_open \<lparr>slot_count = 2, slot_size = 24\<rparr>" "[]" "[1, 2]" 9 33]
    init_inv [of "\<lparr>slot_count = 2, slot_size = 24\<rparr>"]
  by (auto simp: lp_open_def payload_capacity_from_stride_def split_beta Let_def)

text \<open>Note: A committed loan does not wake the subscribers of another process: when the channel uses an
  eventfd shared across processes, \<open>commit_buffer\<close> leaves the counter of \<open>event_fd\<close> as it was, although
  the sample became readable.\<close>

theorem commit_does_not_signal_shared_fd:
  assumes "0 \<le> lp_cross_fd lp" "lp_cross_fd lp \<noteq> lp_eventfd lp"
  shows "lp_counters (fst (commit_buffer lp p n)) (lp_event_fd (fst (commit_buffer lp p n)))
           = lp_counters lp (lp_event_fd lp)"
  using assms
  by (auto simp: commit_buffer_def Let_def eventfd_write_def lp_event_fd_def split: option.splits)

theorem commit_does_not_signal_shared_fd_witness:
  "\<exists>lp1 p. borrow_buffer ((lp_open \<lparr>slot_count = 2, slot_size = 24\<rparr>)\<lparr>lp_cross_fd := 6\<rparr>) 8 = (lp1, Some (p, 8)) \<and>
     snd (commit_buffer lp1 p 1) \<and> lp_event_fd lp1 = 6 \<and>
     lp_counters (fst (commit_buffer lp1 p 1)) 6 = 0"
proof -
  let ?lp = "(lp_open \<lparr>slot_count = 2, slot_size = 24\<rparr>)\<lparr>lp_cross_fd := 6\<rparr>"
  have "\<exists>lp1. borrow_buffer ?lp 8 = (lp1, Some (16, 8)) \<and> lp_cross_fd lp1 = 6 \<and> lp_eventfd lp1 = 5 \<and>
      lp_counters lp1 = (\<lambda>_. 0) \<and> lp_loaned lp1 16 = Some 0 \<and> lp_ring lp1 = \<lparr>slot_count = 2, slot_size = 24\<rparr>"
    by (simp add: borrow_buffer_def lp_open_def Let_def payload_capacity_from_stride_def init_segment_def
        slot_off_def word_le_nat_alt)
  then obtain lp1 where lp1: "borrow_buffer ?lp 8 = (lp1, Some (16, 8))" "lp_cross_fd lp1 = 6"
    "lp_eventfd lp1 = 5" "lp_counters lp1 = (\<lambda>_. 0)" "lp_loaned lp1 16 = Some 0"
    "lp_ring lp1 = \<lparr>slot_count = 2, slot_size = 24\<rparr>" by blast
  have b: "snd (commit_buffer lp1 16 1)" and cf: "lp_cross_fd (fst (commit_buffer lp1 16 1)) = 6"
    using lp1 by (simp_all add: commit_buffer_def Let_def payload_capacity_from_stride_def)
  show ?thesis
    using commit_does_not_signal_shared_fd [of lp1 16 1] lp1 b cf
    by (intro exI [of _ lp1] exI [of _ 16]) (simp add: lp_event_fd_def)
qed

end
