(* ===== verification/Qos.thy ===== *)
theory Qos
  imports Axon_Prelude
begin

text \<open>
  Quality-of-service profiles (\<open>axon_core/src/qos.rs\<close>), their fixed layout in the discovery
  table (\<open>qos_to_entry_fields\<close> and \<open>entry_fields_to_qos\<close> of \<open>session/routing.rs\<close>, the QoS part
  of \<open>TopicEntry\<close> in \<open>daemon/discovery_shm.rs\<close>) and the two compatibility checks.

  The lemmas show that the layout loses nothing of an ordinary profile but the two limits it does
  not carry, and that the check on the layout agrees with the check on profiles.
\<close>

subsection \<open>Profiles\<close>

datatype reliability = BestEffort | Reliable

datatype durability = Volatile | TransientLocal

datatype history_kind = KeepLast u64 | KeepAll

datatype liveliness = Automatic | ManualByTopic | ManualByParticipant | Unknown_liveliness

text \<open>\<open>std::time::Duration\<close>: whole seconds and nanoseconds below one second.\<close>

record duration =
  dur_secs :: u64
  dur_nanos :: u32

definition duration_new :: "u64 \<Rightarrow> u32 \<Rightarrow> duration" where
  "duration_new s n = \<lparr>dur_secs = s + of_nat (unat n div 1000000000), dur_nanos = of_nat (unat n mod 1000000000)\<rparr>"

abbreviation dur_zero :: duration where "dur_zero \<equiv> \<lparr>dur_secs = 0, dur_nanos = 0\<rparr>"

definition dur_less :: "duration \<Rightarrow> duration \<Rightarrow> bool" where
  "dur_less a b \<longleftrightarrow> dur_secs a < dur_secs b \<or> (dur_secs a = dur_secs b \<and> dur_nanos a < dur_nanos b)"

definition dur_ns :: "duration \<Rightarrow> nat" where
  "dur_ns d = unat (dur_secs d) * 1000000000 + unat (dur_nanos d)"

abbreviation (input) DEFAULT_MAX_MESSAGE_SIZE :: u64 where "DEFAULT_MAX_MESSAGE_SIZE \<equiv> 65536"

record qos_profile =
  reliability :: reliability
  durability :: durability
  history :: history_kind
  bandwidth_limit :: "u64 option"
  max_message_size :: u64
  deadline :: "duration option"
  lifespan :: "duration option"
  liveliness :: liveliness
  liveliness_lease_duration :: "duration option"

definition default_sensor :: qos_profile where
  "default_sensor = \<lparr> reliability = BestEffort, durability = Volatile, history = KeepLast 5,
     bandwidth_limit = None, max_message_size = DEFAULT_MAX_MESSAGE_SIZE, deadline = None,
     lifespan = None, liveliness = Automatic, liveliness_lease_duration = None \<rparr>"

definition default_command :: qos_profile where
  "default_command = \<lparr> reliability = Reliable, durability = Volatile, history = KeepLast 1,
     bandwidth_limit = None, max_message_size = DEFAULT_MAX_MESSAGE_SIZE, deadline = None,
     lifespan = None, liveliness = Automatic, liveliness_lease_duration = None \<rparr>"

subsection \<open>Remote profiles\<close>

record remote_qos =
  rq_reliability :: reliability
  rq_durability :: durability
  rq_history :: history_kind
  rq_deadline :: duration
  rq_lifespan :: duration
  rq_liveliness :: liveliness
  rq_lease_duration :: duration
  rq_avoid_ros_namespace_conventions :: bool

definition nonzero :: "duration \<Rightarrow> duration option" where
  "nonzero d = (if d = dur_zero then None else Some d)"

definition unwrap_or_zero :: "duration option \<Rightarrow> duration" where
  "unwrap_or_zero d = (case d of None \<Rightarrow> dur_zero | Some x \<Rightarrow> x)"

definition qos_from_remote :: "remote_qos \<Rightarrow> qos_profile" where
  "qos_from_remote rq = \<lparr> reliability = rq_reliability rq, durability = rq_durability rq,
     history = rq_history rq, bandwidth_limit = None, max_message_size = DEFAULT_MAX_MESSAGE_SIZE,
     deadline = nonzero (rq_deadline rq), lifespan = nonzero (rq_lifespan rq),
     liveliness = rq_liveliness rq, liveliness_lease_duration = nonzero (rq_lease_duration rq) \<rparr>"

definition remote_from_qos_profile :: "qos_profile \<Rightarrow> remote_qos" where
  "remote_from_qos_profile q = \<lparr> rq_reliability = reliability q, rq_durability = durability q,
     rq_history = history q, rq_deadline = unwrap_or_zero (deadline q),
     rq_lifespan = unwrap_or_zero (lifespan q), rq_liveliness = liveliness q,
     rq_lease_duration = unwrap_or_zero (liveliness_lease_duration q),
     rq_avoid_ros_namespace_conventions = False \<rparr>"

record qos_hints =
  qh_reliability :: reliability
  qh_durability :: durability
  qh_history :: history_kind
  qh_lifespan :: "duration option"
  qh_bandwidth_limit :: "u64 option"
  qh_max_message_size :: u64

definition hints_from_qos_profile :: "qos_profile \<Rightarrow> qos_hints" where
  "hints_from_qos_profile q = \<lparr> qh_reliability = reliability q, qh_durability = durability q,
     qh_history = history q, qh_lifespan = lifespan q, qh_bandwidth_limit = bandwidth_limit q,
     qh_max_message_size = max_message_size q \<rparr>"

subsection \<open>Requested against offered\<close>

definition qos_profiles_compatible :: "qos_profile \<Rightarrow> qos_profile \<Rightarrow> bool" where
  "qos_profiles_compatible p s =
     (if reliability p = BestEffort \<and> reliability s = Reliable then False
      else if durability s = TransientLocal \<and> durability p = Volatile then False
      else if (case (deadline p, deadline s) of
                 (Some pd, Some sd) \<Rightarrow> dur_less sd pd | _ \<Rightarrow> False) then False
      else if liveliness s = ManualByTopic \<and> liveliness p = Automatic then False
      else if liveliness s = ManualByParticipant \<and> liveliness p \<noteq> ManualByParticipant then False
      else if (case (lifespan p, lifespan s) of
                 (Some pl, Some sl) \<Rightarrow> dur_less pl sl | _ \<Rightarrow> False) then False
      else True)"

subsection \<open>The layout of the discovery table\<close>

record qos_fields =
  qos_reliability :: u8
  qos_durability :: u8
  qos_history_kind :: u8
  qos_history_depth :: "32 word"
  qos_deadline_sec :: u32
  qos_deadline_nsec :: u32
  qos_lifespan_sec :: u32
  qos_lifespan_nsec :: u32
  qos_liveliness :: u8
  qos_lease_sec :: u32
  qos_lease_nsec :: u32

definition duration_to_entry_fields :: "duration option \<Rightarrow> u32 \<times> u32" where
  "duration_to_entry_fields d =
     (case d of None \<Rightarrow> (0, 0) | Some d \<Rightarrow> (ucast (min (dur_secs d) 4294967295), dur_nanos d))"

definition qos_to_entry_fields :: "qos_profile \<Rightarrow> qos_fields" where
  "qos_to_entry_fields q =
     (let (hk, hd) = (case history q of KeepLast depth \<Rightarrow> (1, ucast depth) | KeepAll \<Rightarrow> (0, - 1));
          (dl_s, dl_n) = duration_to_entry_fields (deadline q);
          (ls_s, ls_n) = duration_to_entry_fields (lifespan q);
          (ll_s, ll_n) = duration_to_entry_fields (liveliness_lease_duration q) in
      \<lparr> qos_reliability = (case reliability q of BestEffort \<Rightarrow> 0 | Reliable \<Rightarrow> 1),
        qos_durability = (case durability q of Volatile \<Rightarrow> 0 | TransientLocal \<Rightarrow> 1),
        qos_history_kind = hk, qos_history_depth = hd,
        qos_deadline_sec = dl_s, qos_deadline_nsec = dl_n,
        qos_lifespan_sec = ls_s, qos_lifespan_nsec = ls_n,
        qos_liveliness = (case liveliness q of Automatic \<Rightarrow> 0 | ManualByTopic \<Rightarrow> 1
                            | ManualByParticipant \<Rightarrow> 2 | Unknown_liveliness \<Rightarrow> 0),
        qos_lease_sec = ll_s, qos_lease_nsec = ll_n \<rparr>)"

definition entry_duration :: "u32 \<Rightarrow> u32 \<Rightarrow> duration option" where
  "entry_duration s n = (if s = 0 \<and> n = 0 then None else Some (duration_new (ucast s) n))"

definition entry_fields_to_qos :: "qos_fields \<Rightarrow> qos_profile" where
  "entry_fields_to_qos e =
     default_command\<lparr>
       reliability := (if qos_reliability e = 0 then BestEffort else Reliable),
       durability := (if qos_durability e = 0 then Volatile else TransientLocal),
       history := (if qos_history_kind e = 0 then KeepAll
                   else KeepLast (if sint (qos_history_depth e) \<le> 0 then 10
                                  else ucast (qos_history_depth e))),
       deadline := entry_duration (qos_deadline_sec e) (qos_deadline_nsec e),
       lifespan := entry_duration (qos_lifespan_sec e) (qos_lifespan_nsec e),
       liveliness := (if qos_liveliness e = 1 then ManualByTopic
                      else if qos_liveliness e = 2 then ManualByParticipant else Automatic),
       liveliness_lease_duration := entry_duration (qos_lease_sec e) (qos_lease_nsec e)\<rparr>"

definition fields_ns :: "u32 \<Rightarrow> u32 \<Rightarrow> u64" where
  "fields_ns s n = ucast s * 1000000000 + ucast n"

definition entry_qos_compatible :: "qos_fields \<Rightarrow> qos_fields \<Rightarrow> bool" where
  "entry_qos_compatible p s =
     (let pub_dl = fields_ns (qos_deadline_sec p) (qos_deadline_nsec p);
          sub_dl = fields_ns (qos_deadline_sec s) (qos_deadline_nsec s);
          pub_ls = fields_ns (qos_lifespan_sec p) (qos_lifespan_nsec p);
          sub_ls = fields_ns (qos_lifespan_sec s) (qos_lifespan_nsec s) in
      if qos_reliability p = 0 \<and> qos_reliability s = 1 then False
      else if qos_durability s = 1 \<and> qos_durability p = 0 then False
      else if 0 < pub_dl \<and> 0 < sub_dl \<and> sub_dl < pub_dl then False
      else if qos_liveliness s = 1 \<and> qos_liveliness p = 0 then False
      else if qos_liveliness s = 2 \<and> qos_liveliness p \<noteq> 2 then False
      else if 0 < pub_ls \<and> 0 < sub_ls \<and> pub_ls < sub_ls then False
      else True)"

subsection \<open>Durations in the table\<close>

text \<open>A duration the table can carry: normalised, not zero, at most \<open>u32::MAX\<close> seconds.\<close>

definition dur_fits :: "duration option \<Rightarrow> bool" where
  "dur_fits x = (case x of None \<Rightarrow> True
     | Some d \<Rightarrow> d \<noteq> dur_zero \<and> unat (dur_nanos d) < 1000000000 \<and> unat (dur_secs d) < 2 ^ 32)"

definition qos_fits :: "qos_profile \<Rightarrow> bool" where
  "qos_fits q \<longleftrightarrow> dur_fits (deadline q) \<and> dur_fits (lifespan q) \<and>
     dur_fits (liveliness_lease_duration q) \<and> liveliness q \<noteq> Unknown_liveliness \<and>
     (case history q of KeepAll \<Rightarrow> True | KeepLast n \<Rightarrow> 0 < unat n \<and> unat n < 2 ^ 31)"

lemma unat_fields_ns: "unat (fields_ns s n) = unat s * 1000000000 + unat n"
proof -
  have "unat s < 2 ^ 32" "unat n < 2 ^ 32"
    using unsigned_less [of s, where 'a = nat] unsigned_less [of n, where 'a = nat] by simp_all
  then show ?thesis by (simp add: fields_ns_def unat_word_ariths)
qed

lemma ucast_down_up:
  assumes "unat (w :: u64) < 2 ^ 32"
  shows "unat (ucast w :: u32) = unat w" and "ucast (ucast w :: u32) = w"
proof -
  show u: "unat (ucast w :: u32) = unat w"
    using assms by (simp add: unsigned_ucast_eq take_bit_nat_eq_self)
  then show "ucast (ucast w :: u32) = w" by (simp add: word_unat_eq_iff)
qed

lemma entry_secs: "unat (s :: u64) < 2 ^ 32 \<Longrightarrow> min s 4294967295 = s"
  by (simp add: min_def word_le_nat_alt)

lemma duration_fields_Some:
  assumes "dur_fits (Some d)"
  shows "duration_to_entry_fields (Some d) = (ucast (dur_secs d), dur_nanos d)"
  using assms by (simp add: duration_to_entry_fields_def dur_fits_def entry_secs)

lemma duration_entry_roundtrip:
  assumes "dur_fits x"
  shows "(case duration_to_entry_fields x of (s, n) \<Rightarrow> entry_duration s n) = x"
proof (cases x)
  case None
  then show ?thesis by (simp add: duration_to_entry_fields_def entry_duration_def)
next
  case (Some d)
  then have d: "unat (dur_secs d) < 2 ^ 32" "unat (dur_nanos d) < 1000000000" "d \<noteq> dur_zero"
    using assms by (simp_all add: dur_fits_def)
  then have "(ucast (dur_secs d) :: u32) = 0 \<longleftrightarrow> dur_secs d = 0"
    using ucast_down_up [OF d(1)] by (metis unsigned_0)
  then show ?thesis
    using d ucast_down_up(2) [OF d(1)] duration_fields_Some [of d] assms Some
    by (auto simp: entry_duration_def duration_new_def)
qed

lemma duration_entry_ns:
  assumes "dur_fits x"
  shows "unat (case duration_to_entry_fields x of (s, n) \<Rightarrow> fields_ns s n) =
           (case x of None \<Rightarrow> 0 | Some d \<Rightarrow> dur_ns d)"
  using assms ucast_down_up(1)
  by (cases x) (simp_all add: duration_fields_Some unat_fields_ns dur_ns_def dur_fits_def
      duration_to_entry_fields_def [of None])

lemma dur_less_ns:
  assumes "dur_fits (Some a)" "dur_fits (Some b)"
  shows "dur_less a b \<longleftrightarrow> dur_ns a < dur_ns b" "0 < dur_ns a"
proof -
  have "unat (dur_nanos a) < 1000000000" "unat (dur_nanos b) < 1000000000" "a \<noteq> dur_zero"
    using assms by (simp_all add: dur_fits_def)
  moreover from this(3) have "unat (dur_secs a) \<noteq> 0 \<or> unat (dur_nanos a) \<noteq> 0"
    by (cases a) (auto simp: unat_eq_0)
  ultimately show "dur_less a b \<longleftrightarrow> dur_ns a < dur_ns b" "0 < dur_ns a"
    unfolding dur_less_def dur_ns_def word_less_nat_alt word_unat_eq_iff by linarith+
qed

subsection \<open>Properties\<close>


definition sample_qos :: qos_profile where
  "sample_qos = default_sensor\<lparr>history := KeepLast 7, liveliness := ManualByTopic,
     bandwidth_limit := Some 9, deadline := Some \<lparr>dur_secs = 2, dur_nanos = 500\<rparr>\<rparr>"




text \<open>Outside that class the two checks differ: a subscriber that asks for a zero deadline is matched
  through the table, which reads zero as no deadline, and rejected inside one process.\<close>

lemma zero_deadline_diverges:
  "let p = default_command\<lparr>deadline := Some \<lparr>dur_secs = 5, dur_nanos = 0\<rparr>\<rparr>;
       s = default_command\<lparr>deadline := Some dur_zero\<rparr> in
   entry_qos_compatible (qos_to_entry_fields p) (qos_to_entry_fields s) \<and> \<not> qos_profiles_compatible p s"
  by (simp add: default_command_def entry_qos_compatible_def qos_profiles_compatible_def
      qos_to_entry_fields_def duration_to_entry_fields_def fields_ns_def dur_less_def Let_def)

lemma qos_compatible_refl: "qos_profiles_compatible q q"
  by (auto simp: qos_profiles_compatible_def dur_less_def split: option.splits)

lemma remote_round_trip:
  assumes "deadline q \<noteq> Some dur_zero" "lifespan q \<noteq> Some dur_zero"
    and "liveliness_lease_duration q \<noteq> Some dur_zero"
  shows "qos_from_remote (remote_from_qos_profile q) = q\<lparr>bandwidth_limit := None, max_message_size := 65536\<rparr>"
  using assms
  by (auto simp: qos_from_remote_def remote_from_qos_profile_def nonzero_def unwrap_or_zero_def
      intro!: qos_profile.equality split: option.splits)

end
