(* ===== verification/Axon_Types.thy ===== *)
theory Axon_Types
  imports Qos
begin

text \<open>
  Identifiers (\<open>axon_core/src/types.rs\<close>): topic hashes, the request and response topics of a
  service, GIDs, and the records of the endpoints of a node.  \<open>format!("{:x}")\<close> is \<open>hex\<close>.
\<close>

subsection \<open>Hashes\<close>

definition service_request_topic :: "u64 \<Rightarrow> u64" where
  "service_request_topic service_id = service_id XOR 0x52655100"

definition service_response_topic :: "u64 \<Rightarrow> u64" where
  "service_response_topic service_id = service_id XOR 0x52657300"

definition fxhash_step :: "u64 \<Rightarrow> byte \<Rightarrow> u64" where
  "fxhash_step h b = (word_rotl 5 h XOR word_rotr 7 h) + ucast b"

definition fxhash :: "string \<Rightarrow> u64" where
  "fxhash s = foldl fxhash_step 0 (as_bytes s)"

definition hex_digit :: "nat \<Rightarrow> char" where
  "hex_digit n = (if n < 10 then char_of (48 + n) else char_of (87 + n))"

function hex_nat :: "nat \<Rightarrow> string" where
  "hex_nat n = (if n < 16 then [hex_digit n] else hex_nat (n div 16) @ [hex_digit (n mod 16)])"
  by pat_completeness auto
termination by (relation "measure id") auto

declare hex_nat.simps [simp del]

definition hex :: "u64 \<Rightarrow> string" where
  "hex w = hex_nat (unat w)"

definition make_gid :: "string \<Rightarrow> u64 \<Rightarrow> u64 \<Rightarrow> bytes" where
  "make_gid prefix node_id topic_hash =
     (let name = prefix @ ''_'' @ hex node_id @ ''_'' @ hex topic_hash;
          low = fxhash name;
          high = fxhash (name @ ''_high'') in
      u128_to_le ((push_bit 64 (ucast high)) OR ucast low))"

subsection \<open>Endpoints\<close>

datatype acl_direction = Publish | Subscribe

record publisher_entity =
  pe_topic_name :: string
  pe_topic_type :: string
  pe_topic_hash :: u64
  pe_node_id :: u64
  pe_node_name :: string
  pe_node_namespace :: string
  pe_qos :: qos_profile
  pe_gid :: bytes

type_synonym subscription_entity = publisher_entity

record service_entity =
  se_service_name :: string
  se_service_type :: string
  se_service_id :: u64
  se_node_id :: u64

record client_entity =
  ce_service_name :: string
  ce_service_type :: string
  ce_client_id :: u64
  ce_node_id :: u64

subsection \<open>Lemmas\<close>

lemma length_make_gid [simp]: "length (make_gid p n t) = 16"
  by (simp add: make_gid_def Let_def)

lemma le_to_nat_append: "le_to_nat (xs @ ys) = le_to_nat xs + 256 ^ length xs * le_to_nat ys"
  by (induction xs) (simp_all add: algebra_simps)

lemma u128_halves:
  "u128_to_le ((push_bit 64 (ucast (h :: u64))) OR ucast (l :: u64)) = u64_to_le l @ u64_to_le h"
proof -
  let ?w = "(push_bit 64 (ucast h)) OR ucast l :: u128"
  have h: "unat h < 2 ^ 64" and l: "unat l < 2 ^ 64"
    using unsigned_less [of h, where 'a = nat] unsigned_less [of l, where 'a = nat] by simp_all
  have "?w = push_bit 64 (ucast h) + ucast l"
    by (rule disjunctive_add [symmetric]) (auto simp: bit_simps dest: bit_imp_le_length)
  moreover have "unat (ucast h :: u128) = unat h" "unat (ucast l :: u128) = unat l"
    using h l by (simp_all add: unsigned_ucast_eq take_bit_nat_eq_self_iff)
  ultimately have u: "unat ?w = unat l + 2 ^ 64 * unat h"
    using h l by (simp add: unat_word_ariths push_bit_eq_mult)
  have "le_to_nat (u64_to_le l @ u64_to_le h) = unat ?w"
    unfolding u using h l by (simp add: le_to_nat_append u64_to_le_def le_to_nat_to_le)
  then show ?thesis
    unfolding u128_to_le_def by (metis length_append length_int_bytes(3) nat_to_le_to_nat numeral_Bit0)
qed

lemma make_gid_halves:
  "make_gid p n t = u64_to_le (fxhash (p @ ''_'' @ hex n @ ''_'' @ hex t)) @
     u64_to_le (fxhash (p @ ''_'' @ hex n @ ''_'' @ hex t @ ''_high''))"
  by (simp add: make_gid_def Let_def u128_halves)

lemma xor_eq_iff: "x = y \<longleftrightarrow> x XOR y = 0" for x y :: u64
  by (simp add: bit_eq_iff bit_xor_iff)

lemma xor_swap: "x XOR c = y XOR d \<longleftrightarrow> x XOR y = c XOR d" for x y c d :: u64
proof -
  have "(x XOR c) XOR (y XOR d) = (x XOR y) XOR (c XOR d)" by (simp only: ac_simps)
  then show ?thesis
    by (simp only: xor_eq_iff [of "x XOR c" "y XOR d"] xor_eq_iff [of "x XOR y" "c XOR d"])
qed

lemma xor_cancel: "x XOR c = y XOR c \<longleftrightarrow> x = y" for x y c :: u64
  using xor_swap [of x c y c] by (simp add: xor_eq_iff [of x y])

text \<open>Note: The two topics of a service never coincide and determine the service; the request topic of
  one service is the response topic of another exactly when their ids differ in the bits \<open>0x2200\<close>.\<close>

theorem service_topics_separate:
  "service_request_topic a \<noteq> service_response_topic a \<and>
   (service_request_topic a = service_request_topic b \<longleftrightarrow> a = b) \<and>
   (service_response_topic a = service_response_topic b \<longleftrightarrow> a = b) \<and>
   (service_request_topic a = service_response_topic b \<longleftrightarrow> a XOR b = 0x2200)"
proof -
  have "(0x52655100 :: u64) XOR 0x52657300 = 0x2200" by simp
  then show ?thesis
    using xor_swap [of a "0x52655100" a "0x52657300"] xor_swap [of a "0x52655100" b "0x52657300"]
    by (simp add: service_request_topic_def service_response_topic_def xor_cancel)
qed

end
