(* ===== verification/Security_Mode.thy ===== *)
theory Security_Mode
  imports Axon_Prelude
begin

text \<open>
  The transport-security settings (\<open>axon_core/src/security_mode.rs\<close>): the mode and the QUIC cipher
  chosen by an environment variable.  The value of the variable is the argument of \<open>from_value\<close>; an
  error carries the offending text.
\<close>

datatype security_mode = Classic | Qkd

datatype quic_cipher = ChaCha20Poly1305 | Aes256Gcm

definition normalize_value :: "string option \<Rightarrow> string option" where
  "normalize_value v = map_option to_ascii_lowercase (map_option trim v)"

definition mode_from_value :: "string option \<Rightarrow> (security_mode, string) rust_result" where
  "mode_from_value v =
     (case normalize_value v of
        None \<Rightarrow> Ok Classic
      | Some s \<Rightarrow>
          if s = '''' \<or> s = ''classic'' then Ok Classic
          else if s = ''qkd'' then Ok Qkd
          else Err s)"

fun wire_value :: "security_mode \<Rightarrow> u8" where
  "wire_value Classic = 0"
| "wire_value Qkd = 1"

definition mode_from_wire :: "u8 \<Rightarrow> security_mode option" where
  "mode_from_wire v = (if v = 0 then Some Classic else if v = 1 then Some Qkd else None)"

fun mode_name :: "security_mode \<Rightarrow> string" where
  "mode_name Classic = ''classic''"
| "mode_name Qkd = ''qkd''"

definition cipher_from_value :: "string option \<Rightarrow> (quic_cipher, string) rust_result" where
  "cipher_from_value v =
     (case normalize_value v of
        None \<Rightarrow> Ok ChaCha20Poly1305
      | Some s \<Rightarrow>
          if s \<in> {'''', ''chacha20'', ''chacha20-poly1305'', ''chacha''} then Ok ChaCha20Poly1305
          else if s \<in> {''aes256'', ''aes-256-gcm'', ''aes256-gcm''} then Ok Aes256Gcm
          else Err s)"

fun cipher_name :: "quic_cipher \<Rightarrow> string" where
  "cipher_name ChaCha20Poly1305 = ''ChaCha20-Poly1305''"
| "cipher_name Aes256Gcm = ''AES-256-GCM''"

subsection \<open>Lemmas\<close>

lemma wire_round_trip [simp]: "mode_from_wire (wire_value m) = Some m"
  by (cases m) (simp_all add: mode_from_wire_def)

lemma from_wire_sound: "mode_from_wire v = Some m \<Longrightarrow> wire_value m = v"
  by (auto simp: mode_from_wire_def split: if_splits)

lemma mode_strict:
  "mode_from_value v = Err e \<longleftrightarrow> (\<exists>s. normalize_value v = Some s \<and> e = s \<and> s \<notin> {'''', ''classic'', ''qkd''})"
  by (auto simp: mode_from_value_def split: option.splits)

text \<open>Note: Every setting is recognised by its own displayed name, so what the program prints is a value
  it accepts, and the one-byte wire form of a mode determines the mode.\<close>

theorem setting_names_round_trip:
  "mode_from_value (Some (mode_name m)) = Ok m \<and> cipher_from_value (Some (cipher_name c)) = Ok c \<and>
   mode_from_wire (wire_value m) = Some m"
proof (intro conjI)
  show "mode_from_value (Some (mode_name m)) = Ok m" by (cases m; simp; code_simp)
  show "cipher_from_value (Some (cipher_name c)) = Ok c" by (cases c; simp; code_simp)
qed simp

end
