(* ===== verification/Compress.thy ===== *)
theory Compress
  imports Axon_Prelude
begin

text \<open>
  Payload compression (\<open>axon_core/src/compress.rs\<close>).

  The zstd library is a parameter: \<open>zc level data\<close> is \<open>zstd::bulk::compress\<close> and \<open>zd data
  capacity\<close> is \<open>zstd::bulk::decompress\<close>, both \<open>None\<close> on an error; \<open>decompress_to_buffer\<close> is \<open>zd\<close> with
  the length of the destination as capacity.  What is used of them is the documented inverse:
  decompressing a compressed block into a large enough buffer gives the data back.

  \<open>decompress_into\<close> may be called with input and output in the same buffer; then the input is the front
  of the output and \<open>aliased\<close> is true.
\<close>

abbreviation (input) COMPRESSION_THRESHOLD :: nat where "COMPRESSION_THRESHOLD \<equiv> 1024"

type_synonym zcompress = "int \<Rightarrow> bytes \<Rightarrow> bytes option"
type_synonym zdecompress = "bytes \<Rightarrow> nat \<Rightarrow> bytes option"

definition compression_level :: "string option \<Rightarrow> int" where
  "compression_level v =
     (case v of None \<Rightarrow> 1 | Some s \<Rightarrow> (case parse_i32 s of None \<Rightarrow> 1 | Some n \<Rightarrow> n))"

definition compression_enabled :: "string option \<Rightarrow> bool" where
  "compression_enabled v =
     (case v of
        None \<Rightarrow> True
      | Some s \<Rightarrow> if s \<in> {''1'', ''true'', ''yes'', ''on''} then True
                  else if s \<in> {''0'', ''false'', ''no'', ''off''} then False
                  else True)"

definition compress :: "zcompress \<Rightarrow> bool \<Rightarrow> int \<Rightarrow> bytes \<Rightarrow> bytes" where
  "compress zc enabled level data =
     (if length data \<le> COMPRESSION_THRESHOLD \<or> \<not> enabled then 0 # data
      else case zc level data of
        Some c \<Rightarrow> if length c + 5 < length data + 1
                  then 1 # u32_to_be (of_nat (length data)) @ c
                  else 0 # data
      | None \<Rightarrow> 0 # data)"

definition decompress :: "zdecompress \<Rightarrow> bytes \<Rightarrow> bytes option" where
  "decompress zd data =
     (case data of
        [] \<Rightarrow> None
      | flag # rest \<Rightarrow>
          if flag = 0 then Some rest
          else if length data < 5 then None
          else zd (drop 5 data) (unat (from_be (take 4 rest) :: u32)))"

text \<open>The three ways to call the decoder: payload moved to the end of the shared buffer, separate
  buffers, and a temporary vector.  The temporary is copied with \<open>copy_from_slice\<close>, which panics when
  the lengths differ.\<close>

definition decompress_into :: "zdecompress \<Rightarrow> bool \<Rightarrow> bytes \<Rightarrow> bytes \<Rightarrow> (bytes \<times> nat option) outcome" where
  "decompress_into zd aliased data out =
     (if data = [] \<or> out = [] then Return (out, None)
      else if hd data = 0 then
        (let payload = tl data; len = min (length payload) (length out) in
         Return (copy_into out (take len payload), Some len))
      else if length data < 5 then Return (out, None)
      else
        (let original_len = unat (from_be (take 4 (drop 1 data)) :: u32);
             payload = drop 5 data; payload_len = length payload in
         if length out < original_len then Return (out, None)
         else if aliased \<and> 0 < payload_len \<and> original_len + payload_len \<le> length out then
           (let dst = length out - payload_len;
                out1 = take dst out @ take payload_len (drop 5 out);
                dest = take original_len out1; src = drop original_len out1;
                src_offset = dst - original_len in
            case zd (take payload_len (drop src_offset src)) (length dest) of
              None \<Rightarrow> Return (out1, None)
            | Some x \<Rightarrow> Return (copy_into dest x @ src, Some (length x)))
         else if \<not> aliased \<or> payload_len = 0 then
           (case zd payload original_len of
              None \<Rightarrow> Return (out, None)
            | Some x \<Rightarrow> Return (copy_into out x, Some (length x)))
         else
           (case zd payload original_len of
              None \<Rightarrow> Return (out, None)
            | Some d \<Rightarrow> if length d = original_len then Return (copy_into out d, Some original_len)
                        else Panic)))"

definition decompressed_size :: "bytes \<Rightarrow> nat option" where
  "decompressed_size data =
     (case data of
        [] \<Rightarrow> None
      | flag # rest \<Rightarrow>
          if flag = 0 then Some (length data - 1)
          else if length data < 5 then None
          else Some (unat (from_be (take 4 rest) :: u32)))"

subsection \<open>Lemmas\<close>

text \<open>The documented contract of zstd.\<close>

definition zstd_inverse :: "zcompress \<Rightarrow> zdecompress \<Rightarrow> bool" where
  "zstd_inverse zc zd \<longleftrightarrow> (\<forall>l d c n. zc l d = Some c \<longrightarrow> length d \<le> n \<longrightarrow> zd c n = Some d)"

text \<open>The two shapes of a compressed message.\<close>

lemma compress_cases:
  obtains (plain) "compress zc en l d = 0 # d"
  | (packed) c where "compress zc en l d = 1 # u32_to_be (of_nat (length d)) @ c" "zc l d = Some c"
      "1024 < length d" "length c + 4 < length d"
proof (cases "\<exists>c. zc l d = Some c \<and> 1024 < length d \<and> en \<and> length c + 4 < length d")
  case True
  then obtain c where "zc l d = Some c" "1024 < length d" "en" "length c + 4 < length d" by blast
  then show ?thesis using packed [of c] by (simp add: compress_def)
next
  case False
  then have "compress zc en l d = 0 # d" by (auto simp: compress_def split: option.splits)
  then show ?thesis by (rule plain)
qed

lemma compress_length: "length (compress zc en l d) \<le> length d + 1"
  by (cases rule: compress_cases [of zc en l d]) auto

lemma decompressed_size_compress:
  "length d < 2 ^ 32 \<Longrightarrow> decompressed_size (compress zc en l d) = Some (length d)"
  by (cases rule: compress_cases [of zc en l d]) (auto simp: decompressed_size_def unat_of_nat32)

lemma decompress_compress:
  assumes "zstd_inverse zc zd" "length d < 2 ^ 32"
  shows "decompress zd (compress zc en l d) = Some d"
proof (cases rule: compress_cases [of zc en l d])
  case (packed c)
  then show ?thesis
    using assms by (simp add: decompress_def unat_of_nat32 zstd_inverse_def)
qed (simp add: decompress_def)

lemma aliased_payload:
  assumes "take (length data) out = data" "length data \<le> length out" "5 \<le> length data"
    and "n + length (drop 5 data) \<le> length out" "k = length (drop 5 data)"
  shows "take k (drop (length out - k - n) (drop n (take (length out - k) out @ take k (drop 5 out))))
           = drop 5 data"
proof -
  have p: "take k (drop 5 out) = drop 5 data"
    using assms(1,2,3,5) by (metis drop_take length_drop)
  have "length (take (length out - k) out) = length out - k" by simp
  moreover have "n \<le> length out - k" using assms(4,5) by simp
  ultimately show ?thesis by (simp add: p) (simp add: assms(5))
qed

lemma decompress_into_packed:
  assumes "n < 2 ^ 32" "out \<noteq> []" "n \<le> length out"
  shows "decompress_into zd aliased (1 # u32_to_be (of_nat n) @ c) out =
     (if aliased \<and> 0 < length c \<and> n + length c \<le> length out then
        (let out1 = take (length out - length c) out @ take (length c) (drop 5 out) in
         case zd (take (length c) (drop (length out - length c - n) (drop n out1))) (length (take n out1)) of
           None \<Rightarrow> Return (out1, None)
         | Some x \<Rightarrow> Return (copy_into (take n out1) x @ drop n out1, Some (length x)))
      else if \<not> aliased \<or> length c = 0 then
        (case zd c n of
           None \<Rightarrow> Return (out, None)
         | Some x \<Rightarrow> Return (copy_into out x, Some (length x)))
      else
        (case zd c n of
           None \<Rightarrow> Return (out, None)
         | Some d \<Rightarrow> if length d = n then Return (copy_into out d, Some n) else Panic))"
  using assms by (simp add: decompress_into_def Let_def unat_of_nat32)

lemma decompress_into_compress:
  assumes z: "zstd_inverse zc zd" and d: "length d < 2 ^ 32" "length d \<le> length out" "out \<noteq> []"
    and al: "aliased \<longrightarrow> length (compress zc en l d) \<le> length out \<and>
               take (length (compress zc en l d)) out = compress zc en l d"
  shows "\<exists>out'. decompress_into zd aliased (compress zc en l d) out = Return (out', Some (length d)) \<and>
           take (length d) out' = d \<and> length out' = length out"
proof (cases rule: compress_cases [of zc en l d])
  case plain
  then show ?thesis using d by (simp add: decompress_into_def)
next
  case (packed c)
  let ?m = "1 # u32_to_be (of_nat (length d)) @ c"
  have zd: "zd c (length d) = Some d" using z packed(2) by (auto simp: zstd_inverse_def)
  note eq = decompress_into_packed [OF d(1,3,2), of zd aliased c]
  show ?thesis
  proof (cases "aliased \<and> 0 < length c \<and> length d + length c \<le> length out")
    case True
    let ?o = "take (length out - length c) out @ take (length c) (drop 5 out)"
    have e: "take (length c) (drop (length out - length c - length d) (drop (length d) ?o)) = c"
    proof -
      have m: "take (length ?m) out = ?m" "length ?m \<le> length out"
        using al True unfolding packed(1) by blast+
      have dm: "drop 5 ?m = c" "5 \<le> length ?m" by simp_all
      show ?thesis
        using aliased_payload [OF m dm(2), of "length d" "length c"] True unfolding dm(1) by blast
    qed
    have "length ?m \<le> length out" using al True unfolding packed(1) by blast
    then have five: "5 + length c \<le> length out" by simp
    then have "length ?o = length out" by simp
    then have len: "length (take (length d) ?o) = length d" "length (drop (length d) ?o) = length out - length d"
      using d(2) by (simp_all only: length_take length_drop min_absorb2)
    show ?thesis
      unfolding packed(1) eq using True d(2) five
      by (simp only: Let_def e len zd if_True simp_thms option.case) (simp add: copy_into_def len)
  next
    case False
    then show ?thesis
      unfolding packed(1) eq using d zd by (cases "aliased"; cases "c = []") simp_all
  qed
qed

subsection \<open>Properties\<close>

text \<open>C32: Compression is transparent.  Whatever the settings and however zstd performs, decompressing
  a compressed payload (of less than 4 GiB) gives the payload back, the size announced by the prefix is
  the payload's size, and the packed form is at most one byte longer than the payload.\<close>

theorem compress_round_trip:
  assumes "zstd_inverse zc zd" "length d < 2 ^ 32"
  shows "decompress zd (compress zc en l d) = Some d \<and>
         decompressed_size (compress zc en l d) = Some (length d) \<and>
         length (compress zc en l d) \<le> length d + 1"
  using decompress_compress [OF assms] decompressed_size_compress [OF assms(2)] compress_length by simp

text \<open>A stand-in for zstd: run-length coding of constant blocks.\<close>

definition rle_compress :: zcompress where
  "rle_compress l d =
     (case d of [] \<Rightarrow> None
      | b # _ \<Rightarrow> if d = replicate (length d) b \<and> length d < 2 ^ 32
                 then Some (b # u32_to_be (of_nat (length d))) else None)"

definition rle_decompress :: zdecompress where
  "rle_decompress c n =
     (case c of [] \<Rightarrow> None
      | b # r \<Rightarrow> let k = unat (from_be r :: u32) in if k \<le> n then Some (replicate k b) else None)"

lemma rle_inverse: "zstd_inverse rle_compress rle_decompress"
  unfolding zstd_inverse_def
proof (intro allI impI)
  fix l d c n
  assume "rle_compress l d = Some c" and n: "length d \<le> n"
  then obtain b where d: "d = replicate (length d) b" "length d < 2 ^ 32"
    and c: "c = b # u32_to_be (of_nat (length d))"
    by (cases d) (auto simp: rle_compress_def simp del: of_nat_Suc split: if_splits)
  have "unat (of_nat (length d) :: u32) = length d" by (rule unat_of_nat32 [OF d(2)])
  with n d(1) show "rle_decompress c n = Some d" by (simp add: rle_decompress_def c)
qed

theorem compress_round_trip_witness:
  "decompress rle_decompress (compress rle_compress True 1 (replicate 2000 7)) = Some (replicate 2000 7)"
  using compress_round_trip [OF rle_inverse, of "replicate 2000 7" True 1] by simp

text \<open>Note: Decompression into the caller's buffer is correct also when the packed message lies in that
  buffer itself: it never panics, reports the payload's length and leaves the payload at the front of
  the buffer, in each of the three layouts (moved to the end, separate, temporary).\<close>

theorem decompress_into_correct:
  assumes "zstd_inverse zc zd" "length d < 2 ^ 32" "length d \<le> length out" "out \<noteq> []"
    and "aliased \<longrightarrow> length (compress zc en l d) \<le> length out \<and>
           take (length (compress zc en l d)) out = compress zc en l d"
  shows "\<exists>out'. decompress_into zd aliased (compress zc en l d) out = Return (out', Some (length d)) \<and>
           take (length d) out' = d \<and> length out' = length out"
  using assms by (rule decompress_into_compress)

theorem decompress_into_correct_witness:
  "\<exists>out'. decompress_into rle_decompress True (compress rle_compress True 1 (replicate 2000 7))
       (compress rle_compress True 1 (replicate 2000 7) @ replicate 2000 0) = Return (out', Some 2000) \<and>
     take 2000 out' = replicate 2000 7"
  using decompress_into_correct [OF rle_inverse, of "replicate 2000 7"
      "compress rle_compress True 1 (replicate 2000 7) @ replicate 2000 0" True True 1]
  by auto

end
