(* ===== verification/Resource_Bucket.thy ===== *)
theory Resource_Bucket
  imports Axon_Prelude
begin

text \<open>
  The leaky bucket rate limiter of \<^verbatim>\<open>resource.rs\<close>.

  \<open>bucket\<close> is \<open>LeakyBucket\<close>; its clock, \<open>now_ms\<close>, is an argument of every call.  \<open>try_send\<close> is one
  call that no other thread interrupts.  \<open>bucket_step\<close> is the same code as the sequence of its
  atomic accesses, for any number of threads.

  The sequential lemmas bound what is granted in any window of time and show that an idle bucket is
  full again after a second.  \<open>solo_run_is_try_send\<close> shows that a thread running alone
  computes \<open>try_send\<close>; \<open>bucket_race_doubles_refill\<close> is an interleaving in which the bound fails.
\<close>

subsection \<open>State and operations\<close>

record bucket =
  max_tokens :: u64
  tokens :: u64
  last_refill :: u64

definition bucket_new :: "u64 \<Rightarrow> bucket" where
  "bucket_new m = \<lparr> max_tokens = m, tokens = m, last_refill = 0 \<rparr>"

definition refill :: "u64 \<Rightarrow> u64 \<Rightarrow> u64 \<Rightarrow> u64 \<Rightarrow> u64" where
  "refill m since now cur =
     (let elapsed = sat_sub64 now since;
          added = (if elapsed > 0 then sat_mul64 elapsed m div 1000 else 0) in
      min (sat_add64 cur added) m)"

definition try_send :: "u64 \<Rightarrow> u64 \<Rightarrow> bucket \<Rightarrow> bool \<times> bucket" where
  "try_send now bytes b =
     (let refilled = refill (max_tokens b) (last_refill b) now (tokens b) in
      if refilled < bytes then (False, b)
      else (True, b\<lparr> tokens := refilled - bytes, last_refill := now \<rparr>))"

text \<open>A sequence of calls, each with the time it reads and the bytes it asks for; the result is the
  number of bytes granted and the final bucket.\<close>

fun send_all :: "(u64 \<times> u64) list \<Rightarrow> bucket \<Rightarrow> nat \<times> bucket" where
  "send_all [] b = (0, b)"
| "send_all ((now, bytes) # cs) b =
     (let (ok, b') = try_send now bytes b; (n, b'') = send_all cs b' in
      ((if ok then unat bytes else 0) + n, b''))"

subsection \<open>The atomic accesses of concurrent calls\<close>

text \<open>Where a thread is in \<open>try_send\<close>: before the load of \<open>last_refill\<close>, of the clock, of \<open>tokens\<close>,
  before the exchange of \<open>tokens\<close>, before the exchange of \<open>last_refill\<close>, or returned.\<close>

datatype send_pc =
    AtStart u64
  | HaveLast u64 u64
  | HaveNow u64 u64 u64
  | HaveTokens u64 u64 u64 u64
  | Swapped u64 u64 u64
  | Returned bool u64

record bucket_world =
  shared :: bucket
  clock_ms :: u64
  pcs :: "nat \<Rightarrow> send_pc"

fun send_pc_step :: "u64 \<Rightarrow> bucket \<Rightarrow> send_pc \<Rightarrow> send_pc \<times> bucket" where
  "send_pc_step now b (AtStart bytes) = (HaveLast bytes (last_refill b), b)"
| "send_pc_step now b (HaveLast bytes since) = (HaveNow bytes since now, b)"
| "send_pc_step now b (HaveNow bytes since t) = (HaveTokens bytes since t (tokens b), b)"
| "send_pc_step now b (HaveTokens bytes since t cur) =
     (let refilled = refill (max_tokens b) since t cur in
      if refilled < bytes then (Returned False bytes, b)
      else if tokens b = cur then (Swapped bytes since t, b\<lparr> tokens := refilled - bytes \<rparr>)
      else (AtStart bytes, b))"
| "send_pc_step now b (Swapped bytes since t) =
     (Returned True bytes, if last_refill b = since then b\<lparr> last_refill := t \<rparr> else b)"
| "send_pc_step now b (Returned r bytes) = (Returned r bytes, b)"

inductive bucket_step :: "bucket_world \<Rightarrow> bucket_world \<Rightarrow> bool" where
  thread_moves:
    "send_pc_step (clock_ms w) (shared w) (pcs w i) = (pc', b') \<Longrightarrow>
     bucket_step w (w\<lparr> shared := b', pcs := (pcs w)(i := pc') \<rparr>)"
| clock_ticks:
    "clock_ms w \<le> t \<Longrightarrow> bucket_step w (w\<lparr> clock_ms := t \<rparr>)"

text \<open>One thread taking \<open>n\<close> steps while nothing else happens.\<close>

primrec solo :: "nat \<Rightarrow> u64 \<Rightarrow> send_pc \<times> bucket \<Rightarrow> send_pc \<times> bucket" where
  "solo 0 now s = s"
| "solo (Suc n) now s = solo n now (send_pc_step now (snd s) (fst s))"

text \<open>A schedule: which thread moves next, at a fixed time.\<close>

fun schedule :: "nat list \<Rightarrow> bucket_world \<Rightarrow> bucket_world" where
  "schedule [] w = w"
| "schedule (i # is) w =
     (let (pc', b') = send_pc_step (clock_ms w) (shared w) (pcs w i) in
      schedule is (w\<lparr> shared := b', pcs := (pcs w)(i := pc') \<rparr>))"

definition granted_to :: "send_pc \<Rightarrow> nat" where
  "granted_to pc = (case pc of Returned True bytes \<Rightarrow> unat bytes | _ \<Rightarrow> 0)"

subsection \<open>What one call grants\<close>

lemma refill_le_max: "refill m since now cur \<le> m"
  by (simp add: refill_def Let_def)

lemma unat_refill:
  "unat (refill m since now cur) =
     min (min (unat cur + min ((unat now - unat since) * unat m) (2 ^ 64 - 1) div 1000) (2 ^ 64 - 1)) (unat m)"
proof -
  have pos: "0 < sat_sub64 now since \<longleftrightarrow> 0 < unat now - unat since"
    by (simp add: word_less_nat_alt)
  have mn: "unat (min x y) = min (unat x) (unat y)" for x y :: u64
    by (simp add: min_def word_le_nat_alt)
  show ?thesis
    by (cases "0 < unat now - unat since")
      (simp_all add: refill_def Let_def pos mn unat_sat_add64 unat_sat_mul64 unat_div)
qed

lemma refill_eqI:
  "min (min (unat cur + min ((unat now - unat since) * unat m) (2 ^ 64 - 1) div 1000) (2 ^ 64 - 1)) (unat m) = unat r \<Longrightarrow>
   refill m since now cur = r"
  by (rule unsigned_word_eqI [of "refill m since now cur" r, where 'a = nat]) (simp only: unat_refill)

lemma refill_rate: "1000 * unat (refill m since now cur) \<le> 1000 * unat cur + unat m * (unat now - unat since)"
proof -
  let ?x = "(unat now - unat since) * unat m"
  have "unat (refill m since now cur) \<le> unat cur + ?x div 1000"
    unfolding unat_refill by (rule min.coboundedI1, rule min.coboundedI1) (simp add: div_le_mono)
  then have "1000 * unat (refill m since now cur) \<le> 1000 * unat cur + 1000 * (?x div 1000)" by simp
  also have "1000 * (?x div 1000) \<le> ?x" by simp
  finally show ?thesis by (simp add: mult.commute)
qed

lemma refill_full_after_second:
  assumes "unat m * 1000 < 2 ^ 64" "unat since + 1000 \<le> unat now"
  shows "refill m since now cur = m"
proof -
  have d: "1000 \<le> unat now - unat since" using assms(2) by linarith
  have "unat m * 1000 \<le> (unat now - unat since) * unat m"
    using mult_le_mono1 [OF d, of "unat m"] by (simp only: mult.commute)
  then have "unat m * 1000 \<le> min ((unat now - unat since) * unat m) (2 ^ 64 - 1)"
    using assms(1) by simp
  then have "unat m \<le> min ((unat now - unat since) * unat m) (2 ^ 64 - 1) div 1000"
    by (metis div_le_mono nonzero_mult_div_cancel_right zero_neq_numeral)
  then have "unat (refill m since now cur) = unat m"
    unfolding unat_refill using assms(1) by (simp add: min_def)
  then show ?thesis by (rule unsigned_word_eqI)
qed

lemma try_send_True:
  assumes "try_send now bytes b = (True, b')"
  shows "max_tokens b' = max_tokens b" "last_refill b' = now"
    "unat (tokens b') + unat bytes = unat (refill (max_tokens b) (last_refill b) now (tokens b))"
  using assms by (auto simp: try_send_def Let_def unat_sub word_le_nat_alt not_less split: if_splits)

lemma try_send_False: "try_send now bytes b = (False, b') \<Longrightarrow> b' = b"
  by (auto simp: try_send_def Let_def split: if_splits)

lemma try_send_max: "try_send now bytes b = (ok, b') \<Longrightarrow> max_tokens b' = max_tokens b"
  by (auto simp: try_send_def Let_def split: if_splits)

lemma try_send_account:
  assumes "try_send now bytes b = (ok, b')" "last_refill b \<le> now" "now \<le> t"
  shows "last_refill b' \<le> now"
    "1000 * ((if ok then unat bytes else 0) + unat (tokens b')) + unat (max_tokens b) * (unat t - unat (last_refill b'))
       \<le> 1000 * unat (tokens b) + unat (max_tokens b) * (unat t - unat (last_refill b))"
proof -
  let ?m = "unat (max_tokens b)"
  have le: "unat (last_refill b) \<le> unat now" "unat now \<le> unat t"
    using assms(2,3) by (simp_all add: word_le_nat_alt)
  then have "?m * (unat t - unat (last_refill b)) = ?m * (unat now - unat (last_refill b)) + ?m * (unat t - unat now)"
    by (simp flip: add_mult_distrib2)
  note split = this refill_rate [of "max_tokens b" "last_refill b" now "tokens b"]
  show "last_refill b' \<le> now"
    using assms(1,2) by (cases ok) (auto dest: try_send_True(2) try_send_False)
  show "1000 * ((if ok then unat bytes else 0) + unat (tokens b')) + ?m * (unat t - unat (last_refill b'))
       \<le> 1000 * unat (tokens b) + ?m * (unat t - unat (last_refill b))"
  proof (cases ok)
    case True
    with assms(1) have "try_send now bytes b = (True, b')" by simp
    note tt = try_send_True [OF this]
    from tt(3) have "1000 * (unat bytes + unat (tokens b')) = 1000 * unat (refill (max_tokens b) (last_refill b) now (tokens b))"
      by (simp add: add.commute)
    with split tt(2) True show ?thesis by simp
  qed (use assms(1) in \<open>auto dest: try_send_False\<close>)
qed

subsection \<open>Sequences of calls\<close>

lemma send_all_Cons:
  "try_send now bytes b = (ok, b') \<Longrightarrow> send_all cs b' = (n, b'') \<Longrightarrow>
   send_all ((now, bytes) # cs) b = ((if ok then unat bytes else 0) + n, b'')"
  by simp

lemma send_all_max [simp]: "max_tokens (snd (send_all cs b)) = max_tokens b"
proof (induction cs b rule: send_all.induct)
  case (2 now bytes cs b)
  obtain ok b' where t: "try_send now bytes b = (ok, b')" by fastforce
  obtain n b'' where s: "send_all cs b' = (n, b'')" by fastforce
  have "max_tokens b'' = max_tokens b'" using "2.IH" [OF t [symmetric] refl] s by simp
  with try_send_max [OF t] show ?case using send_all_Cons [OF t s] by simp
qed simp

text \<open>The accounting of a run: what was granted and what is left never exceed what was there and what
  the elapsed time added.\<close>

lemma send_all_account:
  assumes "sorted (map fst cs)" "\<forall>c \<in> set cs. last_refill b \<le> fst c \<and> fst c \<le> t"
    "last_refill b \<le> t" "send_all cs b = (n, b')"
  shows "1000 * (n + unat (tokens b')) \<le> 1000 * unat (tokens b) + unat (max_tokens b) * (unat t - unat (last_refill b))"
  using assms
proof (induction cs b arbitrary: n b' rule: send_all.induct)
  case (2 now bytes cs b)
  obtain ok b1 where t: "try_send now bytes b = (ok, b1)" by fastforce
  obtain k b2 where s: "send_all cs b1 = (k, b2)" by fastforce
  have nb: "n = (if ok then unat bytes else 0) + k" "b' = b2"
    using "2.prems"(4) send_all_Cons [OF t s] by auto
  have now: "last_refill b \<le> now" "now \<le> t" using "2.prems"(2) by auto
  note step = try_send_account [OF t now]
  have "\<forall>c \<in> set cs. last_refill b1 \<le> fst c \<and> fst c \<le> t"
    using "2.prems"(1,2) step(1) by fastforce
  then have "1000 * (k + unat (tokens b2)) \<le>
      1000 * unat (tokens b1) + unat (max_tokens b1) * (unat t - unat (last_refill b1))"
    using "2.IH" [OF t [symmetric] refl _ _ _ s] "2.prems"(1) step(1) now(2) by auto
  with step(2) nb try_send_max [OF t] show ?case by (simp add: algebra_simps)
qed simp

text \<open>A window that starts at \<open>t0\<close> in any state: the bucket holds at most \<open>max_tokens\<close> when the
  first call in the window succeeds, however long it was idle before.\<close>

lemma send_all_window:
  assumes "sorted (map fst cs)" "\<forall>c \<in> set cs. t0 \<le> fst c \<and> fst c \<le> t1"
  shows "1000 * fst (send_all cs b) \<le> 1000 * unat (max_tokens b) + unat (max_tokens b) * (unat t1 - unat t0)"
  using assms
proof (induction cs b rule: send_all.induct)
  case (2 now bytes cs b)
  obtain ok b1 where t: "try_send now bytes b = (ok, b1)" by fastforce
  obtain k b2 where s: "send_all cs b1 = (k, b2)" by fastforce
  have now: "unat t0 \<le> unat now" "now \<le> t1" using "2.prems"(2) by (auto simp: word_le_nat_alt)
  show ?case
  proof (cases ok)
    case False
    with t have "b1 = b" using try_send_False by simp
    with "2.IH" [OF t [symmetric] refl] "2.prems" s send_all_Cons [OF t s] False show ?thesis by simp
  next
    case True
    with t have "try_send now bytes b = (True, b1)" by simp
    note tt = try_send_True [OF this]
    have "1000 * (k + unat (tokens b2)) \<le>
        1000 * unat (tokens b1) + unat (max_tokens b1) * (unat t1 - unat (last_refill b1))"
      by (rule send_all_account [OF _ _ _ s]) (use "2.prems" now(2) tt(2) in auto)
    moreover have "unat (tokens b1) + unat bytes \<le> unat (max_tokens b)"
      using tt(3) refill_le_max [of "max_tokens b" "last_refill b" now "tokens b"] by (simp add: word_le_nat_alt)
    moreover have "unat (max_tokens b) * (unat t1 - unat now) \<le> unat (max_tokens b) * (unat t1 - unat t0)"
      using diff_le_mono2 [OF now(1)] by (rule mult_le_mono2)
    ultimately show ?thesis using send_all_Cons [OF t s] True tt(1,2) by (simp add: algebra_simps)
  qed
qed simp

subsection \<open>Threads\<close>

lemma solo_run_is_try_send:
  "\<exists>n \<le> 5. solo n now (AtStart bytes, b) = (Returned (fst (try_send now bytes b)) bytes, snd (try_send now bytes b))"
proof (cases "refill (max_tokens b) (last_refill b) now (tokens b) < bytes")
  case True
  then have "solo 4 now (AtStart bytes, b) = (Returned False bytes, b)"
    by (simp add: numeral_eq_Suc)
  with True show ?thesis by (intro exI [of _ 4]) (simp add: try_send_def)
next
  case False
  then have "solo 5 now (AtStart bytes, b) =
      (Returned True bytes, b\<lparr> tokens := refill (max_tokens b) (last_refill b) now (tokens b) - bytes, last_refill := now \<rparr>)"
    by (simp add: numeral_eq_Suc)
  with False show ?thesis by (intro exI [of _ 5]) (simp add: try_send_def)
qed

lemma schedule_steps: "bucket_step\<^sup>*\<^sup>* w (schedule is w)"
proof (induction "is" w rule: schedule.induct)
  case (2 i "is" w)
  obtain pc' b' where s: "send_pc_step (clock_ms w) (shared w) (pcs w i) = (pc', b')" by fastforce
  then have "bucket_step w (w\<lparr> shared := b', pcs := (pcs w)(i := pc') \<rparr>)" by (rule thread_moves)
  with 2 [OF s [symmetric] refl] show ?case using s by (simp add: converse_rtranclp_into_rtranclp)
qed simp

subsection \<open>Properties\<close>

lemma refill_examples:
  "refill 1000 0 0 1000 = 1000" "refill 1000 0 100 200 = 300" "refill 1000 100 2000 0 = 1000"
  "refill 1000 0 1000 0 = 1000"
  by (rule refill_eqI, simp)+

text \<open>C30: Rate bound of \<open>LeakyBucket::try_send\<close>.  In any window of time, whatever state the bucket is in
  at its start and whatever sizes are asked for, the bytes granted by successive calls are at most one full bucket plus
  what \<open>max_tokens\<close> per second adds during the window; and a bucket that was idle for a second grants
  every request of at most \<open>max_tokens\<close> bytes.\<close>

theorem bucket_rate_bound:
  assumes "sorted (map fst cs)" "\<forall>c \<in> set cs. t0 \<le> fst c \<and> fst c \<le> t1"
  shows "1000 * fst (send_all cs b) \<le> unat (max_tokens b) * (1000 + (unat t1 - unat t0)) \<and>
    (\<forall>now bytes. unat (max_tokens b) * 1000 < 2 ^ 64 \<and> unat (last_refill b) + 1000 \<le> unat now \<and> bytes \<le> max_tokens b
       \<longrightarrow> fst (try_send now bytes b))"
proof (intro conjI allI impI)
  show "1000 * fst (send_all cs b) \<le> unat (max_tokens b) * (1000 + (unat t1 - unat t0))"
    using send_all_window [OF assms, of b] by (simp only: add_mult_distrib2 mult.commute)
next
  fix now bytes :: u64
  assume "unat (max_tokens b) * 1000 < 2 ^ 64 \<and> unat (last_refill b) + 1000 \<le> unat now \<and> bytes \<le> max_tokens b"
  then show "fst (try_send now bytes b)"
    using refill_full_after_second [of "max_tokens b" "last_refill b" now "tokens b"]
    by (simp add: try_send_def Let_def not_less)
qed

theorem bucket_rate_bound_witness:
  "1000 * fst (send_all [(0, 800), (100, 300), (2000, 1000)] (bucket_new 1000)) \<le> unat (1000 :: u64) * (1000 + (unat (2000 :: u64) - unat (0 :: u64))) \<and>
   fst (try_send 1000 1000 (bucket_new 1000)) \<and>
   fst (send_all [(0, 800), (100, 300), (2000, 1000)] (bucket_new 1000)) = 2100"
proof (intro conjI)
  have m [simp]: "max_tokens (bucket_new 1000) = 1000" "last_refill (bucket_new 1000) = 0"
    by (simp_all add: bucket_new_def)
  show "1000 * fst (send_all [(0, 800), (100, 300), (2000, 1000)] (bucket_new 1000)) \<le> unat (1000 :: u64) * (1000 + (unat (2000 :: u64) - unat (0 :: u64)))"
    using conjunct1 [OF bucket_rate_bound [of "[(0, 800), (100, 300), (2000, 1000)]" 0 2000 "bucket_new 1000"]]
    by (simp del: send_all.simps add: word_le_nat_alt)
  show "fst (try_send 1000 1000 (bucket_new 1000))"
    using spec [OF spec [OF conjunct2 [OF bucket_rate_bound [of "[]" 0 2000 "bucket_new 1000"]], of 1000], of 1000]
    by simp
  show "fst (send_all [(0, 800), (100, 300), (2000, 1000)] (bucket_new 1000)) = 2100"
    by (simp add: bucket_new_def try_send_def refill_examples)
qed

text \<open>Note: Concurrent calls can refill twice for the same elapsed time: with an empty bucket of 1000
  tokens per second that is one second old, two interleaved calls of \<open>try_send\<close> are both granted 1000 bytes, because
  the exchange of \<open>tokens\<close> and that of \<open>last_refill\<close> are separate.\<close>

theorem bucket_race_doubles_refill:
  "let w = \<lparr> shared = \<lparr> max_tokens = 1000, tokens = 0, last_refill = 0 \<rparr>, clock_ms = 1000, pcs = (\<lambda>_. AtStart 1000) \<rparr>;
       w' = schedule [0, 0, 0, 0, 1, 1, 1, 1, 0, 1] w in
   bucket_step\<^sup>*\<^sup>* w w' \<and> granted_to (pcs w' 0) + granted_to (pcs w' 1) = 2000"
proof -
  have "granted_to (pcs w' 0) + granted_to (pcs w' 1) = 2000"
    if "w' = schedule [0, 0, 0, 0, 1, 1, 1, 1, 0, 1]
          \<lparr> shared = \<lparr> max_tokens = 1000, tokens = 0, last_refill = 0 \<rparr>, clock_ms = 1000, pcs = (\<lambda>_. AtStart 1000) \<rparr>" for w'
    unfolding that by (simp add: granted_to_def refill_examples)
  then show ?thesis using schedule_steps by (simp only: Let_def)
qed

end
