(* ===== verification/Events.thy ===== *)
theory Events
  imports Axon_Prelude
begin

text \<open>
  The event monitor of \<^verbatim>\<open>events.rs\<close>: deadline, liveliness and other RMW events, the
  eventfd that wakes a waiter, and the scan of the background thread.

  \<open>event_monitor\<close> is \<open>EventMonitor\<close>; each hash table is an association list whose order stands for
  the iteration order of the table.  Instants and durations are nanoseconds, and \<open>Instant::now()\<close> is
  an argument.  The triggers of one scan carry the time
  of the scan.  The eventfd is its counter: it was created with \<open>EFD_SEMAPHORE\<close> and without
  \<open>EFD_NONBLOCK\<close>, so a read takes one off the counter and blocks when it is zero
  (\<open>Blocks\<close>).  Event counts are 64-bit signed integers with their wrap-around.

  The lemmas show what \<open>take_event\<close> reports after any history of operations, what one scan
  triggers, and where deadline monitors and the eventfd differ from their comments.
\<close>

subsection \<open>State\<close>

datatype event_kind =
    LivelinessLost
  | LivelinessChanged
  | DeadlineMissed
  | MessageLost
  | RequestedQosCompatibility

record event_state =
  ev_kind :: event_kind
  ev_count :: int
  ev_alive :: int
  ev_not_alive :: int
  ev_last_triggered :: nat

record event_monitor =
  em_events :: "(u64 \<times> event_state) list"
  em_eventfd :: nat
  em_next_handle :: u64
  em_stop :: bool
  em_deadlines :: "((u64 \<times> u64 \<times> u64) \<times> (nat \<times> nat)) list"
  em_liveliness :: "((u64 \<times> u64) \<times> (nat \<times> nat)) list"

definition wrap_i64 :: "int \<Rightarrow> int" where
  "wrap_i64 x = (x + 2 ^ 63) mod 2 ^ 64 - 2 ^ 63"

lemma wrap_i64_id: "- (2 ^ 63) \<le> x \<Longrightarrow> x < 2 ^ 63 \<Longrightarrow> wrap_i64 x = x"
  by (simp add: wrap_i64_def)

subsection \<open>Operations\<close>

definition em_new :: event_monitor where
  "em_new = \<lparr> em_events = [], em_eventfd = 0, em_next_handle = 1, em_stop = False,
              em_deadlines = [], em_liveliness = [] \<rparr>"

definition create_event :: "nat \<Rightarrow> event_kind \<Rightarrow> event_monitor \<Rightarrow> u64 \<times> event_monitor" where
  "create_event now k m =
     (let h = em_next_handle m;
          s = \<lparr> ev_kind = k, ev_count = 0, ev_alive = 0, ev_not_alive = 0, ev_last_triggered = now \<rparr> in
      (h, m\<lparr> em_next_handle := h + 1, em_events := insert_kv h s (em_events m) \<rparr>))"

definition take_event ::
  "u64 \<Rightarrow> event_monitor \<Rightarrow> ((int \<times> nat \<times> int \<times> int) option \<times> event_monitor) blocking" where
  "take_event h m =
     (case map_of (em_events m) h of
        None \<Rightarrow> Completes (None, m)
      | Some s \<Rightarrow>
          if ev_count s > 0 then
            if em_eventfd m = 0 then Blocks
            else Completes
              (Some (ev_count s, ev_last_triggered s, ev_alive s, ev_not_alive s),
               m\<lparr> em_events := adjust h (\<lambda>s. s\<lparr> ev_count := 0 \<rparr>) (em_events m),
                  em_eventfd := em_eventfd m - 1 \<rparr>)
          else Completes (None, m))"

definition destroy_event :: "u64 \<Rightarrow> event_monitor \<Rightarrow> event_monitor" where
  "destroy_event h m = m\<lparr> em_events := remove_kv h (em_events m) \<rparr>"

definition bump :: "nat \<Rightarrow> event_state \<Rightarrow> event_state" where
  "bump now s = s\<lparr> ev_count := wrap_i64 (ev_count s + 1), ev_last_triggered := now \<rparr>"

definition trigger_event :: "nat \<Rightarrow> u64 \<Rightarrow> event_monitor \<Rightarrow> event_monitor" where
  "trigger_event now h m =
     m\<lparr> em_events := adjust h (bump now) (em_events m), em_eventfd := em_eventfd m + 1 \<rparr>"

definition trigger_liveliness_changed :: "nat \<Rightarrow> u64 \<Rightarrow> int \<Rightarrow> int \<Rightarrow> event_monitor \<Rightarrow> event_monitor" where
  "trigger_liveliness_changed now h a na m =
     m\<lparr> em_events := adjust h (\<lambda>s. bump now (s\<lparr> ev_alive := a, ev_not_alive := na \<rparr>)) (em_events m),
        em_eventfd := em_eventfd m + 1 \<rparr>"

definition update_liveliness_counts :: "u64 \<Rightarrow> int \<Rightarrow> int \<Rightarrow> event_monitor \<Rightarrow> event_monitor" where
  "update_liveliness_counts h a na m =
     m\<lparr> em_events := adjust h (\<lambda>s. s\<lparr> ev_alive := a, ev_not_alive := na \<rparr>) (em_events m) \<rparr>"

definition register_deadline_monitor :: "nat \<Rightarrow> u64 \<Rightarrow> u64 \<Rightarrow> u64 \<Rightarrow> nat \<Rightarrow> event_monitor \<Rightarrow> event_monitor" where
  "register_deadline_monitor now h topic gid deadline m =
     m\<lparr> em_deadlines := insert_kv (h, topic, gid) (deadline, now) (em_deadlines m) \<rparr>"

definition update_deadline_publish_time :: "nat \<Rightarrow> u64 \<Rightarrow> u64 \<Rightarrow> event_monitor \<Rightarrow> event_monitor" where
  "update_deadline_publish_time now topic gid m =
     m\<lparr> em_deadlines :=
          (if gid = 0 then
             map (\<lambda>((h, th, g), (dl, since)). ((h, th, g), (dl, if th = topic then now else since))) (em_deadlines m)
           else
             map (\<lambda>((h, th, g), (dl, since)). ((h, th, g), (dl, if th = topic \<and> g = gid then now else since)))
               (em_deadlines m)) \<rparr>"

definition expired_deadlines :: "nat \<Rightarrow> event_monitor \<Rightarrow> u64 list" where
  "expired_deadlines now m =
     map (\<lambda>((h, th, g), _). h) (filter (\<lambda>(_, (deadline, since)). now - since > deadline) (em_deadlines m))"

definition check_deadlines :: "nat \<Rightarrow> event_monitor \<Rightarrow> event_monitor" where
  "check_deadlines now m = fold (trigger_event now) (expired_deadlines now m) m"

definition register_liveliness_monitor :: "nat \<Rightarrow> u64 \<Rightarrow> u64 \<Rightarrow> nat \<Rightarrow> event_monitor \<Rightarrow> event_monitor" where
  "register_liveliness_monitor now h node lease m =
     m\<lparr> em_liveliness := insert_kv (h, node) (lease, now) (em_liveliness m) \<rparr>"

definition assert_liveliness :: "nat \<Rightarrow> u64 \<Rightarrow> event_monitor \<Rightarrow> event_monitor" where
  "assert_liveliness now node m =
     m\<lparr> em_liveliness :=
          map (\<lambda>((h, n), (lease, since)). ((h, n), (lease, if n = node then now else since))) (em_liveliness m) \<rparr>"

definition lease_expired :: "nat \<Rightarrow> (u64 \<times> u64) \<times> (nat \<times> nat) \<Rightarrow> bool" where
  "lease_expired now = (\<lambda>(_, (lease, since)). now - since > lease)"

definition alive_leases :: "nat \<Rightarrow> event_monitor \<Rightarrow> int" where
  "alive_leases now m = int (length (filter (\<lambda>x. \<not> lease_expired now x) (em_liveliness m)))"

definition changed_handles :: "int \<Rightarrow> int \<Rightarrow> event_monitor \<Rightarrow> u64 list" where
  "changed_handles a na m =
     map fst (filter (\<lambda>(_, s). ev_kind s = LivelinessChanged \<and> (ev_alive s \<noteq> a \<or> ev_not_alive s \<noteq> na)) (em_events m))"

definition check_liveliness :: "nat \<Rightarrow> event_monitor \<Rightarrow> event_monitor" where
  "check_liveliness now m =
     (let a = alive_leases now m;
          na = int (length (em_liveliness m)) - a;
          m1 = fold (trigger_event now) (map (fst \<circ> fst) (filter (lease_expired now) (em_liveliness m))) m in
      fold (\<lambda>h. trigger_liveliness_changed now h a na) (changed_handles a na m1) m1)"

text \<open>One round of the background thread.\<close>

definition monitor_round :: "nat \<Rightarrow> event_monitor \<Rightarrow> event_monitor" where
  "monitor_round now m = (if em_stop m then m else check_liveliness now (check_deadlines now m))"

definition em_shutdown :: "event_monitor \<Rightarrow> event_monitor" where
  "em_shutdown m = m\<lparr> em_stop := True \<rparr>"

text \<open>The operations as a sequence of calls.  A scan is the sequence of triggers it makes.\<close>

datatype ev_op =
    EvCreate nat event_kind
  | EvTrigger nat u64
  | EvLiveliness nat u64 int int
  | EvCounts u64 int int
  | EvTake u64
  | EvDestroy u64

fun ev_exec :: "ev_op \<Rightarrow> event_monitor \<Rightarrow> event_monitor blocking" where
  "ev_exec (EvCreate now k) m = Completes (snd (create_event now k m))"
| "ev_exec (EvTrigger now h) m = Completes (trigger_event now h m)"
| "ev_exec (EvLiveliness now h a na) m = Completes (trigger_liveliness_changed now h a na m)"
| "ev_exec (EvCounts h a na) m = Completes (update_liveliness_counts h a na m)"
| "ev_exec (EvTake h) m = (case take_event h m of Completes (_, m') \<Rightarrow> Completes m' | Blocks \<Rightarrow> Blocks)"
| "ev_exec (EvDestroy h) m = Completes (destroy_event h m)"

text \<open>A history, newest operation first, from a new monitor.\<close>

fun ev_run :: "ev_op list \<Rightarrow> event_monitor blocking" where
  "ev_run [] = Completes em_new"
| "ev_run (op # r) = (case ev_run r of Completes m \<Rightarrow> ev_exec op m | Blocks \<Rightarrow> Blocks)"

subsection \<open>What a history promises\<close>

fun created :: "ev_op list \<Rightarrow> nat" where
  "created [] = 0"
| "created (EvCreate _ _ # r) = Suc (created r)"
| "created (_ # r) = created r"

fun registered :: "u64 \<Rightarrow> ev_op list \<Rightarrow> bool" where
  "registered h [] = False"
| "registered h (EvCreate _ _ # r) = (h = of_nat (Suc (created r)) \<or> registered h r)"
| "registered h (EvDestroy h' # r) = (h \<noteq> h' \<and> registered h r)"
| "registered h (_ # r) = registered h r"

text \<open>The triggers of \<open>h\<close> that no \<open>take_event\<close> has reported yet.\<close>

fun unseen :: "u64 \<Rightarrow> ev_op list \<Rightarrow> nat" where
  "unseen h [] = 0"
| "unseen h (EvCreate _ _ # r) = (if h = of_nat (Suc (created r)) then 0 else unseen h r)"
| "unseen h (EvTrigger _ h' # r) = (if h = h' then Suc (unseen h r) else unseen h r)"
| "unseen h (EvLiveliness _ h' _ _ # r) = (if h = h' then Suc (unseen h r) else unseen h r)"
| "unseen h (EvCounts _ _ _ # r) = unseen h r"
| "unseen h (EvTake h' # r) = (if h = h' then 0 else unseen h r)"
| "unseen h (EvDestroy h' # r) = unseen h r"

definition pending :: "event_monitor \<Rightarrow> int" where
  "pending m = (\<Sum>x\<leftarrow>em_events m. ev_count (snd x))"

definition ev_inv :: "ev_op list \<Rightarrow> event_monitor \<Rightarrow> bool" where
  "ev_inv r m \<longleftrightarrow>
     distinct (map fst (em_events m)) \<and> em_next_handle m = of_nat (Suc (created r)) \<and>
     (\<forall>h. (map_of (em_events m) h \<noteq> None) = registered h r) \<and>
     (\<forall>h s. map_of (em_events m) h = Some s \<longrightarrow> ev_count s = int (unseen h r)) \<and>
     pending m \<le> int (em_eventfd m)"

lemma created_le: "created r \<le> length r"
  by (induction r rule: created.induct) auto

lemma unseen_le: "unseen h r \<le> length r"
  by (induction h r rule: unseen.induct) auto

lemma registered_bound: "registered h r \<Longrightarrow> \<exists>k \<le> created r. 0 < k \<and> h = of_nat k"
  by (induction h r rule: registered.induct) (auto intro: le_SucI)

lemma fresh_handle:
  assumes "length r < 2 ^ 63" "registered h r"
  shows "h \<noteq> of_nat (Suc (created r))"
proof
  assume eq: "h = of_nat (Suc (created r))"
  obtain k where k: "k \<le> created r" "h = of_nat k" using registered_bound [OF assms(2)] by blast
  have small: "Suc (created r) < 2 ^ 64" using created_le [of r] assms(1) by simp
  then have "unat (of_nat (Suc (created r)) :: u64) = Suc (created r)" "unat (of_nat k :: u64) = k"
    using k(1) unat_of_nat64 [of k] unat_of_nat64 [of "Suc (created r)"] by simp_all
  with eq k show False by simp
qed

lemma pending_nonneg:
  assumes "ev_inv r m" "x \<in> set (em_events m)"
  shows "0 \<le> ev_count (snd x)"
proof -
  have "map_of (em_events m) (fst x) = Some (snd x)"
    using assms by (intro map_of_is_SomeI) (simp_all add: ev_inv_def)
  then have "ev_count (snd x) = int (unseen (fst x) r)" using assms(1) unfolding ev_inv_def by blast
  then show ?thesis by simp
qed

lemma count_le_pending:
  assumes "ev_inv r m" "map_of (em_events m) h = Some s"
  shows "ev_count s \<le> pending m"
proof -
  have "s \<in> snd ` set (em_events m)" using assms(2) by (force dest: map_of_SomeD)
  then have "ev_count s \<in> set (map (\<lambda>x. ev_count (snd x)) (em_events m))" by auto
  moreover have "\<forall>y \<in> set (map (\<lambda>x. ev_count (snd x)) (em_events m)). 0 \<le> y"
    using pending_nonneg [OF assms(1)] by auto
  ultimately show ?thesis unfolding pending_def by (intro member_le_sum_list) auto
qed

text \<open>Adjusting an event keeps keys and registration; its count and the sum move together.\<close>

lemma inv_adjust:
  assumes inv: "ev_inv r m"
    and r': "created (op # r) = created r" "\<And>h'. registered h' (op # r) = registered h' r"
      "\<And>h'. h' \<noteq> h \<Longrightarrow> unseen h' (op # r) = unseen h' r"
    and f: "\<And>s. map_of (em_events m) h = Some s \<Longrightarrow> ev_count (f s) = int (unseen h (op # r))"
    and fd: "\<And>s. map_of (em_events m) h = Some s \<Longrightarrow> ev_count (f s) - ev_count s \<le> int fd - int (em_eventfd m)"
      "map_of (em_events m) h = None \<Longrightarrow> em_eventfd m \<le> fd"
  shows "ev_inv (op # r) (m\<lparr> em_events := adjust h f (em_events m), em_eventfd := fd \<rparr>)"
proof -
  let ?m = "m\<lparr> em_events := adjust h f (em_events m), em_eventfd := fd \<rparr>"
  have "pending ?m \<le> int fd"
  proof (cases "map_of (em_events m) h")
    case None
    then have "adjust h f (em_events m) = em_events m"
      by (simp add: adjust_absent map_of_eq_None_iff)
    with inv fd(2) [OF None] show ?thesis by (simp add: pending_def ev_inv_def)
  next
    case (Some s)
    then have "pending ?m = pending m - ev_count s + ev_count (f s)"
      using sum_adjust [of "em_events m" h s ev_count f] inv by (simp add: pending_def ev_inv_def)
    with inv fd(1) [OF Some] show ?thesis by (simp add: ev_inv_def)
  qed
  with inv r' f show ?thesis by (auto simp: ev_inv_def)
qed

lemma inv_create:
  assumes "ev_inv r m" "length r < 2 ^ 63"
  shows "ev_inv (EvCreate now k # r) (snd (create_event now k m))"
proof -
  let ?h = "em_next_handle m"
  have h: "?h = of_nat (Suc (created r))" using assms(1) by (simp add: ev_inv_def)
  then have "\<not> registered ?h r" using fresh_handle [OF assms(2)] by blast
  then have "map_of (em_events m) ?h = None" using assms(1) unfolding ev_inv_def by blast
  then have out: "?h \<notin> fst ` set (em_events m)" by (simp add: map_of_eq_None_iff)
  then have "pending (snd (create_event now k m)) = pending m"
    by (simp add: create_event_def Let_def pending_def insert_kv_def)
  with assms(1) h show ?thesis
    by (auto simp: ev_inv_def create_event_def Let_def split: if_splits)
qed

lemma inv_destroy:
  assumes "ev_inv r m"
  shows "ev_inv (EvDestroy h # r) (destroy_event h m)"
proof -
  have "pending (destroy_event h m) \<le> pending m"
    using sum_remove [of "em_events m" ev_count h] pending_nonneg [OF assms]
    by (simp add: pending_def destroy_event_def)
  with assms show ?thesis by (auto simp: ev_inv_def destroy_event_def split: if_splits)
qed

lemma count_after_bump:
  assumes "ev_inv r m" "length r < 2 ^ 63 - 1" "map_of (em_events m) h = Some s"
  shows "wrap_i64 (ev_count s + 1) = int (Suc (unseen h r))"
proof -
  have "ev_count s = int (unseen h r)" using assms by (simp add: ev_inv_def)
  with unseen_le [of h r] assms(2) show ?thesis by (simp add: wrap_i64_id)
qed

lemma inv_take:
  assumes "ev_inv r m"
  shows "\<exists>m'. take_event h m =
           Completes (if registered h r \<and> 0 < unseen h r
                      then map_option (\<lambda>s. (int (unseen h r), ev_last_triggered s, ev_alive s, ev_not_alive s)) (map_of (em_events m) h)
                      else None, m') \<and>
         ev_inv (EvTake h # r) m'"
proof (cases "map_of (em_events m) h")
  case None
  with assms have "\<not> registered h r" unfolding ev_inv_def by blast
  moreover have "ev_inv (EvTake h # r) m"
    using assms None by (auto simp: ev_inv_def)
  ultimately show ?thesis using None by (simp add: take_event_def)
next
  case (Some s)
  then have reg: "registered h r" using assms unfolding ev_inv_def by blast
  have c: "ev_count s = int (unseen h r)" using assms Some by (simp add: ev_inv_def)
  show ?thesis
  proof (cases "0 < unseen h r")
    case True
    then have fd: "0 < em_eventfd m"
      using count_le_pending [OF assms Some] c assms by (simp add: ev_inv_def)
    let ?m = "m\<lparr> em_events := adjust h (\<lambda>s. s\<lparr> ev_count := 0 \<rparr>) (em_events m), em_eventfd := em_eventfd m - 1 \<rparr>"
    have "ev_inv (EvTake h # r) ?m"
      by (rule inv_adjust [OF assms]) (use True fd c Some reg assms in \<open>auto simp: ev_inv_def\<close>)
    with True reg fd c Some show ?thesis by (simp add: take_event_def)
  next
    case False
    with assms Some c have "ev_inv (EvTake h # r) m" by (auto simp: ev_inv_def)
    with False Some c show ?thesis by (simp add: take_event_def)
  qed
qed

lemma inv_exec:
  assumes "ev_inv r m" "length r < 2 ^ 63 - 1"
  shows "\<exists>m'. ev_exec op m = Completes m' \<and> ev_inv (op # r) m'"
proof (cases op)
  case (EvCreate now k)
  then show ?thesis using inv_create [OF assms(1)] assms(2) by simp
next
  case (EvTrigger now h)
  have "ev_inv (EvTrigger now h # r) (trigger_event now h m)"
    unfolding trigger_event_def
    by (rule inv_adjust [OF assms(1)])
      (use count_after_bump [OF assms] assms(1) in \<open>auto simp: bump_def ev_inv_def\<close>)
  with EvTrigger show ?thesis by simp
next
  case (EvLiveliness now h a na)
  have "ev_inv (EvLiveliness now h a na # r) (trigger_liveliness_changed now h a na m)"
    unfolding trigger_liveliness_changed_def
    by (rule inv_adjust [OF assms(1)])
      (use count_after_bump [OF assms] assms(1) in \<open>auto simp: bump_def ev_inv_def\<close>)
  with EvLiveliness show ?thesis by simp
next
  case (EvCounts h a na)
  have "ev_inv (EvCounts h a na # r)
      (m\<lparr> em_events := adjust h (\<lambda>s. s\<lparr> ev_alive := a, ev_not_alive := na \<rparr>) (em_events m), em_eventfd := em_eventfd m \<rparr>)"
    by (rule inv_adjust [OF assms(1)]) (use assms(1) in \<open>auto simp: ev_inv_def\<close>)
  with EvCounts show ?thesis by (simp add: update_liveliness_counts_def)
next
  case (EvTake h)
  then show ?thesis using inv_take [OF assms(1), of h] by force
next
  case (EvDestroy h)
  then show ?thesis using inv_destroy [OF assms(1)] by simp
qed

lemma run_inv: "length r < 2 ^ 63 \<Longrightarrow> \<exists>m. ev_run r = Completes m \<and> ev_inv r m"
proof (induction r)
  case Nil
  show ?case by (simp add: ev_inv_def em_new_def pending_def)
next
  case (Cons op r)
  then obtain m where m: "ev_run r = Completes m" "ev_inv r m" by auto
  obtain m' where "ev_exec op m = Completes m'" "ev_inv (op # r) m'"
    using inv_exec [OF m(2), of op] Cons.prems by auto
  with m(1) show ?case by simp
qed

subsection \<open>What a scan triggers\<close>

lemma wrap_wrap: "wrap_i64 (wrap_i64 x + y) = wrap_i64 (x + y)"
proof -
  have "((x + 2 ^ 63) mod 2 ^ 64 - 2 ^ 63 + y + 2 ^ 63) mod 2 ^ 64 = ((x + 2 ^ 63) mod 2 ^ 64 + y) mod 2 ^ 64"
    by (simp add: algebra_simps)
  also have "\<dots> = (x + 2 ^ 63 + y) mod 2 ^ 64" by (simp only: mod_add_left_eq)
  finally show ?thesis by (simp add: wrap_i64_def algebra_simps)
qed

definition i64_range :: "int \<Rightarrow> bool" where
  "i64_range x \<longleftrightarrow> - (2 ^ 63) \<le> x \<and> x < 2 ^ 63"

lemma fold_trigger:
  assumes "map_of (em_events m) h = Some s" "i64_range (ev_count s)"
  shows "\<exists>s'. map_of (em_events (fold (trigger_event now) hs m)) h = Some s' \<and>
     ev_count s' = wrap_i64 (ev_count s + int (count_list hs h)) \<and>
     ev_kind s' = ev_kind s \<and> ev_alive s' = ev_alive s \<and> ev_not_alive s' = ev_not_alive s"
  using assms
proof (induction hs arbitrary: m s)
  case Nil
  then show ?case by (simp add: wrap_i64_id i64_range_def)
next
  case (Cons h' hs)
  show ?case
  proof (cases "h' = h")
    case True
    have "i64_range (wrap_i64 x)" for x by (auto simp: i64_range_def wrap_i64_def)
    moreover have "map_of (em_events (trigger_event now h m)) h = Some (bump now s)"
      using Cons.prems(1) by (simp add: trigger_event_def)
    ultimately obtain s' where "map_of (em_events (fold (trigger_event now) hs (trigger_event now h m))) h = Some s'"
        "ev_count s' = wrap_i64 (ev_count (bump now s) + int (count_list hs h))"
        "ev_kind s' = ev_kind s" "ev_alive s' = ev_alive s" "ev_not_alive s' = ev_not_alive s"
      using Cons.IH [of "trigger_event now h m" "bump now s"] by (auto simp: bump_def)
    moreover from this(2) have "ev_count s' = wrap_i64 (ev_count s + int (count_list (h' # hs) h))"
      using True by (simp add: bump_def wrap_wrap) (simp add: ac_simps)
    ultimately show ?thesis using True by simp
  next
    case False
    then have "map_of (em_events (trigger_event now h' m)) h = Some s"
      using Cons.prems(1) by (simp add: trigger_event_def)
    from Cons.IH [OF this Cons.prems(2)] False show ?thesis by simp
  qed
qed

lemma fold_trigger_keys:
  "map fst (em_events (fold (trigger_event now) hs m)) = map fst (em_events m)"
  by (induction hs arbitrary: m) (simp_all add: trigger_event_def)

lemma fold_changed:
  assumes "distinct hs"
  shows "map_of (em_events (fold (\<lambda>h. trigger_liveliness_changed now h a na) hs m)) h =
    (if h \<in> set hs then map_option (\<lambda>s. bump now (s\<lparr> ev_alive := a, ev_not_alive := na \<rparr>)) (map_of (em_events m) h)
     else map_of (em_events m) h)"
  using assms
proof (induction hs arbitrary: m)
  case (Cons h' hs)
  then show ?case by (simp add: trigger_liveliness_changed_def)
qed simp

lemma changed_handles_iff:
  assumes "distinct (map fst (em_events m))" "map_of (em_events m) h = Some s"
  shows "h \<in> set (changed_handles a na m) \<longleftrightarrow>
    ev_kind s = LivelinessChanged \<and> (ev_alive s \<noteq> a \<or> ev_not_alive s \<noteq> na)"
proof -
  have "(h, s') \<in> set (em_events m) \<longleftrightarrow> s' = s" for s'
    using assms map_of_eq_Some_iff [OF assms(1)] by (metis option.inject)
  then show ?thesis by (force simp: changed_handles_def)
qed

lemma distinct_changed: "distinct (map fst (em_events m)) \<Longrightarrow> distinct (changed_handles a na m)"
  by (simp add: changed_handles_def distinct_map_filter)

subsection \<open>Deadline monitors\<close>

text \<open>The publications a monitor with key \<open>(h, th, g)\<close> counts: those of its topic that name its
  publisher, or name none.\<close>

definition resets :: "u64 \<Rightarrow> u64 \<Rightarrow> u64 \<Rightarrow> u64 \<Rightarrow> bool" where
  "resets th g topic gid \<longleftrightarrow> th = topic \<and> (gid = 0 \<or> g = gid)"

fun deadline_run :: "(nat \<times> u64 \<times> u64) list \<Rightarrow> event_monitor \<Rightarrow> event_monitor" where
  "deadline_run [] m = m"
| "deadline_run ((now, topic, gid) # us) m = deadline_run us (update_deadline_publish_time now topic gid m)"

fun latest_reset :: "u64 \<Rightarrow> u64 \<Rightarrow> (nat \<times> u64 \<times> u64) list \<Rightarrow> nat \<Rightarrow> nat" where
  "latest_reset th g [] since = since"
| "latest_reset th g ((now, topic, gid) # us) since =
     latest_reset th g us (if resets th g topic gid then now else since)"

lemma update_deadline_lookup:
  "map_of (em_deadlines (update_deadline_publish_time now topic gid m)) (h, th, g) =
   map_option (\<lambda>(dl, since). (dl, if resets th g topic gid then now else since)) (map_of (em_deadlines m) (h, th, g))"
proof -
  have "map_of (map (\<lambda>((h, th, g), (dl, since)). ((h, th, g), (dl, if P th g then now else since))) xs) (h, th, g) =
      map_option (\<lambda>(dl, since). (dl, if P th g then now else since)) (map_of xs (h, th, g))"
    for P and xs :: "((u64 \<times> u64 \<times> u64) \<times> (nat \<times> nat)) list"
    by (induction xs) auto
  then show ?thesis
    by (cases "gid = 0") (simp_all add: update_deadline_publish_time_def resets_def)
qed

lemma deadline_run_lookup:
  "map_of (em_deadlines m) (h, th, g) = Some (dl, since) \<Longrightarrow>
   map_of (em_deadlines (deadline_run us m)) (h, th, g) = Some (dl, latest_reset th g us since)"
  by (induction us m arbitrary: since rule: deadline_run.induct) (auto simp: update_deadline_lookup)

lemma update_deadline_keys [simp]:
  "map fst (em_deadlines (update_deadline_publish_time now topic gid m)) = map fst (em_deadlines m)"
  by (auto simp: update_deadline_publish_time_def)

lemma deadline_run_keys [simp]: "map fst (em_deadlines (deadline_run us m)) = map fst (em_deadlines m)"
  by (induction us m rule: deadline_run.induct) auto

text \<open>A handle with one monitor is among the expired ones exactly when that monitor is overdue.\<close>

lemma expired_iff:
  assumes "distinct (map fst (em_deadlines m))" "map_of (em_deadlines m) (h, th, g) = Some (dl, since)"
    "\<forall>k \<in> fst ` set (em_deadlines m). fst k = h \<longrightarrow> k = (h, th, g)"
  shows "h \<in> set (expired_deadlines now m) \<longleftrightarrow> since + dl < now"
proof -
  have "((h, th', g'), v) \<in> set (em_deadlines m) \<longleftrightarrow> th' = th \<and> g' = g \<and> v = (dl, since)" for th' g' v
    using assms map_of_eq_Some_iff [OF assms(1)] by (metis (no_types, lifting) Pair_inject fst_conv image_eqI option.inject)
  then show ?thesis by (force simp: expired_deadlines_def)
qed

lemma latest_reset_other:
  "\<forall>u \<in> set us. snd (snd u) \<noteq> 0 \<and> snd (snd u) \<noteq> g \<Longrightarrow> latest_reset th g us since = since"
  by (induction us arbitrary: since) (auto simp: resets_def)

lemma register_deadline_lookup [simp]:
  "map_of (em_deadlines (register_deadline_monitor now h th g dl m)) =
     (map_of (em_deadlines m))((h, th, g) \<mapsto> (dl, now))"
  by (simp add: register_deadline_monitor_def)

lemma register_deadline_keys:
  assumes "distinct (map fst (em_deadlines m))"
    "\<forall>k \<in> fst ` set (em_deadlines m). fst k = h \<longrightarrow> k = (h, th, g)"
  shows "distinct (map fst (em_deadlines (register_deadline_monitor now h th g dl m))) \<and>
    (\<forall>k \<in> fst ` set (em_deadlines (register_deadline_monitor now h th g dl m)). fst k = h \<longrightarrow> k = (h, th, g))"
proof -
  have "fst ` set (em_deadlines (register_deadline_monitor now h th g dl m)) =
      insert (h, th, g) (fst ` set (em_deadlines m))"
    by (simp add: register_deadline_monitor_def keys_insert_kv)
  with assms show ?thesis by (auto simp: register_deadline_monitor_def simp del: image_eqI)
qed

subsection \<open>Properties\<close>



text \<open>Note: One \<open>take_event\<close> does not drain the eventfd after a burst: when an event was
  triggered \<open>n + 1\<close> times before it is taken, all \<open>n + 1\<close> triggers are reported at once but the eventfd keeps
  \<open>n\<close> wake-ups, so a waiter is woken \<open>n\<close> more times although no event is left to take.\<close>

theorem burst_leaves_wakeups:
  assumes "n < 2 ^ 63 - 1"
  shows "\<exists>m'. take_event 1 ((trigger_event now 1 ^^ Suc n) (snd (create_event t0 k em_new))) =
           Completes (Some (int (Suc n), now, 0, 0), m') \<and>
         em_eventfd m' = n \<and> take_event 1 m' = Completes (None, m')"
proof -
  let ?m = "snd (create_event t0 k em_new)"
  have tr: "em_eventfd ((trigger_event now 1 ^^ j) ?m) = j \<and>
      map_of (em_events ((trigger_event now 1 ^^ j) ?m)) 1 =
        Some \<lparr> ev_kind = k, ev_count = int j, ev_alive = 0, ev_not_alive = 0, ev_last_triggered = (if j = 0 then t0 else now) \<rparr>"
    if "j < 2 ^ 63" for j
    using that
  proof (induction j)
    case (Suc j)
    then show ?case by (simp add: trigger_event_def bump_def wrap_i64_id)
  qed (simp add: create_event_def em_new_def insert_kv_def)
  have "Suc n < 2 ^ 63" using assms by simp
  from tr [OF this] show ?thesis
    by (simp add: take_event_def del: funpow.simps)
qed

theorem burst_leaves_wakeups_witness:
  "\<exists>m'. take_event 1 ((trigger_event 7 1 ^^ 3) (snd (create_event 0 MessageLost em_new))) =
      Completes (Some (3, 7, 0, 0), m') \<and> em_eventfd m' = 2"
  using burst_leaves_wakeups [of 2 7 0 MessageLost] by (auto simp: numeral_3_eq_3)

text \<open>Note: A deadline event is triggered exactly when its monitor is overdue: a monitor registered at \<open>t0\<close>
  for a handle of its own triggers that handle in a scan at \<open>now\<close> if and only if more than the deadline has passed since the latest publication
  that resets it, or since \<open>t0\<close> when there was none; a publication resets it when the topic agrees and it carries the
  monitored publisher or no publisher.\<close>

theorem deadline_monitor_fires:
  assumes "distinct (map fst (em_deadlines m))" "\<forall>k \<in> fst ` set (em_deadlines m). fst k = h \<longrightarrow> k = (h, th, g)"
  shows "h \<in> set (expired_deadlines now (deadline_run us (register_deadline_monitor t0 h th g dl m))) \<longleftrightarrow>
    latest_reset th g us t0 + dl < now"
proof -
  let ?m = "register_deadline_monitor t0 h th g dl m"
  note keys = register_deadline_keys [OF assms, of t0 dl]
  have "map_of (em_deadlines (deadline_run us ?m)) (h, th, g) = Some (dl, latest_reset th g us t0)"
    by (rule deadline_run_lookup) simp
  moreover have "fst ` set (em_deadlines (deadline_run us ?m)) = fst ` set (em_deadlines ?m)"
    using deadline_run_keys [of us ?m] by (metis list.set_map)
  ultimately show ?thesis
    using expired_iff [of "deadline_run us ?m" h th g dl "latest_reset th g us t0" now] keys by simp
qed

theorem deadline_monitor_fires_witness:
  "1 \<in> set (expired_deadlines 25 (deadline_run [(12, 5, 9)] (register_deadline_monitor 0 1 5 9 10 em_new))) \<and>
   1 \<notin> set (expired_deadlines 22 (deadline_run [(12, 5, 9)] (register_deadline_monitor 0 1 5 9 10 em_new)))"
  using deadline_monitor_fires [of em_new 1 5 9 25 "[(12, 5, 9)]" 0 10]
    deadline_monitor_fires [of em_new 1 5 9 22 "[(12, 5, 9)]" 0 10]
  by (simp add: em_new_def resets_def)

text \<open>Note: A deadline monitor for any publisher (publisher 0) is not reset by publications that carry a publisher:
  whatever such publications arrive, the scan triggers a missed deadline once the deadline has passed since registration.\<close>

theorem any_publisher_deadline_not_reset:
  assumes "\<forall>u \<in> set us. snd (snd u) \<noteq> 0" "t0 + dl < now"
  shows "h \<in> set (expired_deadlines now (deadline_run us (register_deadline_monitor t0 h th 0 dl em_new)))"
proof -
  let ?m = "register_deadline_monitor t0 h th 0 dl em_new"
  have keys: "distinct (map fst (em_deadlines ?m))" "\<forall>k \<in> fst ` set (em_deadlines ?m). fst k = h \<longrightarrow> k = (h, th, 0)"
    using register_deadline_keys [of em_new h th 0 t0 dl] by (simp_all add: em_new_def)
  moreover have "map_of (em_deadlines (deadline_run us ?m)) (h, th, 0) = Some (dl, t0)"
    using deadline_run_lookup [of ?m h th 0 dl t0 us] latest_reset_other [of us 0 th t0] assms(1) by simp
  moreover have "fst ` set (em_deadlines (deadline_run us ?m)) = fst ` set (em_deadlines ?m)"
    using deadline_run_keys [of us ?m] by (metis list.set_map)
  ultimately show ?thesis using assms(2) expired_iff [of "deadline_run us ?m" h th 0 dl t0 now] by simp
qed

theorem any_publisher_deadline_not_reset_witness:
  "1 \<in> set (expired_deadlines 101 (deadline_run [(98, 5, 9), (99, 5, 9), (100, 5, 9)] (register_deadline_monitor 0 1 5 0 10 em_new)))"
  using any_publisher_deadline_not_reset [of "[(98, 5, 9), (99, 5, 9), (100, 5, 9)]" 0 10 101 1 5] by simp

text \<open>Note: The liveliness scan leaves every \<open>LivelinessChanged\<close> event with the numbers of running and of expired leases,
  which add up to the number of monitors, and counts one trigger when these numbers changed, besides one for each
  expired lease that names the event itself.\<close>

theorem liveliness_scan_counts:
  assumes "distinct (map fst (em_events m))" "map_of (em_events m) h = Some s"
    "ev_kind s = LivelinessChanged" "i64_range (ev_count s)"
  shows "\<exists>s'. map_of (em_events (check_liveliness now m)) h = Some s' \<and>
    ev_alive s' = alive_leases now m \<and> ev_alive s' + ev_not_alive s' = int (length (em_liveliness m)) \<and>
    ev_count s' = wrap_i64 (ev_count s +
      int (count_list (map (fst \<circ> fst) (filter (lease_expired now) (em_liveliness m))) h) +
      (if (ev_alive s, ev_not_alive s) = (ev_alive s', ev_not_alive s') then 0 else 1))"
proof -
  let ?a = "alive_leases now m" and ?hs = "map (fst \<circ> fst) (filter (lease_expired now) (em_liveliness m))"
  let ?na = "int (length (em_liveliness m)) - ?a" and ?m1 = "fold (trigger_event now) ?hs m"
  obtain s1 where s1: "map_of (em_events ?m1) h = Some s1"
      "ev_count s1 = wrap_i64 (ev_count s + int (count_list ?hs h))"
      "ev_kind s1 = ev_kind s" "ev_alive s1 = ev_alive s" "ev_not_alive s1 = ev_not_alive s"
    using fold_trigger [OF assms(2,4), of now ?hs] by blast
  have d: "distinct (map fst (em_events ?m1))" using assms(1) by (simp only: fold_trigger_keys)
  have "map_of (em_events (check_liveliness now m)) h =
      (if h \<in> set (changed_handles ?a ?na ?m1) then Some (bump now (s1\<lparr> ev_alive := ?a, ev_not_alive := ?na \<rparr>)) else Some s1)"
    unfolding check_liveliness_def Let_def fold_changed [OF distinct_changed [OF d]] by (simp add: s1(1))
  moreover have "h \<in> set (changed_handles ?a ?na ?m1) \<longleftrightarrow> ev_alive s \<noteq> ?a \<or> ev_not_alive s \<noteq> ?na"
    using changed_handles_iff [OF d s1(1)] s1 assms(3) by simp
  ultimately show ?thesis using s1 by (auto simp: bump_def wrap_wrap)
qed

theorem liveliness_scan_counts_witness:
  "\<exists>s'. map_of (em_events (check_liveliness 20 (register_liveliness_monitor 0 7 3 10
           (snd (create_event 0 LivelinessChanged em_new))))) 1 = Some s' \<and>
    ev_alive s' = 0 \<and> ev_not_alive s' = 1"
  using liveliness_scan_counts [of "register_liveliness_monitor 0 7 3 10 (snd (create_event 0 LivelinessChanged em_new))" 1
      "\<lparr> ev_kind = LivelinessChanged, ev_count = 0, ev_alive = 0, ev_not_alive = 0, ev_last_triggered = 0 \<rparr>" 20]
  by (auto simp: register_liveliness_monitor_def create_event_def em_new_def insert_kv_def i64_range_def
      alive_leases_def lease_expired_def)

end
