(* ===== verification/Wire_Codec.thy ===== *)
theory Wire_Codec
  imports Axon_Prelude
begin

text \<open>
  What the wire formats of the daemons share: the error monad of the decoders, the test for
  well-formed UTF-8, and the interface of a self-delimiting codec.

  The decoders of the source keep a position in a byte slice; here the position is the list of bytes
  still to be read.  \<open>delimited_codec\<close> is the contract of an encoder and its decoder, with the lemmas
  for repeated fields; \<open>stable_codec\<close> adds that a decoder never looks past what it consumed, which makes
  it reject every truncated encoding.  The components interpret both on their codecs.
\<close>

subsection \<open>Results\<close>

definition bind_ok :: "('a, 'e) rust_result \<Rightarrow> ('a \<Rightarrow> ('b, 'e) rust_result) \<Rightarrow> ('b, 'e) rust_result" where
  "bind_ok r f = (case r of Err e \<Rightarrow> Err e | Ok x \<Rightarrow> f x)"

lemma bind_ok_simps [simp]: "bind_ok (Ok x) f = f x" "bind_ok (Err e) f = Err e"
  by (simp_all add: bind_ok_def)

lemma bind_ok_eq_Ok: "bind_ok r f = Ok y \<longleftrightarrow> (\<exists>x. r = Ok x \<and> f x = Ok y)"
  by (cases r) simp_all

text \<open>The next \<open>n\<close> bytes, or the error \<open>e\<close> when fewer are left.\<close>

definition need :: "'e \<Rightarrow> nat \<Rightarrow> bytes \<Rightarrow> (bytes \<times> bytes, 'e) rust_result" where
  "need e n bs = (if n \<le> length bs then Ok (take n bs, drop n bs) else Err e)"

lemma need_append [simp, codec_simps]: "length xs = n \<Longrightarrow> need e n (xs @ ys) = Ok (xs, ys)"
  by (auto simp: need_def)

lemma need_exact [simp]: "length xs = n \<Longrightarrow> need e n xs = Ok (xs, [])"
  by (simp add: need_def)

lemma need_short: "length bs < n \<Longrightarrow> need e n bs = Err e"
  by (simp add: need_def)

primrec dec_many ::
  "(bytes \<Rightarrow> ('a \<times> bytes, 'e) rust_result) \<Rightarrow> nat \<Rightarrow> bytes \<Rightarrow> ('a list \<times> bytes, 'e) rust_result" where
  "dec_many dec 0 bs = Ok ([], bs)"
| "dec_many dec (Suc n) bs =
     bind_ok (dec bs) (\<lambda>(x, r). bind_ok (dec_many dec n r) (\<lambda>(xs, r'). Ok (x # xs, r')))"

subsection \<open>UTF-8\<close>

definition utf8_cont :: "byte \<Rightarrow> bool" where
  "utf8_cont b \<longleftrightarrow> 0x80 \<le> b \<and> b \<le> 0xBF"

text \<open>\<open>std::str::from_utf8\<close> accepts exactly the well-formed sequences: no overlong forms, no
  surrogates, nothing above U+10FFFF.\<close>

fun utf8_valid :: "bytes \<Rightarrow> bool" where
  "utf8_valid [] = True"
| "utf8_valid (a # r) =
     (if a < 0x80 then utf8_valid r
      else if 0xC2 \<le> a \<and> a \<le> 0xDF then
        (case r of b # r' \<Rightarrow> utf8_cont b \<and> utf8_valid r' | _ \<Rightarrow> False)
      else if 0xE0 \<le> a \<and> a \<le> 0xEF then
        (case r of b # c # r' \<Rightarrow>
             (if a = 0xE0 then 0xA0 \<le> b \<and> b \<le> 0xBF
              else if a = 0xED then 0x80 \<le> b \<and> b \<le> 0x9F else utf8_cont b) \<and>
             utf8_cont c \<and> utf8_valid r'
         | _ \<Rightarrow> False)
      else if 0xF0 \<le> a \<and> a \<le> 0xF4 then
        (case r of b # c # d # r' \<Rightarrow>
             (if a = 0xF0 then 0x90 \<le> b \<and> b \<le> 0xBF
              else if a = 0xF4 then 0x80 \<le> b \<and> b \<le> 0x8F else utf8_cont b) \<and>
             utf8_cont c \<and> utf8_cont d \<and> utf8_valid r'
         | _ \<Rightarrow> False)
      else False)"

definition from_utf8 :: "bytes \<Rightarrow> string option" where
  "from_utf8 bs = (if utf8_valid bs then Some (string_of_bytes bs) else None)"

text \<open>The invariant of a Rust \<open>String\<close>.\<close>

definition str_ok :: "string \<Rightarrow> bool" where
  "str_ok s \<longleftrightarrow> utf8_valid (as_bytes s)"

lemma from_utf8_as_bytes [simp, codec_simps]: "str_ok s \<Longrightarrow> from_utf8 (as_bytes s) = Some s"
  by (simp add: from_utf8_def str_ok_def)

lemma from_utf8_ok: "from_utf8 bs = Some s \<Longrightarrow> str_ok s \<and> as_bytes s = bs"
  by (auto simp: from_utf8_def str_ok_def split: if_splits)

lemma utf8_ascii: "\<forall>b \<in> set bs. b < 0x80 \<Longrightarrow> utf8_valid bs"
  by (induction bs) auto

lemma str_ok_Nil [simp]: "str_ok []"
  by (simp add: str_ok_def as_bytes_def)

subsection \<open>Decoders that do not look ahead\<close>

definition stable_dec :: "(bytes \<Rightarrow> ('a \<times> bytes, 'e) rust_result) \<Rightarrow> bool" where
  "stable_dec dec \<longleftrightarrow> (\<forall>bs x r s. dec bs = Ok (x, r) \<longrightarrow> dec (bs @ s) = Ok (x, r @ s))"

named_theorems stable_intros \<open>decoders built from stable decoders are stable\<close>

lemma stable_decI: "(\<And>bs x r s. dec bs = Ok (x, r) \<Longrightarrow> dec (bs @ s) = Ok (x, r @ s)) \<Longrightarrow> stable_dec dec"
  by (simp add: stable_dec_def)

lemma stable_decD: "stable_dec dec \<Longrightarrow> dec bs = Ok (x, r) \<Longrightarrow> dec (bs @ s) = Ok (x, r @ s)"
  by (simp add: stable_dec_def)

lemma stable_need [stable_intros]: "stable_dec (need e n)"
  by (auto simp: stable_dec_def need_def split: if_splits)

lemma stable_return [stable_intros]: "stable_dec (\<lambda>bs. Ok (x, bs))"
  by (simp add: stable_dec_def)

lemma stable_fail [stable_intros]: "stable_dec (\<lambda>bs. Err e)"
  by (simp add: stable_dec_def)

lemma stable_bind [stable_intros]:
  assumes "stable_dec d" "\<And>x. stable_dec (f x)"
  shows "stable_dec (\<lambda>bs. bind_ok (d bs) (\<lambda>(x, r). f x r))"
proof (rule stable_decI)
  fix bs y r s
  assume "bind_ok (d bs) (\<lambda>(x, r). f x r) = Ok (y, r)"
  then obtain x r1 where d: "d bs = Ok (x, r1)" and f: "f x r1 = Ok (y, r)"
    by (auto simp: bind_ok_eq_Ok)
  then show "bind_ok (d (bs @ s)) (\<lambda>(x, r). f x r) = Ok (y, r @ s)"
    using stable_decD [OF assms(1) d, of s] stable_decD [OF assms(2) f, of s] by simp
qed

lemma stable_if [stable_intros]:
  "stable_dec d \<Longrightarrow> stable_dec d' \<Longrightarrow> stable_dec (\<lambda>bs. if P then d bs else d' bs)"
  by (cases P) simp_all

lemma stable_case_option [stable_intros]:
  "(\<And>x. stable_dec (d x)) \<Longrightarrow> stable_dec d' \<Longrightarrow>
   stable_dec (\<lambda>bs. case v of Some x \<Rightarrow> d x bs | None \<Rightarrow> d' bs)"
  by (cases v) simp_all

lemma stable_many [stable_intros]: "stable_dec dec \<Longrightarrow> stable_dec (dec_many dec n)"
proof (induction n)
  case 0
  show ?case by (simp add: stable_dec_def)
next
  case (Suc n)
  have "stable_dec (\<lambda>bs. bind_ok (dec bs) (\<lambda>(x, r). bind_ok (dec_many dec n r) (\<lambda>(xs, r'). Ok (x # xs, r'))))"
    by (intro stable_intros Suc.prems Suc.IH)
  then show ?case by (simp add: stable_dec_def)
qed

subsection \<open>The contract of a codec\<close>

locale delimited_codec =
  fixes enc :: "'a \<Rightarrow> bytes"
    and dec :: "bytes \<Rightarrow> ('a \<times> bytes, 'e) rust_result"
    and ok :: "'a \<Rightarrow> bool"
  assumes dec_enc: "ok x \<Longrightarrow> dec (enc x @ rest) = Ok (x, rest)"
begin

lemma dec_many_enc:
  "list_all ok xs \<Longrightarrow> dec_many dec (length xs) (concat (map enc xs) @ rest) = Ok (xs, rest)"
  by (induction xs arbitrary: rest) (simp_all add: dec_enc)

lemma enc_prefix_free:
  assumes "ok x" "ok y" "enc x @ r = enc y @ r'"
  shows "x = y \<and> r = r'"
proof -
  have "Ok (x, r) = (Ok (y, r') :: ('a \<times> bytes, 'e) rust_result)"
    unfolding dec_enc [OF assms(1), of r, symmetric] dec_enc [OF assms(2), of r', symmetric]
    by (simp only: assms(3))
  then show ?thesis by simp
qed

lemma enc_injective: "ok x \<Longrightarrow> ok y \<Longrightarrow> enc x = enc y \<Longrightarrow> x = y"
  using enc_prefix_free [of x y "[]" "[]"] by simp

end

locale stable_codec = delimited_codec +
  assumes stable: "stable_dec dec"
begin

lemma truncated_rejected:
  assumes "ok x" "n < length (enc x)"
  shows "\<exists>e. dec (take n (enc x)) = Err e"
proof (cases "dec (take n (enc x))")
  case (Inr p)
  obtain y r where p: "p = (y, r)" by fastforce
  have "dec (take n (enc x) @ drop n (enc x)) = Ok (y, r @ drop n (enc x))"
    using stable_decD [OF stable, of "take n (enc x)"] Inr p by blast
  then have "(y, r @ drop n (enc x)) = (x, [])" using dec_enc [OF assms(1), of "[]"] by simp
  with assms(2) show ?thesis by simp
qed simp

lemma truncated_many_rejected:
  assumes "list_all ok xs" "n < length (concat (map enc xs))"
  shows "\<exists>e. dec_many dec (length xs) (take n (concat (map enc xs))) = Err e"
proof (cases "dec_many dec (length xs) (take n (concat (map enc xs)))")
  case (Inr p)
  let ?bs = "concat (map enc xs)"
  obtain ys r where p: "p = (ys, r)" by fastforce
  have "dec_many dec (length xs) (take n ?bs @ drop n ?bs) = Ok (ys, r @ drop n ?bs)"
    using stable_decD [OF stable_many [OF stable], of "length xs" "take n ?bs"] Inr p by blast
  then have "(ys, r @ drop n ?bs) = (xs, [])" using dec_many_enc [OF assms(1), of "[]"] by simp
  with assms(2) show ?thesis by simp
qed simp

end

subsection \<open>Integers\<close>

definition read_u16 :: "'e \<Rightarrow> bytes \<Rightarrow> (u16 \<times> bytes, 'e) rust_result" where
  "read_u16 e bs = bind_ok (need e 2 bs) (\<lambda>(x, r). Ok (from_le x, r))"

definition read_u32 :: "'e \<Rightarrow> bytes \<Rightarrow> (u32 \<times> bytes, 'e) rust_result" where
  "read_u32 e bs = bind_ok (need e 4 bs) (\<lambda>(x, r). Ok (from_le x, r))"

lemma stable_read_ints [stable_intros]: "stable_dec (read_u16 e)" "stable_dec (read_u32 e)"
  unfolding read_u16_def read_u32_def by (intro stable_intros)+

lemma read_int_append [simp, codec_simps]:
  "read_u16 e (u16_to_le a @ r) = Ok (a, r)" "read_u32 e (u32_to_le b @ r) = Ok (b, r)"
  by (simp_all add: read_u16_def read_u32_def)

lemma int_bytes_nonempty [simp]:
  "u16_to_le a \<noteq> []" "u32_to_le b \<noteq> []" "u64_to_le c \<noteq> []"
  using length_int_bytes(1) [of a] length_int_bytes(2) [of b] length_int_bytes(3) [of c] by fastforce+

lemma concat_u32_length [simp, size_simps]: "length (concat (map u32_to_le ds)) = 4 * length ds"
  by (induction ds) simp_all

interpretation u32c: stable_codec u32_to_le "read_u32 e" "\<lambda>_. True" for e
  by unfold_locales (simp_all add: stable_intros)

end
