(* ===== verification/Peer_Discovery.thy ===== *)
theory Peer_Discovery
  imports Wire_Codec Security_Mode
begin

text \<open>
  How daemons find each other (\<^verbatim>\<open>daemon/peer_discovery.rs\<close>): the HELLO message, its encoding, and
  what the multicast listener does with a datagram.

  The decoder accepts two older formats that end before the security mode or before the SAE
  identity.  The lemmas show the round trip, and that those two are the only truncations it accepts.
  Sockets and interfaces are not modelled; a datagram is the argument of \<open>on_datagram\<close>.
\<close>

subsection \<open>Messages\<close>

record hello_daemon =
  hello_daemon_id :: u64
  hello_quic_port :: u16
  hello_domains :: "u32 list"
  hello_generation :: u64
  hello_qkd_sae_id :: "string option"
  hello_security_mode :: security_mode

definition sae_bytes :: "hello_daemon \<Rightarrow> bytes" where
  "sae_bytes h = as_bytes (case hello_qkd_sae_id h of None \<Rightarrow> [] | Some s \<Rightarrow> s)"

definition encode_hello_daemon :: "hello_daemon \<Rightarrow> bytes" where
  "encode_hello_daemon h =
     [0xDD] @ u64_to_le (hello_daemon_id h) @ u16_to_le (hello_quic_port h) @
     u64_to_le (hello_generation h) @ u16_to_le (of_nat (length (hello_domains h))) @
     concat (map u32_to_le (hello_domains h)) @
     u16_to_le (of_nat (length (sae_bytes h))) @ sae_bytes h @ [wire_value (hello_security_mode h)]"

text \<open>What follows the domains: nothing, an SAE identity, or an SAE identity and a mode.\<close>

definition decode_hello_tail :: "bytes \<Rightarrow> (string option \<times> security_mode, string) rust_result" where
  "decode_hello_tail r =
     (if r = [] then Ok (None, Classic)
      else if length r < 2 then Err ''truncated qkd sae length''
      else
        (let len = unat (from_le (take 2 r) :: u16); r = drop 2 r in
         if length r < len then Err ''truncated qkd sae id''
         else
           bind_ok (if len = 0 then Ok None
                    else case from_utf8 (take len r) of
                           Some s \<Rightarrow> Ok (Some s) | None \<Rightarrow> Err ''invalid qkd sae id'')
             (\<lambda>sae.
               let r = drop len r in
               bind_ok (if r = [] then Ok Classic
                        else if length r = 1 then
                          (case mode_from_wire (hd r) of
                             Some m \<Rightarrow> Ok m | None \<Rightarrow> Err ''invalid security mode'')
                        else Err ''trailing hello data'')
                 (\<lambda>m. Ok (sae, m)))))"

definition decode_hello_daemon :: "bytes \<Rightarrow> (hello_daemon, string) rust_result" where
  "decode_hello_daemon buf =
     (if length buf < 21 \<or> hd buf \<noteq> 0xDD then Err ''bad magic''
      else
        (let daemon_id = from_le (take 8 (drop 1 buf));
             quic_port = from_le (take 2 (drop 9 buf));
             generation = from_le (take 8 (drop 11 buf));
             domain_count = unat (from_le (take 2 (drop 19 buf)) :: u16) in
         bind_ok (dec_many (read_u32 ''truncated'') domain_count (drop 21 buf))
           (\<lambda>(domains, r).
             bind_ok (decode_hello_tail r)
               (\<lambda>(sae, m). Ok \<lparr> hello_daemon_id = daemon_id, hello_quic_port = quic_port,
                   hello_domains = domains, hello_generation = generation,
                   hello_qkd_sae_id = sae, hello_security_mode = m \<rparr>))))"

text \<open>The listener copies a datagram into a buffer of 1024 bytes; the rest of a longer one is lost.\<close>

datatype dispatched = Hello hello_daemon | QkdControl bytes | Ignored

definition on_datagram :: "bytes \<Rightarrow> dispatched" where
  "on_datagram packet =
     (let buf = take 1024 packet in
      if buf \<noteq> [] \<and> hd buf = 0xDD then
        (case decode_hello_daemon buf of Ok h \<Rightarrow> Hello h | Err _ \<Rightarrow> Ignored)
      else if buf \<noteq> [] \<and> hd buf \<in> {0x51, 0x52, 0x53} then QkdControl buf
      else Ignored)"

text \<open>A HELLO the wire can carry: counts that fit 16 bits, and an identity that is a
  non-empty string.\<close>

definition hello_ok :: "hello_daemon \<Rightarrow> bool" where
  "hello_ok h \<longleftrightarrow> length (hello_domains h) < 2 ^ 16 \<and>
     (case hello_qkd_sae_id h of None \<Rightarrow> True | Some s \<Rightarrow> s \<noteq> [] \<and> str_ok s \<and> length s < 2 ^ 16)"

subsection \<open>The header\<close>

definition hello_header :: "hello_daemon \<Rightarrow> bytes" where
  "hello_header h =
     [0xDD] @ u64_to_le (hello_daemon_id h) @ u16_to_le (hello_quic_port h) @
     u64_to_le (hello_generation h) @ u16_to_le (of_nat (length (hello_domains h)))"

definition hello_tail :: "hello_daemon \<Rightarrow> bytes" where
  "hello_tail h = u16_to_le (of_nat (length (sae_bytes h))) @ sae_bytes h @ [wire_value (hello_security_mode h)]"

lemma encode_hello_split:
  "encode_hello_daemon h = hello_header h @ concat (map u32_to_le (hello_domains h)) @ hello_tail h"
  by (simp add: encode_hello_daemon_def hello_header_def hello_tail_def)

lemma length_hello_header [simp]: "length (hello_header h) = 21"
  by (simp add: hello_header_def)

text \<open>Decoding after an intact header.\<close>

lemma decode_after_header:
  assumes "length (hello_domains h) < 2 ^ 16"
  shows "decode_hello_daemon (hello_header h @ r) =
    bind_ok (dec_many (read_u32 ''truncated'') (length (hello_domains h)) r)
      (\<lambda>(domains, r). bind_ok (decode_hello_tail r)
        (\<lambda>(sae, m). Ok (h\<lparr> hello_domains := domains, hello_qkd_sae_id := sae, hello_security_mode := m \<rparr>)))"
proof -
  let ?b = "hello_header h @ r"
  have fields: "take 8 (drop 1 ?b) = u64_to_le (hello_daemon_id h)" "take 2 (drop 9 ?b) = u16_to_le (hello_quic_port h)"
      "take 8 (drop 11 ?b) = u64_to_le (hello_generation h)"
      "take 2 (drop 19 ?b) = u16_to_le (of_nat (length (hello_domains h)))"
    by (simp_all add: hello_header_def)
  have "\<not> length ?b < 21" "hd ?b = 0xDD" "drop 21 ?b = r" by (simp_all add: hello_header_def)
  note shape = this
  have upd: "\<lparr> hello_daemon_id = hello_daemon_id h, hello_quic_port = hello_quic_port h,
      hello_domains = domains, hello_generation = hello_generation h, hello_qkd_sae_id = sae, hello_security_mode = m \<rparr> =
      h\<lparr> hello_domains := domains, hello_qkd_sae_id := sae, hello_security_mode := m \<rparr>" for domains sae m
    by (cases h) simp
  show ?thesis
    unfolding decode_hello_daemon_def fields Let_def from_le_u64 from_le_u16 unat_of_nat16 [OF assms] upd
    by (simp only: shape simp_thms if_False)
qed

lemma short_hello: "length b < 21 \<Longrightarrow> decode_hello_daemon b = Err ''bad magic''"
  by (simp add: decode_hello_daemon_def)

lemma sae_length: "hello_ok h \<Longrightarrow> length (sae_bytes h) < 2 ^ 16"
  by (auto simp: hello_ok_def sae_bytes_def split: option.splits)

text \<open>Decoding after an intact identity.\<close>

lemma decode_tail_sae:
  assumes "hello_ok h"
  shows "decode_hello_tail (u16_to_le (of_nat (length (sae_bytes h))) @ sae_bytes h @ m) =
    bind_ok (if m = [] then Ok Classic
             else if length m = 1 then
               (case mode_from_wire (hd m) of Some x \<Rightarrow> Ok x | None \<Rightarrow> Err ''invalid security mode'')
             else Err ''trailing hello data'')
      (\<lambda>x. Ok (hello_qkd_sae_id h, x))"
proof -
  let ?r = "u16_to_le (of_nat (length (sae_bytes h))) @ sae_bytes h @ m"
  have shape: "?r \<noteq> []" "\<not> length ?r < 2" "take 2 ?r = u16_to_le (of_nat (length (sae_bytes h)))"
      "drop 2 ?r = sae_bytes h @ m"
    by simp_all
  have sae: "(if length (sae_bytes h) = 0 then Ok None
      else case from_utf8 (sae_bytes h) of Some s \<Rightarrow> Ok (Some s) | None \<Rightarrow> Err ''invalid qkd sae id'') =
      Ok (hello_qkd_sae_id h)"
    using assms by (cases "hello_qkd_sae_id h") (simp_all add: hello_ok_def sae_bytes_def)
  show ?thesis
    unfolding decode_hello_tail_def shape(3,4) from_le_u16 unat_of_nat16 [OF sae_length [OF assms]] Let_def
    by (simp only: shape if_False append_eq_conv_conj [symmetric] take_append drop_append take_all
        drop_all diff_self_eq_0 take_0 drop_0 append_Nil append_Nil2 le_refl sae bind_ok_simps length_append
        not_add_less1) simp
qed

lemma decode_tail_full:
  assumes "hello_ok h"
  shows "decode_hello_tail (hello_tail h) = Ok (hello_qkd_sae_id h, hello_security_mode h)"
  unfolding hello_tail_def decode_tail_sae [OF assms] by simp

lemma decode_domains:
  "length (hello_domains h) < 2 ^ 16 \<Longrightarrow>
   decode_hello_daemon (hello_header h @ concat (map u32_to_le (hello_domains h)) @ r) =
     bind_ok (decode_hello_tail r)
       (\<lambda>(sae, m). Ok (h\<lparr> hello_qkd_sae_id := sae, hello_security_mode := m \<rparr>))"
  using u32c.dec_many_enc [of "hello_domains h" "''truncated''" r]
  by (simp add: decode_after_header list.pred_True)

lemma three_parts:
  assumes "(n :: nat) < a + (b + c)"
  obtains "n < a" | i where "n = a + i" "i < b" | j where "n = a + (b + j)" "j < c"
proof (cases "n < a")
  case False
  then obtain i where i: "n = a + i" using le_Suc_ex not_less by blast
  show thesis
  proof (cases "i < b")
    case False
    then obtain j where "i = b + j" using le_Suc_ex not_less by blast
    with i assms that(3) show thesis by simp
  qed (use i that(2) in simp)
qed (rule that(1))

text \<open>A cut inside the tail is seen unless it removes the tail or exactly the mode.\<close>

lemma decode_tail_cut:
  assumes "hello_ok h" "j < length (hello_tail h)" "decode_hello_tail (take j (hello_tail h)) = Ok v"
  shows "(j = 0 \<and> v = (None, Classic)) \<or>
    (Suc j = length (hello_tail h) \<and> v = (hello_qkd_sae_id h, Classic))"
proof -
  let ?s = "sae_bytes h"
  note len = sae_length [OF assms(1)]
  have tl: "length (hello_tail h) = 2 + (length ?s + 1)" by (simp add: hello_tail_def)
  from assms(2) [unfolded tl] show ?thesis
  proof (cases rule: three_parts)
    case 1
    then have "length (take j (hello_tail h)) < 2" "take j (hello_tail h) = [] \<longleftrightarrow> j = 0"
      using tl by auto
    with assms(3) show ?thesis unfolding decode_hello_tail_def by (auto split: if_splits)
  next
    case (2 i)
    then have cut: "take j (hello_tail h) = u16_to_le (of_nat (length ?s)) @ take i ?s"
      by (simp add: hello_tail_def)
    have "decode_hello_tail (u16_to_le (of_nat (length ?s)) @ take i ?s) = Err ''truncated qkd sae id''"
      unfolding decode_hello_tail_def Let_def using 2(2) by (simp add: unat_of_nat16 [OF len])
    with assms(3) show ?thesis unfolding cut by simp
  next
    case (3 i)
    then have cut: "take j (hello_tail h) = u16_to_le (of_nat (length ?s)) @ ?s @ []"
      by (simp add: hello_tail_def)
    from assms(3) have "v = (hello_qkd_sae_id h, Classic)" unfolding cut decode_tail_sae [OF assms(1)] by simp
    with 3 tl show ?thesis by simp
  qed
qed

subsection \<open>Properties\<close>

text \<open>C14: HELLO messages survive the wire.  Decoding the encoding of a HELLO gives it back, and of all
  its proper prefixes the decoder accepts only the two that older daemons sent: without the identity and the mode,
  read as a classic daemon without identity, and without the mode, read as a classic daemon.\<close>

theorem hello_round_trip:
  assumes "hello_ok h"
  shows "decode_hello_daemon (encode_hello_daemon h) = Ok h \<and>
    (\<forall>n h'. n < length (encode_hello_daemon h) \<and> decode_hello_daemon (take n (encode_hello_daemon h)) = Ok h' \<longrightarrow>
       (n = 21 + 4 * length (hello_domains h) \<and> h' = h\<lparr> hello_qkd_sae_id := None, hello_security_mode := Classic \<rparr>) \<or>
       (Suc n = length (encode_hello_daemon h) \<and> h' = h\<lparr> hello_security_mode := Classic \<rparr>))"
proof (intro conjI allI impI)
  let ?d = "concat (map u32_to_le (hello_domains h))"
  have dom: "length (hello_domains h) < 2 ^ 16" using assms by (simp add: hello_ok_def)
  show "decode_hello_daemon (encode_hello_daemon h) = Ok h"
    by (simp add: encode_hello_split decode_domains [OF dom] decode_tail_full [OF assms])
  fix n h'
  assume "n < length (encode_hello_daemon h) \<and> decode_hello_daemon (take n (encode_hello_daemon h)) = Ok h'"
  then have n: "n < 21 + (length ?d + length (hello_tail h))"
      and h': "decode_hello_daemon (take n (encode_hello_daemon h)) = Ok h'"
    by (simp_all add: encode_hello_split)
  consider "n < 21" | i where "n = 21 + i" "i < length ?d"
    | j where "n = 21 + (length ?d + j)" "j < length (hello_tail h)"
    by (rule three_parts [OF n]) simp_all
  then show "(n = 21 + 4 * length (hello_domains h) \<and> h' = h\<lparr> hello_qkd_sae_id := None, hello_security_mode := Classic \<rparr>) \<or>
       (Suc n = length (encode_hello_daemon h) \<and> h' = h\<lparr> hello_security_mode := Classic \<rparr>)"
  proof cases
    case 1
    with h' show ?thesis using short_hello [of "take n (encode_hello_daemon h)"] by simp
  next
    case 2
    then have "decode_hello_daemon (take n (encode_hello_daemon h)) =
        bind_ok (dec_many (read_u32 ''truncated'') (length (hello_domains h)) (take i ?d))
          (\<lambda>(domains, r). bind_ok (decode_hello_tail r)
            (\<lambda>(sae, m). Ok (h\<lparr> hello_domains := domains, hello_qkd_sae_id := sae, hello_security_mode := m \<rparr>)))"
      using decode_after_header [OF dom, of "take i ?d"] by (simp add: encode_hello_split)
    moreover obtain e where "dec_many (read_u32 ''truncated'') (length (hello_domains h)) (take i ?d) = Err e"
      using u32c.truncated_many_rejected [of "hello_domains h" i "''truncated''"] 2(2) by (auto simp: list.pred_True)
    ultimately show ?thesis using h' by simp
  next
    case 3
    then have "take n (encode_hello_daemon h) = hello_header h @ ?d @ take j (hello_tail h)"
      by (simp add: encode_hello_split)
    with h' decode_domains [OF dom, of "take j (hello_tail h)"]
    obtain v where v: "decode_hello_tail (take j (hello_tail h)) = Ok v"
        "h' = h\<lparr> hello_qkd_sae_id := fst v, hello_security_mode := snd v \<rparr>"
      by (auto simp: bind_ok_eq_Ok)
    from decode_tail_cut [OF assms 3(2) v(1)] v(2) 3(1) show ?thesis
      by (cases h) (auto simp: encode_hello_split)
  qed
qed

theorem hello_round_trip_witness:
  "let h = \<lparr> hello_daemon_id = 7, hello_quic_port = 7500, hello_domains = [0, 42], hello_generation = 3,
             hello_qkd_sae_id = Some ''sae'', hello_security_mode = Qkd \<rparr> in
   hello_ok h \<and> decode_hello_daemon (encode_hello_daemon h) = Ok h"
proof -
  let ?h = "\<lparr> hello_daemon_id = 7, hello_quic_port = 7500, hello_domains = [0, 42], hello_generation = 3,
             hello_qkd_sae_id = Some ''sae'', hello_security_mode = Qkd \<rparr>"
  have "str_ok ''sae''" by (simp add: str_ok_def as_bytes_def)
  then have "hello_ok ?h" by (simp add: hello_ok_def)
  with hello_round_trip [of ?h] show ?thesis by (simp only: Let_def simp_thms)
qed

end
