(* ===== verification/Discovery_Shm.thy ===== *)
theory Discovery_Shm
  imports Wire_Codec Qos
begin

text \<open>
  The discovery table in shared memory (\<^verbatim>\<open>daemon/discovery_shm.rs\<close>): its entries, its segment,
  how a process claims a slot, how topics are matched, and how the daemon tells whether the process of an entry
  is alive.

  \<open>node_table_entry\<close> is \<open>NodeTableEntry\<close> with its arrays as lists of their fixed lengths (\<open>entry_wf\<close>),
  \<open>shm_discovery\<close> the header and the table of a mapped segment.  Shared memory objects are a map from names to
  segments; system calls that may fail are Boolean arguments.  The text of \<^verbatim>\<open>/proc/<pid>/stat\<close> is
  an argument.  \<open>claim_step\<close> interleaves any number of processes that claim, publish and leave slots.
\<close>

subsection \<open>Constants\<close>

abbreviation (input) MAGIC :: u32 where "MAGIC \<equiv> 0x41584441"
abbreviation (input) MAX_TOPICS_PER_NODE :: nat where "MAX_TOPICS_PER_NODE \<equiv> 256"
abbreviation (input) MAX_MATCHES :: nat where "MAX_MATCHES \<equiv> 1024"
abbreviation (input) MAX_NAME_LEN :: nat where "MAX_NAME_LEN \<equiv> 128"
abbreviation (input) MAX_QUIC_ADDRS :: nat where "MAX_QUIC_ADDRS \<equiv> 8"

datatype slot_state = Empty | Pending | Active | Leaving | Claiming

fun slot_code :: "slot_state \<Rightarrow> u8" where
  "slot_code Empty = 0"
| "slot_code Pending = 1"
| "slot_code Active = 2"
| "slot_code Leaving = 3"
| "slot_code Claiming = 4"

subsection \<open>Entries\<close>

record topic_entry =
  te_hash :: u64
  te_type_hash :: u64
  te_qos :: qos_fields
  te_topic_name :: bytes
  te_topic_type :: bytes
  te_node_name :: bytes
  te_node_namespace :: bytes

definition qos_zero :: qos_fields where
  "qos_zero = \<lparr> qos_reliability = 0, qos_durability = 0, qos_history_kind = 0, qos_history_depth = 0,
     qos_deadline_sec = 0, qos_deadline_nsec = 0, qos_lifespan_sec = 0, qos_lifespan_nsec = 0,
     qos_liveliness = 0, qos_lease_sec = 0, qos_lease_nsec = 0 \<rparr>"

definition topic_entry_default :: topic_entry where
  "topic_entry_default = \<lparr> te_hash = 0, te_type_hash = 0, te_qos = qos_zero,
     te_topic_name = replicate MAX_NAME_LEN 0, te_topic_type = replicate MAX_NAME_LEN 0,
     te_node_name = replicate MAX_NAME_LEN 0, te_node_namespace = replicate MAX_NAME_LEN 0 \<rparr>"

record match_entry =
  me_node_id :: u64
  me_topic_hash :: u64
  me_port :: u16
  me_addr :: bytes

definition match_zero :: match_entry where
  "match_zero = \<lparr> me_node_id = 0, me_topic_hash = 0, me_port = 0, me_addr = replicate 4 0 \<rparr>"

record node_table_entry =
  ne_state :: u8
  ne_domain_id :: u32
  ne_pid :: u32
  ne_proc_starttime :: u64
  ne_pub_count :: u32
  ne_sub_count :: u32
  ne_quic_port :: u16
  ne_match_count :: u32
  ne_node_id :: u64
  ne_response_gen :: u64
  ne_quic_addr_count :: u32
  ne_quic_addrs :: "bytes list"
  ne_daemon_origin :: u64
  ne_last_seen_secs :: u64
  ne_node_name :: bytes
  ne_node_namespace :: bytes
  ne_published :: "topic_entry list"
  ne_subscribed :: "topic_entry list"
  ne_matches :: "match_entry list"

definition entry_zero :: node_table_entry where
  "entry_zero = \<lparr> ne_state = 0, ne_domain_id = 0, ne_pid = 0, ne_proc_starttime = 0, ne_pub_count = 0,
     ne_sub_count = 0, ne_quic_port = 0, ne_match_count = 0, ne_node_id = 0, ne_response_gen = 0,
     ne_quic_addr_count = 0, ne_quic_addrs = replicate MAX_QUIC_ADDRS (replicate 4 0), ne_daemon_origin = 0,
     ne_last_seen_secs = 0, ne_node_name = replicate MAX_NAME_LEN 0, ne_node_namespace = replicate MAX_NAME_LEN 0,
     ne_published = replicate MAX_TOPICS_PER_NODE topic_entry_default,
     ne_subscribed = replicate MAX_TOPICS_PER_NODE topic_entry_default,
     ne_matches = replicate MAX_MATCHES match_zero \<rparr>"

text \<open>The types of the arrays, and counts that stay within them.\<close>

definition topic_wf :: "topic_entry \<Rightarrow> bool" where
  "topic_wf t \<longleftrightarrow> length (te_topic_name t) = MAX_NAME_LEN \<and> length (te_topic_type t) = MAX_NAME_LEN \<and>
     length (te_node_name t) = MAX_NAME_LEN \<and> length (te_node_namespace t) = MAX_NAME_LEN"

definition entry_wf :: "node_table_entry \<Rightarrow> bool" where
  "entry_wf e \<longleftrightarrow>
     length (ne_quic_addrs e) = MAX_QUIC_ADDRS \<and> (\<forall>a \<in> set (ne_quic_addrs e). length a = 4) \<and>
     length (ne_node_name e) = MAX_NAME_LEN \<and> length (ne_node_namespace e) = MAX_NAME_LEN \<and>
     length (ne_published e) = MAX_TOPICS_PER_NODE \<and> list_all topic_wf (ne_published e) \<and>
     length (ne_subscribed e) = MAX_TOPICS_PER_NODE \<and> list_all topic_wf (ne_subscribed e) \<and>
     length (ne_matches e) = MAX_MATCHES \<and>
     unat (ne_pub_count e) \<le> MAX_TOPICS_PER_NODE \<and> unat (ne_sub_count e) \<le> MAX_TOPICS_PER_NODE"

subsection \<open>The segment\<close>

record shm_header =
  sh_magic :: u32
  sh_daemon_pid :: u32
  sh_daemon_proc_starttime :: u64
  sh_generation :: u64
  sh_max_nodes :: u32
  sh_max_topics :: u32
  sh_max_matches :: u32

record shm_discovery =
  sd_header :: shm_header
  node_table :: "node_table_entry list"
  sd_size :: nat

text \<open>\<open>#[repr(C)]\<close>: each field starts at the next multiple of its alignment, and the whole is padded to
  a multiple of the largest one.  A field is its size and its alignment.\<close>

definition round_up :: "nat \<Rightarrow> nat \<Rightarrow> nat" where
  "round_up n a = (n + a - 1) div a * a"

definition repr_c :: "(nat \<times> nat) list \<Rightarrow> nat" where
  "repr_c fs = round_up (foldl (\<lambda>off (s, a). round_up off a + s) 0 fs) (foldl (\<lambda>m (s, a). max m a) 1 fs)"

definition size_shm_header :: nat where
  "size_shm_header = repr_c [(4, 4), (4, 4), (8, 8), (8, 8), (4, 4), (4, 4), (4, 4)]"

definition size_topic_entry :: nat where
  "size_topic_entry = repr_c ([(8, 8), (8, 8), (1, 1), (1, 1), (1, 1), (4, 4), (4, 4), (4, 4), (4, 4), (4, 4),
     (1, 1), (4, 4), (4, 4)] @ replicate 4 (MAX_NAME_LEN, 1))"

definition size_match_entry :: nat where
  "size_match_entry = repr_c [(8, 8), (8, 8), (2, 2), (4, 1)]"

definition size_node_table_entry :: nat where
  "size_node_table_entry = repr_c [(1, 1), (4, 4), (4, 4), (8, 8), (4, 4), (4, 4), (2, 2), (4, 4), (8, 8), (8, 8), (4, 4),
     (MAX_QUIC_ADDRS * 4, 1), (8, 8), (8, 8), (MAX_NAME_LEN, 1), (MAX_NAME_LEN, 1),
     (MAX_TOPICS_PER_NODE * size_topic_entry, 8), (MAX_TOPICS_PER_NODE * size_topic_entry, 8),
     (MAX_MATCHES * size_match_entry, 8)]"

definition shm_full_size :: "u32 \<Rightarrow> nat" where
  "shm_full_size max_nodes = round_up (size_shm_header + size_node_table_entry * unat max_nodes) 4096"

datatype shm_error = NotFound | PermissionDenied | AlreadyExists | OtherError | InvalidData string

type_synonym shm_files = "string \<Rightarrow> shm_discovery option"

text \<open>\<open>ShmDiscovery::create\<close>: a segment whose \<open>ftruncate\<close> or \<open>mmap\<close> fails stays behind under
  its name, empty or without a header.  \<open>perm\<close> stands for a refused \<open>shm_open\<close>.\<close>

definition empty_header :: shm_header where
  "empty_header = \<lparr> sh_magic = 0, sh_daemon_pid = 0, sh_daemon_proc_starttime = 0, sh_generation = 0,
     sh_max_nodes = 0, sh_max_topics = 0, sh_max_matches = 0 \<rparr>"

definition shm_create ::
  "shm_error option \<Rightarrow> bool \<Rightarrow> bool \<Rightarrow> u32 \<Rightarrow> u64 option \<Rightarrow> string \<Rightarrow> u32 \<Rightarrow> shm_files \<Rightarrow>
   (shm_discovery, shm_error) rust_result \<times> shm_files" where
  "shm_create refused ftruncate_ok mmap_ok pid starttime name max_nodes w =
     (case refused of
        Some e \<Rightarrow> (Err e, w)
      | None \<Rightarrow>
          if w name \<noteq> None then (Err AlreadyExists, w)
          else if \<not> ftruncate_ok then
            (Err OtherError, w(name \<mapsto> \<lparr> sd_header = empty_header, node_table = [], sd_size = 0 \<rparr>))
          else if \<not> mmap_ok then
            (Err OtherError, w(name \<mapsto> \<lparr> sd_header = empty_header, node_table = [], sd_size = shm_full_size max_nodes \<rparr>))
          else
            (let s = \<lparr> sd_header = \<lparr> sh_magic = MAGIC, sh_daemon_pid = pid,
                         sh_daemon_proc_starttime = (case starttime of Some t \<Rightarrow> t | None \<Rightarrow> 0), sh_generation = 0,
                         sh_max_nodes = max_nodes, sh_max_topics = of_nat MAX_TOPICS_PER_NODE,
                         sh_max_matches = of_nat MAX_MATCHES \<rparr>,
                       node_table = replicate (unat max_nodes) entry_zero, sd_size = shm_full_size max_nodes \<rparr> in
             (Ok s, w(name \<mapsto> s))))"

text \<open>\<open>ShmDiscovery::open\<close>; reading the header of a segment that is smaller than it raises a
  bus error.\<close>

definition shm_open_table ::
  "shm_error option \<Rightarrow> bool \<Rightarrow> string \<Rightarrow> shm_files \<Rightarrow> (shm_discovery, shm_error) rust_result outcome" where
  "shm_open_table refused mmap_ok name w =
     (case refused of
        Some e \<Rightarrow> Return (Err e)
      | None \<Rightarrow>
          (case w name of
             None \<Rightarrow> Return (Err NotFound)
           | Some s \<Rightarrow>
               let h = sd_header s in
               if \<not> mmap_ok then Return (Err OtherError)
               else if sd_size s < size_shm_header then Panic
               else if sh_magic h \<noteq> MAGIC then Return (Err (InvalidData ''bad magic''))
               else if sh_max_nodes h = 0 \<or> 1024 < sh_max_nodes h then
                 Return (Err (InvalidData ''invalid max_nodes in header''))
               else if sh_max_topics h \<noteq> of_nat MAX_TOPICS_PER_NODE \<or> sh_max_matches h \<noteq> of_nat MAX_MATCHES then
                 Return (Err (InvalidData ''discovery SHM layout does not match this build''))
               else if sd_size s < shm_full_size (sh_max_nodes h) then
                 Return (Err (InvalidData ''discovery SHM is smaller than expected for this build''))
               else Return (Ok s)))"

definition shm_destroy :: "string \<Rightarrow> shm_files \<Rightarrow> (unit, shm_error) rust_result \<times> shm_files" where
  "shm_destroy name w = (if w name = None then (Err OtherError, w) else (Ok (), w(name := None)))"

subsection \<open>Slots\<close>

fun position :: "('a \<Rightarrow> bool) \<Rightarrow> 'a list \<Rightarrow> nat option" where
  "position P [] = None"
| "position P (x # xs) = (if P x then Some 0 else map_option Suc (position P xs))"

definition find_free_slot :: "node_table_entry list \<Rightarrow> nat option" where
  "find_free_slot tab = position (\<lambda>e. ne_state e = 0) tab"

definition find_slot_by_node_id :: "u64 \<Rightarrow> node_table_entry list \<Rightarrow> nat option" where
  "find_slot_by_node_id n tab = position (\<lambda>e. ne_state e \<noteq> 0 \<and> ne_node_id e = n) tab"

definition claim_free_slot :: "node_table_entry list \<Rightarrow> nat option \<times> node_table_entry list" where
  "claim_free_slot tab =
     (case position (\<lambda>e. ne_state e = slot_code Empty) tab of
        None \<Rightarrow> (None, tab)
      | Some i \<Rightarrow> (Some i, tab[i := (tab ! i)\<lparr> ne_state := slot_code Claiming \<rparr>]))"

subsection \<open>Matching\<close>

definition find_matches_by_hash :: "topic_entry list \<Rightarrow> topic_entry list \<Rightarrow> u64 list" where
  "find_matches_by_hash publishers subscribers =
     map te_hash (filter (\<lambda>s. \<exists>p \<in> set publishers. te_hash p = te_hash s) subscribers)"

text \<open>A subscription count past the array panics when the slice is taken.\<close>

fun find_matching_nodes_from ::
  "nat \<Rightarrow> node_table_entry list \<Rightarrow> u32 \<Rightarrow> topic_entry list \<Rightarrow> (nat \<times> u64 \<times> u64) list outcome" where
  "find_matching_nodes_from idx [] domain publishers = Return []"
| "find_matching_nodes_from idx (e # es) domain publishers =
     (if ne_state e \<noteq> 2 \<or> ne_domain_id e \<noteq> domain then find_matching_nodes_from (Suc idx) es domain publishers
      else if length (ne_subscribed e) < unat (ne_sub_count e) then Panic
      else
        (case find_matching_nodes_from (Suc idx) es domain publishers of
           Panic \<Rightarrow> Panic
         | Return r \<Rightarrow>
             Return (map (\<lambda>h. (idx, ne_node_id e, h))
               (find_matches_by_hash publishers (take (unat (ne_sub_count e)) (ne_subscribed e))) @ r)))"

definition find_matching_nodes ::
  "node_table_entry list \<Rightarrow> u32 \<Rightarrow> topic_entry list \<Rightarrow> (nat \<times> u64 \<times> u64) list outcome" where
  "find_matching_nodes tab domain publishers = find_matching_nodes_from 0 tab domain publishers"

definition topic_entry_qos_compatible :: "topic_entry \<Rightarrow> topic_entry \<Rightarrow> bool" where
  "topic_entry_qos_compatible p s = entry_qos_compatible (te_qos p) (te_qos s)"

subsection \<open>Processes that share the table\<close>

text \<open>Where a process is: in the scan of \<open>claim_free_slot\<close> at an index, holding a slot, or told that the table
  is full.  The shared state is the state byte of every slot.\<close>

datatype claim_pc = Scanning nat | Holding nat | TableFull

inductive claim_step :: "u8 list \<times> (nat \<Rightarrow> claim_pc) \<Rightarrow> u8 list \<times> (nat \<Rightarrow> claim_pc) \<Rightarrow> bool" where
  exchange_ok:
    "pc p = Scanning i \<Longrightarrow> i < length st \<Longrightarrow> st ! i = slot_code Empty \<Longrightarrow>
     claim_step (st, pc) (st[i := slot_code Claiming], pc(p := Holding i))"
| exchange_fails:
    "pc p = Scanning i \<Longrightarrow> i < length st \<Longrightarrow> st ! i \<noteq> slot_code Empty \<Longrightarrow>
     claim_step (st, pc) (st, pc(p := Scanning (Suc i)))"
| scan_ends:
    "pc p = Scanning i \<Longrightarrow> length st \<le> i \<Longrightarrow> claim_step (st, pc) (st, pc(p := TableFull))"
| publishes:
    "pc p = Holding i \<Longrightarrow> s \<noteq> Empty \<Longrightarrow> claim_step (st, pc) (st[i := slot_code s], pc)"
| leaves:
    "pc p = Holding i \<Longrightarrow> claim_step (st, pc) (st[i := slot_code Empty], pc(p := Scanning 0))"

inductive_cases claim_stepE: "claim_step (st, pc) s'"

definition claim_inv :: "u8 list \<times> (nat \<Rightarrow> claim_pc) \<Rightarrow> bool" where
  "claim_inv s \<longleftrightarrow>
     (\<forall>p i. snd s p = Holding i \<longrightarrow> i < length (fst s) \<and> fst s ! i \<noteq> slot_code Empty) \<and>
     (\<forall>p q i. snd s p = Holding i \<and> snd s q = Holding i \<longrightarrow> p = q)"

lemma slot_code_Empty_iff [simp]: "slot_code s = 0 \<longleftrightarrow> s = Empty"
  by (cases s) simp_all

lemma claim_invI:
  assumes "\<And>p i. pc p = Holding i \<Longrightarrow> i < length st \<and> st ! i \<noteq> 0"
    "\<And>p q i. pc p = Holding i \<Longrightarrow> pc q = Holding i \<Longrightarrow> p = q"
  shows "claim_inv (st, pc)"
  unfolding claim_inv_def using assms by simp

lemma claim_invD:
  assumes "claim_inv (st, pc)" "pc p = Holding i"
  shows "i < length st" "st ! i \<noteq> 0" "pc q = Holding i \<Longrightarrow> q = p"
  using assms unfolding claim_inv_def by simp_all

lemma claim_inv_step:
  assumes "claim_step s s'" "claim_inv s"
  shows "claim_inv s'"
  using assms(1)
proof (cases rule: claim_step.cases)
  case (exchange_ok pc p i st)
  note inv = assms(2) [unfolded exchange_ok(1)]
  have free: "pc q \<noteq> Holding i" for q using claim_invD(2) [OF inv, of q i] exchange_ok(5) by auto
  show ?thesis unfolding exchange_ok(2)
    by (rule claim_invI) (use exchange_ok(4) free in \<open>auto simp: nth_list_update split: if_splits dest: claim_invD [OF inv]\<close>)
next
  case (exchange_fails pc p i st)
  note inv = assms(2) [unfolded exchange_fails(1)]
  show ?thesis unfolding exchange_fails(2)
    by (rule claim_invI) (auto split: if_splits dest: claim_invD [OF inv])
next
  case (scan_ends pc p i st)
  note inv = assms(2) [unfolded scan_ends(1)]
  show ?thesis unfolding scan_ends(2)
    by (rule claim_invI) (auto split: if_splits dest: claim_invD [OF inv])
next
  case (publishes pc p i s st)
  note inv = assms(2) [unfolded publishes(1)]
  show ?thesis unfolding publishes(2)
    by (rule claim_invI) (use publishes(4) claim_invD(1) [OF inv publishes(3)] in \<open>auto simp: nth_list_update dest: claim_invD [OF inv]\<close>)
next
  case (leaves pc p i st)
  note inv = assms(2) [unfolded leaves(1)]
  have "pc q = Holding i \<Longrightarrow> q = p" for q using claim_invD(3) [OF inv leaves(3)] by blast
  with claim_invD(1) [OF inv leaves(3)] show ?thesis unfolding leaves(2)
    by (intro claim_invI) (auto simp: nth_list_update split: if_splits dest: claim_invD [OF inv])
qed

lemma claim_inv_reachable:
  assumes "claim_step\<^sup>*\<^sup>* (st, \<lambda>_. Scanning 0) s"
  shows "claim_inv s"
  using assms
proof (induction rule: rtranclp_induct)
  case base
  show ?case by (simp add: claim_inv_def)
qed (rule claim_inv_step)

subsection \<open>Searches\<close>

lemma position_Some: "position P xs = Some i \<Longrightarrow> i < length xs \<and> P (xs ! i) \<and> (\<forall>j < i. \<not> P (xs ! j))"
proof (induction xs arbitrary: i)
  case (Cons x xs)
  show ?case
  proof (cases "P x")
    case False
    with Cons.prems obtain k where k: "i = Suc k" "position P xs = Some k" by auto
    from Cons.IH [OF k(2)] k(1) False show ?thesis by (auto simp: less_Suc_eq_0_disj)
  qed (use Cons.prems in simp)
qed simp

lemma position_None: "position P xs = None \<longleftrightarrow> (\<forall>x \<in> set xs. \<not> P x)"
  by (induction xs) auto

text \<open>The sequential claim takes the first empty slot and marks it, and fails only on a full table.\<close>

lemma claim_free_slot_spec:
  "claim_free_slot tab = (r, tab') \<Longrightarrow>
   (case r of
      None \<Rightarrow> (\<forall>e \<in> set tab. ne_state e \<noteq> 0) \<and> tab' = tab
    | Some i \<Rightarrow> i < length tab \<and> ne_state (tab ! i) = 0 \<and> find_free_slot tab = Some i \<and>
        tab' = tab[i := (tab ! i)\<lparr> ne_state := 4 \<rparr>])"
  by (auto simp: claim_free_slot_def find_free_slot_def position_None split: option.splits dest: position_Some)

lemma set_matches_by_hash: "set (find_matches_by_hash ps ss) = te_hash ` set ss \<inter> te_hash ` set ps"
proof (intro set_eqI iffI)
  fix h
  assume "h \<in> te_hash ` set ss \<inter> te_hash ` set ps"
  then obtain s p where "s \<in> set ss" "p \<in> set ps" "h = te_hash s" "te_hash p = te_hash s" by fastforce
  then show "h \<in> set (find_matches_by_hash ps ss)" by (auto simp: find_matches_by_hash_def)
qed (auto simp: find_matches_by_hash_def dest: sym)

definition subscribes :: "node_table_entry \<Rightarrow> u32 \<Rightarrow> topic_entry list \<Rightarrow> u64 \<Rightarrow> u64 \<Rightarrow> bool" where
  "subscribes e domain ps nid h \<longleftrightarrow> ne_state e = slot_code Active \<and> ne_domain_id e = domain \<and> ne_node_id e = nid \<and>
     h \<in> te_hash ` set (take (unat (ne_sub_count e)) (ne_subscribed e)) \<and> h \<in> te_hash ` set ps"

lemma matching_nodes_from:
  assumes "list_all entry_wf tab"
  shows "\<exists>r. find_matching_nodes_from k tab domain ps = Return r \<and>
    (\<forall>idx nid h. (idx, nid, h) \<in> set r \<longleftrightarrow> (\<exists>e. (idx, e) \<in> set (enumerate k tab) \<and> subscribes e domain ps nid h))"
  using assms
proof (induction tab arbitrary: k)
  case (Cons e es)
  have "list_all entry_wf es" using Cons.prems by simp
  from Cons.IH [OF this, of "Suc k"]
  obtain r where r: "find_matching_nodes_from (Suc k) es domain ps = Return r"
      "\<And>idx nid h. (idx, nid, h) \<in> set r \<longleftrightarrow>
        (\<exists>e. (idx, e) \<in> set (enumerate (Suc k) es) \<and> subscribes e domain ps nid h)"
    by blast
  have wf: "\<not> length (ne_subscribed e) < unat (ne_sub_count e)"
    using Cons.prems by (auto simp: entry_wf_def)
  show ?case
  proof (cases "ne_state e \<noteq> 2 \<or> ne_domain_id e \<noteq> domain")
    case True
    with r show ?thesis by (auto simp: subscribes_def)
  next
    case False
    with r wf show ?thesis by (auto simp: subscribes_def set_matches_by_hash)
  qed
qed simp

lemma entry_zero_fields [simp]:
  "ne_state entry_zero = 0" "ne_domain_id entry_zero = 0" "ne_node_id entry_zero = 0" "ne_pid entry_zero = 0"
  "ne_daemon_origin entry_zero = 0" "te_hash topic_entry_default = 0"
  by (simp_all only: entry_zero_def topic_entry_default_def node_table_entry.simps topic_entry.simps)

lemma entry_zero_wf [simp]: "entry_wf entry_zero"
  by (simp add: entry_wf_def entry_zero_def topic_wf_def topic_entry_default_def list_all_iff)

subsection \<open>Properties\<close>



text \<open>Note: \<open>find_matching_nodes\<close> is exact: on a well-formed table it does not panic and returns precisely the active
  nodes of the domain that subscribe to one of the given topics, with their slot and the topic.\<close>

theorem matching_nodes_exact:
  assumes "list_all entry_wf tab"
  shows "\<exists>r. find_matching_nodes tab domain ps = Return r \<and>
    (\<forall>idx nid h. (idx, nid, h) \<in> set r \<longleftrightarrow> idx < length tab \<and> subscribes (tab ! idx) domain ps nid h)"
  using matching_nodes_from [OF assms, of 0 domain ps]
  by (auto simp: find_matching_nodes_def in_set_enumerate_eq)

theorem matching_nodes_exact_witness:
  "\<exists>r. find_matching_nodes [entry_zero, entry_zero\<lparr> ne_state := 2, ne_node_id := 9, ne_sub_count := 1 \<rparr>] 0 [topic_entry_default] = Return r \<and>
    (1, 9, 0) \<in> set r"
proof -
  let ?e = "entry_zero\<lparr> ne_state := 2, ne_node_id := 9, ne_sub_count := 1 \<rparr>"
  have "entry_wf ?e"
    using entry_zero_wf unfolding entry_wf_def by simp
  then have wf: "list_all entry_wf [entry_zero, ?e]" by simp
  have "set (take 1 (ne_subscribed ?e)) = {topic_entry_default}"
    by (simp only: entry_zero_def node_table_entry.simps take_replicate) (simp only: set_replicate_conv_if, simp)
  then have sub: "subscribes ?e 0 [topic_entry_default] 9 0" by (simp add: subscribes_def)
  obtain r where r: "find_matching_nodes [entry_zero, ?e] 0 [topic_entry_default] = Return r"
      "\<forall>idx nid h. (idx, nid, h) \<in> set r \<longleftrightarrow>
        idx < length [entry_zero, ?e] \<and> subscribes ([entry_zero, ?e] ! idx) 0 [topic_entry_default] nid h"
    using matching_nodes_exact [OF wf, of 0 "[topic_entry_default]"] by blast
  have "(1, 9, 0) \<in> set r"
    using r(2) [rule_format, of 1 9 0] sub by (simp only: nth_Cons_Suc nth_Cons_0 One_nat_def) simp
  with r(1) show ?thesis by blast
qed

end
