(* ===== verification/Peer_Sync_Codec.thy ===== *)
theory Peer_Sync_Codec
  imports Discovery_Shm
begin

text \<open>
  The messages with which daemons synchronise their graphs (the serialization part of
  \<^verbatim>\<open>daemon/peer_sync.rs\<close>): node descriptions, sync requests with and without pushed nodes, and sync
  responses.

  Strings, topics and nodes are three codecs, each an interpretation of \<open>stable_codec\<close>; the response is a
  counted sequence of nodes.  An error carries the message of the source.  Of a node's endpoint the source
  checks first that six bytes are left and then that four are left after the port; the second test never fails, so the
  model reads the six bytes at once.
\<close>

subsection \<open>Messages\<close>

record peer_topic_info =
  pt_hash :: u64
  pt_type_hash :: u64
  pt_qos :: qos_fields
  pt_name :: string
  pt_topic_type :: string
  pt_node_name :: string
  pt_node_namespace :: string

record peer_node_info =
  pn_node_id :: u64
  pn_domain_id :: u32
  pn_published_topics :: "peer_topic_info list"
  pn_subscribed_topics :: "peer_topic_info list"
  pn_quic_port :: u16
  pn_quic_addrs :: "bytes list"
  pn_node_name :: string
  pn_node_namespace :: string

abbreviation (input) MSG_SYNC_REQUEST :: byte where "MSG_SYNC_REQUEST \<equiv> 0x01"
abbreviation (input) MSG_SYNC_RESPONSE :: byte where "MSG_SYNC_RESPONSE \<equiv> 0x02"
abbreviation (input) MSG_PING :: byte where "MSG_PING \<equiv> 0x04"
abbreviation (input) MSG_PONG :: byte where "MSG_PONG \<equiv> 0x05"

subsection \<open>Encoding\<close>

definition enc_string :: "string \<Rightarrow> bytes" where
  "enc_string s = u16_to_le (of_nat (length s)) @ as_bytes s"

definition enc_qos :: "qos_fields \<Rightarrow> bytes" where
  "enc_qos q =
     [qos_reliability q, qos_durability q, qos_history_kind q] @ u32_to_le (qos_history_depth q) @
     u32_to_le (qos_deadline_sec q) @ u32_to_le (qos_deadline_nsec q) @
     u32_to_le (qos_lifespan_sec q) @ u32_to_le (qos_lifespan_nsec q) @
     [qos_liveliness q] @ u32_to_le (qos_lease_sec q) @ u32_to_le (qos_lease_nsec q)"

definition enc_topic :: "peer_topic_info \<Rightarrow> bytes" where
  "enc_topic t =
     u64_to_le (pt_hash t) @ u64_to_le (pt_type_hash t) @ enc_qos (pt_qos t) @
     enc_string (pt_name t) @ enc_string (pt_topic_type t) @
     enc_string (pt_node_name t) @ enc_string (pt_node_namespace t)"

definition enc_node :: "peer_node_info \<Rightarrow> bytes" where
  "enc_node n =
     u64_to_le (pn_node_id n) @ u32_to_le (pn_domain_id n) @
     enc_string (pn_node_name n) @ enc_string (pn_node_namespace n) @
     u32_to_le (of_nat (length (pn_published_topics n))) @ concat (map enc_topic (pn_published_topics n)) @
     u32_to_le (of_nat (length (pn_subscribed_topics n))) @ concat (map enc_topic (pn_subscribed_topics n)) @
     u16_to_le (pn_quic_port n) @ u32_to_le (of_nat (length (pn_quic_addrs n))) @ concat (pn_quic_addrs n)"

definition encode_sync_response :: "u32 \<Rightarrow> peer_node_info list \<Rightarrow> bytes" where
  "encode_sync_response domain_id nodes =
     [MSG_SYNC_RESPONSE] @ u32_to_le domain_id @ u32_to_le (of_nat (length nodes)) @ concat (map enc_node nodes)"

definition encode_sync_request :: "u32 \<Rightarrow> bytes" where
  "encode_sync_request domain_id = [MSG_SYNC_REQUEST] @ u32_to_le domain_id"

definition encode_sync_request_with_nodes :: "u32 \<Rightarrow> u64 \<Rightarrow> peer_node_info list \<Rightarrow> bytes" where
  "encode_sync_request_with_nodes domain_id daemon_id nodes =
     encode_sync_request domain_id @ u64_to_le daemon_id @ encode_sync_response domain_id nodes"

definition encode_ping :: bytes where "encode_ping = [MSG_PING]"
definition encode_pong :: bytes where "encode_pong = [MSG_PONG]"

subsection \<open>Decoding\<close>

definition read_string :: "bytes \<Rightarrow> (string \<times> bytes, string) rust_result" where
  "read_string bs =
     bind_ok (read_u16 ''truncated len'' bs) (\<lambda>(len, r).
     bind_ok (need ''truncated string'' (unat len) r) (\<lambda>(x, r).
       case from_utf8 x of Some s \<Rightarrow> Ok (s, r) | None \<Rightarrow> Err ''bad utf8''))"

definition qos_of_bytes :: "bytes \<Rightarrow> qos_fields" where
  "qos_of_bytes b =
     \<lparr> qos_reliability = b ! 0, qos_durability = b ! 1, qos_history_kind = b ! 2,
       qos_history_depth = from_le (take 4 (drop 3 b)),
       qos_deadline_sec = from_le (take 4 (drop 7 b)), qos_deadline_nsec = from_le (take 4 (drop 11 b)),
       qos_lifespan_sec = from_le (take 4 (drop 15 b)), qos_lifespan_nsec = from_le (take 4 (drop 19 b)),
       qos_liveliness = b ! 23,
       qos_lease_sec = from_le (take 4 (drop 24 b)), qos_lease_nsec = from_le (take 4 (drop 28 b)) \<rparr>"

definition read_topic :: "bytes \<Rightarrow> (peer_topic_info \<times> bytes, string) rust_result" where
  "read_topic bs =
     bind_ok (need ''truncated topic'' 48 bs) (\<lambda>(b, r).
     bind_ok (read_string r) (\<lambda>(name, r).
     bind_ok (read_string r) (\<lambda>(topic_type, r).
     bind_ok (read_string r) (\<lambda>(node_name, r).
     bind_ok (read_string r) (\<lambda>(node_namespace, r).
       Ok (\<lparr> pt_hash = from_le (take 8 b), pt_type_hash = from_le (take 8 (drop 8 b)),
             pt_qos = qos_of_bytes (drop 16 b), pt_name = name, pt_topic_type = topic_type,
             pt_node_name = node_name, pt_node_namespace = node_namespace \<rparr>, r))))))"

primrec chunks4 :: "nat \<Rightarrow> bytes \<Rightarrow> bytes list" where
  "chunks4 0 b = []"
| "chunks4 (Suc n) b = take 4 b # chunks4 n (drop 4 b)"

definition read_node :: "bytes \<Rightarrow> (peer_node_info \<times> bytes, string) rust_result" where
  "read_node bs =
     bind_ok (need ''truncated node header'' 12 bs) (\<lambda>(b, r).
     bind_ok (read_string r) (\<lambda>(node_name, r).
     bind_ok (read_string r) (\<lambda>(node_namespace, r).
     bind_ok (read_u32 ''truncated pub count'' r) (\<lambda>(pub_count, r).
     bind_ok (dec_many read_topic (unat pub_count) r) (\<lambda>(published, r).
     bind_ok (read_u32 ''truncated sub count'' r) (\<lambda>(sub_count, r).
     bind_ok (dec_many read_topic (unat sub_count) r) (\<lambda>(subscribed, r).
     bind_ok (need ''truncated endpoint'' 6 r) (\<lambda>(p, r).
     let limit = min (unat (from_le (drop 2 p) :: u32)) MAX_QUIC_ADDRS in
     bind_ok (need ''truncated addrs'' (limit * 4) r) (\<lambda>(a, r).
       Ok (\<lparr> pn_node_id = from_le (take 8 b), pn_domain_id = from_le (drop 8 b),
             pn_published_topics = published, pn_subscribed_topics = subscribed,
             pn_quic_port = from_le (take 2 p), pn_quic_addrs = chunks4 limit a,
             pn_node_name = node_name, pn_node_namespace = node_namespace \<rparr>, r))))))))))"

definition decode_sync_response :: "bytes \<Rightarrow> (u32 \<times> peer_node_info list, string) rust_result" where
  "decode_sync_response buf =
     (if length buf < 9 \<or> hd buf \<noteq> MSG_SYNC_RESPONSE then Err ''bad sync response''
      else
        bind_ok (dec_many read_node (unat (from_le (take 4 (drop 5 buf)) :: u32)) (drop 9 buf))
          (\<lambda>(nodes, _). Ok (from_le (take 4 (drop 1 buf)), nodes)))"

definition decode_sync_request :: "bytes \<Rightarrow> (u32, string) rust_result" where
  "decode_sync_request buf =
     (if length buf < 5 \<or> hd buf \<noteq> MSG_SYNC_REQUEST then Err ''bad sync request''
      else Ok (from_le (take 4 (drop 1 buf))))"

definition sync_request_daemon_id :: "bytes \<Rightarrow> (u64 option, string) rust_result" where
  "sync_request_daemon_id buf =
     (if length buf < 5 \<or> hd buf \<noteq> MSG_SYNC_REQUEST then Err ''bad sync request''
      else if length buf = 5 then Ok None
      else if length buf < 13 then Err ''truncated sync request daemon id''
      else Ok (Some (from_le (take 8 (drop 5 buf)))))"

definition decode_sync_request_push :: "bytes \<Rightarrow> ((u64 \<times> peer_node_info list) option, string) rust_result" where
  "decode_sync_request_push buf =
     (if length buf = 5 then Ok None
      else if length buf < 14 \<or> hd buf \<noteq> MSG_SYNC_REQUEST then Err ''bad sync request push''
      else
        bind_ok (decode_sync_response (drop 13 buf))
          (\<lambda>(_, nodes). Ok (Some (from_le (take 8 (drop 5 buf)), nodes))))"

subsection \<open>What the wire can carry\<close>

definition str16 :: "string \<Rightarrow> bool" where
  "str16 s \<longleftrightarrow> str_ok s \<and> length s < 2 ^ 16"

definition topic_ok :: "peer_topic_info \<Rightarrow> bool" where
  "topic_ok t \<longleftrightarrow> str16 (pt_name t) \<and> str16 (pt_topic_type t) \<and> str16 (pt_node_name t) \<and> str16 (pt_node_namespace t)"

definition node_ok :: "peer_node_info \<Rightarrow> bool" where
  "node_ok n \<longleftrightarrow> str16 (pn_node_name n) \<and> str16 (pn_node_namespace n) \<and>
     list_all topic_ok (pn_published_topics n) \<and> length (pn_published_topics n) < 2 ^ 32 \<and>
     list_all topic_ok (pn_subscribed_topics n) \<and> length (pn_subscribed_topics n) < 2 ^ 32 \<and>
     length (pn_quic_addrs n) \<le> MAX_QUIC_ADDRS \<and> list_all (\<lambda>a. length a = 4) (pn_quic_addrs n)"

subsection \<open>The three codecs\<close>

lemma read_enc_string [codec_simps]: "str16 s \<Longrightarrow> read_string (enc_string s @ r) = Ok (s, r)"
  by (simp add: read_string_def enc_string_def str16_def unat_of_nat16)

lemma stable_read_string [stable_intros]: "stable_dec read_string"
  unfolding read_string_def by (intro stable_intros)

interpretation strc: stable_codec enc_string read_string str16
  by unfold_locales (simp_all add: read_enc_string stable_read_string)

lemma length_enc_qos [simp, size_simps]: "length (enc_qos q) = 32"
  by (simp add: enc_qos_def)

lemma qos_of_enc [simp, codec_simps]: "qos_of_bytes (enc_qos q) = q"
  by (cases q) (simp add: qos_of_bytes_def enc_qos_def nth_append)

lemma read_enc_topic [codec_simps]:
  assumes "topic_ok t"
  shows "read_topic (enc_topic t @ r) = Ok (t, r)"
proof -
  let ?h = "u64_to_le (pt_hash t) @ u64_to_le (pt_type_hash t) @ enc_qos (pt_qos t)"
  let ?s = "enc_string (pt_name t) @ enc_string (pt_topic_type t) @
    enc_string (pt_node_name t) @ enc_string (pt_node_namespace t) @ r"
  have split: "enc_topic t @ r = ?h @ ?s" by (simp add: enc_topic_def)
  have fields: "take 8 ?h = u64_to_le (pt_hash t)" "take 8 (drop 8 ?h) = u64_to_le (pt_type_hash t)"
      "drop 16 ?h = enc_qos (pt_qos t)"
    by simp_all
  have "need ''truncated topic'' 48 (?h @ ?s) = Ok (?h, ?s)" by (rule need_append) simp
  then show ?thesis
    using assms unfolding read_topic_def split topic_ok_def
    by (simp only: bind_ok_simps prod.case fields from_le_u64 qos_of_enc) (simp add: read_enc_string)
qed

lemma stable_read_topic [stable_intros]: "stable_dec read_topic"
  unfolding read_topic_def by (intro stable_intros)

interpretation topicc: stable_codec enc_topic read_topic topic_ok
  by unfold_locales (simp_all add: read_enc_topic stable_read_topic)

lemma chunks4_concat:
  "list_all (\<lambda>a. length a = 4) as \<Longrightarrow> chunks4 (length as) (concat as) = as"
  by (induction as) simp_all

lemma length_concat4: "list_all (\<lambda>a. length a = 4) as \<Longrightarrow> length (concat as) = length as * 4"
  by (induction as) simp_all

lemma read_enc_node [codec_simps]:
  assumes "node_ok n"
  shows "read_node (enc_node n @ r) = Ok (n, r)"
proof -
  let ?h = "u64_to_le (pn_node_id n) @ u32_to_le (pn_domain_id n)"
  let ?e = "u16_to_le (pn_quic_port n) @ u32_to_le (of_nat (length (pn_quic_addrs n)))"
  let ?a = "concat (pn_quic_addrs n)"
  let ?ps = "pn_published_topics n" and ?ss = "pn_subscribed_topics n"
  have split: "enc_node n @ r =
      ?h @ (enc_string (pn_node_name n) @ (enc_string (pn_node_namespace n) @
        (u32_to_le (of_nat (length ?ps)) @ (concat (map enc_topic ?ps) @
          (u32_to_le (of_nat (length ?ss)) @ (concat (map enc_topic ?ss) @ (?e @ (?a @ r))))))))"
    by (simp add: enc_node_def)
  have fields: "take 8 ?h = u64_to_le (pn_node_id n)" "drop 8 ?h = u32_to_le (pn_domain_id n)"
      "take 2 ?e = u16_to_le (pn_quic_port n)" "drop 2 ?e = u32_to_le (of_nat (length (pn_quic_addrs n)))"
    by simp_all
  have needs: "need ''truncated node header'' 12 (?h @ x) = Ok (?h, x)"
      "need ''truncated endpoint'' 6 (?e @ x) = Ok (?e, x)" for x
    by (rule need_append, simp)+
  have counts: "unat (of_nat (length ?ps) :: u32) = length ?ps" "unat (of_nat (length ?ss) :: u32) = length ?ss"
      "min (unat (of_nat (length (pn_quic_addrs n)) :: u32)) 8 = length (pn_quic_addrs n)"
    using assms unat_of_nat32 [of "length ?ps"] unat_of_nat32 [of "length ?ss"]
      unat_of_nat32 [of "length (pn_quic_addrs n)"] by (simp_all add: node_ok_def)
  have lists: "dec_many read_topic (length ?ps) (concat (map enc_topic ?ps) @ x) = Ok (?ps, x)"
      "dec_many read_topic (length ?ss) (concat (map enc_topic ?ss) @ x) = Ok (?ss, x)" for x
    using assms topicc.dec_many_enc by (simp_all add: node_ok_def)
  have addrs: "need ''truncated addrs'' (length (pn_quic_addrs n) * 4) (?a @ x) = Ok (?a, x)"
      "chunks4 (length (pn_quic_addrs n)) ?a = pn_quic_addrs n" for x
    using assms length_concat4 [of "pn_quic_addrs n"] by (auto simp: node_ok_def chunks4_concat intro: need_append)
  have strs: "read_string (enc_string (pn_node_name n) @ x) = Ok (pn_node_name n, x)"
      "read_string (enc_string (pn_node_namespace n) @ x) = Ok (pn_node_namespace n, x)" for x
    using assms by (simp_all add: node_ok_def read_enc_string)
  show ?thesis
    unfolding read_node_def split Let_def
    by (simp only: bind_ok_simps prod.case needs fields from_le_u64 from_le_u32 from_le_u16 counts lists addrs strs
        read_int_append) simp
qed

lemma stable_read_node [stable_intros]: "stable_dec read_node"
  unfolding read_node_def Let_def by (intro stable_intros)

interpretation nodec: stable_codec enc_node read_node node_ok
  by unfold_locales (simp_all add: read_enc_node stable_read_node)

subsection \<open>Responses and requests\<close>

lemma decode_response_parts:
  assumes "length nodes < 2 ^ 32"
  shows "decode_sync_response ([0x02] @ u32_to_le d @ u32_to_le (of_nat (length nodes)) @ body) =
    bind_ok (dec_many read_node (length nodes) body) (\<lambda>(nodes, _). Ok (d, nodes))"
proof -
  let ?b = "[0x02] @ u32_to_le d @ u32_to_le (of_nat (length nodes)) @ body"
  have "take 4 (drop 1 ?b) = u32_to_le d" "take 4 (drop 5 ?b) = u32_to_le (of_nat (length nodes))" "drop 9 ?b = body"
      "\<not> length ?b < 9" "hd ?b = 0x02"
    by simp_all
  then show ?thesis
    unfolding decode_sync_response_def
    by (simp only: unat_of_nat32 [OF assms] from_le_u32 simp_thms if_False)
qed

lemma short_response: "length b < 9 \<Longrightarrow> decode_sync_response b = Err ''bad sync response''"
  by (simp add: decode_sync_response_def)

lemma decode_encoded_response:
  assumes "list_all node_ok nodes" "length nodes < 2 ^ 32"
  shows "decode_sync_response (encode_sync_response d nodes) = Ok (d, nodes)"
  using nodec.dec_many_enc [OF assms(1), of "[]"]
  unfolding encode_sync_response_def decode_response_parts [OF assms(2)] by simp

lemma push_request:
  assumes "list_all node_ok nodes" "length nodes < 2 ^ 32"
  defines "b d daemon \<equiv> encode_sync_request_with_nodes d daemon nodes"
  shows "decode_sync_request (b d daemon) = Ok d" "sync_request_daemon_id (b d daemon) = Ok (Some daemon)"
    "decode_sync_request_push (b d daemon) = Ok (Some (daemon, nodes))"
proof -
  let ?b = "b d daemon"
  have b: "take 4 (drop 1 ?b) = u32_to_le d" "take 8 (drop 5 ?b) = u64_to_le daemon"
      "drop 13 ?b = encode_sync_response d nodes" "hd ?b = 0x01" "22 \<le> length ?b"
    by (simp_all add: b_def encode_sync_request_with_nodes_def encode_sync_request_def encode_sync_response_def)
  show "decode_sync_request ?b = Ok d" unfolding decode_sync_request_def b using b(5) by simp
  show "sync_request_daemon_id ?b = Ok (Some daemon)" unfolding sync_request_daemon_id_def b using b(5) by simp
  show "decode_sync_request_push ?b = Ok (Some (daemon, nodes))"
    unfolding decode_sync_request_push_def b decode_encoded_response [OF assms(1,2)] using b(5) by simp
qed

subsection \<open>Properties\<close>

text \<open>C6: Sync messages survive the wire.  For nodes with at most eight addresses, and strings and lists whose lengths
  the format can express, decoding an encoded response gives its domain and its nodes; every proper prefix of it is
  rejected; and from a request that pushes the nodes the three request decoders give its domain, its daemon and its
  nodes.\<close>

theorem sync_messages_round_trip:
  assumes "list_all node_ok nodes" "length nodes < 2 ^ 32"
  shows "decode_sync_response (encode_sync_response d nodes) = Ok (d, nodes) \<and>
    (\<forall>n < length (encode_sync_response d nodes). \<exists>e. decode_sync_response (take n (encode_sync_response d nodes)) = Err e) \<and>
    decode_sync_request (encode_sync_request_with_nodes d daemon nodes) = Ok d \<and>
    sync_request_daemon_id (encode_sync_request_with_nodes d daemon nodes) = Ok (Some daemon) \<and>
    decode_sync_request_push (encode_sync_request_with_nodes d daemon nodes) = Ok (Some (daemon, nodes))"
proof (intro conjI allI impI)
  note resp = decode_encoded_response [OF assms, of d]
  show "decode_sync_response (encode_sync_response d nodes) = Ok (d, nodes)" by (rule resp)
  fix n
  assume n: "n < length (encode_sync_response d nodes)"
  show "\<exists>e. decode_sync_response (take n (encode_sync_response d nodes)) = Err e"
  proof (cases "n < 9")
    case True
    then show ?thesis using short_response [of "take n (encode_sync_response d nodes)"] by simp
  next
    case False
    then obtain k where k: "n = 9 + k" using le_Suc_ex not_less by blast
    with n have "k < length (concat (map enc_node nodes))" by (simp add: encode_sync_response_def)
    then obtain e where "dec_many read_node (length nodes) (take k (concat (map enc_node nodes))) = Err e"
      using nodec.truncated_many_rejected [OF assms(1)] by blast
    moreover have "take n (encode_sync_response d nodes) =
        [0x02] @ u32_to_le d @ u32_to_le (of_nat (length nodes)) @ take k (concat (map enc_node nodes))"
      by (simp add: encode_sync_response_def k take_Cons')
    ultimately show ?thesis by (simp only: decode_response_parts [OF assms(2)] bind_ok_simps) simp
  qed
qed (rule push_request [OF assms])+

theorem sync_messages_round_trip_witness:
  "let n = \<lparr> pn_node_id = 3, pn_domain_id = 0,
             pn_published_topics = [\<lparr> pt_hash = 1, pt_type_hash = 2, pt_qos = qos_zero, pt_name = ''t'', pt_topic_type = ''T'',
               pt_node_name = ''n'', pt_node_namespace = ''/'' \<rparr>],
             pn_subscribed_topics = [], pn_quic_port = 7500, pn_quic_addrs = [[10, 0, 0, 1]],
             pn_node_name = ''n'', pn_node_namespace = ''/'' \<rparr> in
   decode_sync_response (encode_sync_response 42 [n]) = Ok (42, [n]) \<and>
   decode_sync_request_push (encode_sync_request_with_nodes 42 9 [n]) = Ok (Some (9, [n]))"
proof -
  let ?n = "\<lparr> pn_node_id = 3, pn_domain_id = 0,
             pn_published_topics = [\<lparr> pt_hash = 1, pt_type_hash = 2, pt_qos = qos_zero, pt_name = ''t'', pt_topic_type = ''T'',
               pt_node_name = ''n'', pt_node_namespace = ''/'' \<rparr>],
             pn_subscribed_topics = [], pn_quic_port = 7500, pn_quic_addrs = [[10, 0, 0, 1]],
             pn_node_name = ''n'', pn_node_namespace = ''/'' \<rparr>"
  have "list_all node_ok [?n]"
    by (simp add: node_ok_def topic_ok_def str16_def str_ok_def as_bytes_def)
  with sync_messages_round_trip [of "[?n]" 42 9] show ?thesis by (simp only: Let_def) simp
qed

end
