(* ===== verification/Process_Liveness.thy ===== *)
theory Process_Liveness
  imports Discovery_Shm
begin

text \<open>
  Whether the process behind a table entry is alive (\<^verbatim>\<open>daemon/discovery_shm.rs\<close>): reading the state
  and the start time out of the text of \<^verbatim>\<open>/proc/<pid>/stat\<close>.  The text is an argument, \<open>None\<close> when the file
  cannot be read.  A slice past the end of a string, or inside a character, panics.
\<close>

subsection \<open>Text\<close>

definition rfind :: "char \<Rightarrow> string \<Rightarrow> nat option" where
  "rfind c s = map_option (\<lambda>i. length s - 1 - i) (position (\<lambda>x. x = c) (rev s))"

definition slice_from :: "string \<Rightarrow> nat \<Rightarrow> string outcome" where
  "slice_from s i =
     (if i = length s \<or> (i < length s \<and> \<not> utf8_cont (as_bytes s ! i)) then Return (drop i s) else Panic)"

text \<open>\<open>str::split_whitespace\<close>, on the codes of the bytes.\<close>

definition leading_space :: "nat list \<Rightarrow> nat list option" where
  "leading_space s = find (\<lambda>w. take (length w) s = w) whitespace_chars"

function split_go :: "nat list \<Rightarrow> nat list \<Rightarrow> nat list list" where
  "split_go cur [] = (if cur = [] then [] else [cur])"
| "split_go cur (c # s) =
     (case leading_space (c # s) of
        None \<Rightarrow> split_go (cur @ [c]) s
      | Some w \<Rightarrow> (if cur = [] then [] else [cur]) @ split_go [] (drop (length w - 1) s))"
  by pat_completeness auto
termination
  by (relation "measure (\<lambda>(cur, s). length s)") auto

definition split_whitespace :: "string \<Rightarrow> string list" where
  "split_whitespace s = map (map char_of) (split_go [] (codes s))"

subsection \<open>The stat file\<close>

definition start_field :: "string \<Rightarrow> string option" where
  "start_field rest = (let ts = split_whitespace rest in if 19 < length ts then Some (ts ! 19) else None)"

definition read_proc_starttime :: "bytes option \<Rightarrow> u64 option outcome" where
  "read_proc_starttime content =
     (case Option.bind content from_utf8 of
        None \<Rightarrow> Return None
      | Some buf \<Rightarrow>
          (case rfind (CHR '')'') buf of
             None \<Rightarrow> Return None
           | Some p \<Rightarrow>
               (case slice_from buf (p + 2) of
                  Panic \<Rightarrow> Panic
                | Return rest \<Rightarrow> Return (map_option of_nat (Option.bind (start_field rest) (parse_unsigned 64))))))"

definition is_process_alive :: "u32 \<Rightarrow> bytes option \<Rightarrow> u64 \<Rightarrow> bool outcome" where
  "is_process_alive pid content expected =
     (if pid = 0 then Return False
      else
        (case Option.bind content from_utf8 of
           None \<Rightarrow> Return False
         | Some buf \<Rightarrow>
             (case rfind (CHR '')'') buf of
                None \<Rightarrow> Return False
              | Some p \<Rightarrow>
                  if length buf \<le> p + 2 then Return False
                  else if buf ! (p + 2) = CHR ''Z'' \<or> buf ! (p + 2) = CHR ''X'' then Return False
                  else
                    (case slice_from buf (p + 2) of
                       Panic \<Rightarrow> Panic
                     | Return rest \<Rightarrow>
                         (case Option.bind (start_field rest) (parse_unsigned 64) of
                            None \<Rightarrow> Return False
                          | Some t \<Rightarrow> Return (of_nat t = expected))))))"

definition is_daemon_node_alive :: "(u32 \<Rightarrow> bytes option) \<Rightarrow> node_table_entry \<Rightarrow> bool outcome" where
  "is_daemon_node_alive proc_stat e =
     (if ne_pid e > 0 then is_process_alive (ne_pid e) (proc_stat (ne_pid e)) (ne_proc_starttime e)
      else Return (ne_daemon_origin e \<noteq> 0))"

subsection \<open>Splitting a line of plain tokens\<close>

definition plain :: "char \<Rightarrow> bool" where
  "plain c \<longleftrightarrow> 33 \<le> (of_char c :: nat) \<and> of_char c \<le> (126 :: nat) \<and> c \<noteq> CHR '')''"

lemma whitespace_heads: "\<forall>w \<in> set whitespace_chars. w \<noteq> [] \<and> hd w \<in> {9, 10, 11, 12, 13, 32, 0xC2, 0xE1, 0xE2, 0xE3}"
  by (simp add: whitespace_chars_def ball_Un)

lemma leading_space_plain:
  assumes "33 \<le> c" "c \<le> 126"
  shows "leading_space (c # s) = None"
proof -
  have "take (length w) (c # s) \<noteq> w" if "w \<in> set whitespace_chars" for w
  proof
    assume "take (length w) (c # s) = w"
    moreover from that have "w \<noteq> []" "hd w \<in> {9, 10, 11, 12, 13, 32, 0xC2, 0xE1, 0xE2, 0xE3}"
      using whitespace_heads by auto
    ultimately have "hd w = c" by (cases w) auto
    with \<open>hd w \<in> _\<close> assms show False by auto
  qed
  then show ?thesis by (simp add: leading_space_def find_None_iff)
qed

lemma leading_space_blank:
  "leading_space (32 # s) = Some [32]" "leading_space (10 # s) = Some [10]"
  by (simp_all add: leading_space_def whitespace_chars_def)

lemma split_go_plain:
  assumes "\<forall>c \<in> set t. 33 \<le> c \<and> c \<le> (126 :: nat)"
  shows "split_go cur (t @ s) = split_go (cur @ t) s"
  using assms by (induction t arbitrary: cur) (simp_all add: leading_space_plain)

definition blank_joined :: "string list \<Rightarrow> string" where
  "blank_joined fs = concat (map (\<lambda>f. CHR '' '' # f) fs)"

lemma plain_codes: "list_all plain t \<Longrightarrow> \<forall>c \<in> set (codes t). 33 \<le> c \<and> c \<le> (126 :: nat)"
  by (auto simp: codes_def plain_def list_all_iff)

lemma split_go_joined:
  assumes "\<forall>f \<in> set fs. f \<noteq> [] \<and> list_all plain f" "cur \<noteq> []"
  shows "split_go cur (codes (blank_joined fs) @ [10]) = cur # map codes fs"
  using assms
proof (induction fs arbitrary: cur)
  case Nil
  then show ?case by (simp add: blank_joined_def codes_def leading_space_blank)
next
  case (Cons f fs)
  have "codes (blank_joined (f # fs)) @ [10] = 32 # codes f @ (codes (blank_joined fs) @ [10])"
    by (simp add: blank_joined_def codes_def)
  moreover have "split_go [] (codes f @ (codes (blank_joined fs) @ [10])) = codes f # map codes fs"
    using Cons split_go_plain [OF plain_codes, of f "[]"] by (simp add: codes_def)
  ultimately show ?case using Cons.prems(2) by (simp add: leading_space_blank)
qed

lemma char_of_codes [simp]: "map char_of (codes t) = t"
  by (induction t) (simp_all add: codes_def)

lemma split_whitespace_line:
  assumes "plain st" "\<forall>f \<in> set fs. f \<noteq> [] \<and> list_all plain f"
  shows "split_whitespace (st # blank_joined fs @ [CHR 0x0A]) = [st] # fs"
proof -
  have "codes (st # blank_joined fs @ [CHR 0x0A]) = codes [st] @ (codes (blank_joined fs) @ [10])"
    by (simp add: codes_def)
  moreover have "split_go [] (codes [st] @ (codes (blank_joined fs) @ [10])) = codes [st] # map codes fs"
    using split_go_plain [OF plain_codes, of "[st]" "[]"] split_go_joined [OF assms(2), of "codes [st]"] assms(1)
    by (simp add: codes_def)
  ultimately show ?thesis by (simp add: split_whitespace_def map_idI)
qed

lemma position_append_absent:
  "\<forall>x \<in> set xs. \<not> P x \<Longrightarrow> position P (xs @ ys) = map_option (\<lambda>i. length xs + i) (position P ys)"
proof (induction xs)
  case (Cons x xs)
  then show ?case by (cases "position P ys") simp_all
qed (cases "position P ys"; simp)

lemma rfind_last:
  assumes "c \<notin> set ys"
  shows "rfind c (xs @ c # ys) = Some (length xs)"
proof -
  have "\<forall>x \<in> set (rev ys). x \<noteq> c" using assms by auto
  then show ?thesis by (simp add: rfind_def position_append_absent)
qed

text \<open>A line of \<^verbatim>\<open>/proc/<pid>/stat\<close>: the command may contain any text, also blanks and parentheses.\<close>

definition stat_line :: "string \<Rightarrow> string \<Rightarrow> char \<Rightarrow> string list \<Rightarrow> string" where
  "stat_line p comm st fs = p @ '' ('' @ comm @ '') '' @ st # blank_joined fs @ [CHR 0x0A]"

lemma stat_line_parts:
  fixes p comm :: string
  assumes "plain st" "\<forall>f \<in> set fs. list_all plain f"
  defines "l \<equiv> stat_line p comm st fs" and "k \<equiv> length (p @ '' ('' @ comm)"
  shows "rfind (CHR '')'') l = Some k" "k + 2 < length l" "l ! (k + 2) = st"
    "slice_from l (k + 2) = Return (st # blank_joined fs @ [CHR 0x0A])"
proof -
  have l: "l = (p @ '' ('' @ comm) @ CHR '')'' # CHR '' '' # st # blank_joined fs @ [CHR 0x0A]"
    by (simp add: l_def stat_line_def)
  have "CHR '')'' \<notin> set (blank_joined fs)" "st \<noteq> CHR '')''"
    using assms(1,2) by (auto simp: blank_joined_def list_all_iff plain_def)
  then show "rfind (CHR '')'') l = Some k" unfolding l k_def by (intro rfind_last) auto
  show "k + 2 < length l" unfolding l k_def by simp
  show st: "l ! (k + 2) = st" unfolding l k_def by (simp add: nth_append)
  have "\<not> utf8_cont (of_nat (of_char st))"
    using assms(1) of_char_word_unat [of st] by (simp add: utf8_cont_def plain_def word_le_nat_alt)
  moreover have "as_bytes l ! (k + 2) = of_nat (of_char (l ! (k + 2)))"
    using \<open>k + 2 < length l\<close> by (simp add: as_bytes_def)
  moreover have "drop (k + 2) l = st # blank_joined fs @ [CHR 0x0A]"
    unfolding l k_def drop_append by (simp del: append_assoc)
  ultimately show "slice_from l (k + 2) = Return (st # blank_joined fs @ [CHR 0x0A])"
    using st \<open>k + 2 < length l\<close> by (simp add: slice_from_def)
qed

subsection \<open>Properties\<close>



end
