(* ===== verification/Peer_Sync.thy ===== *)
theory Peer_Sync
  imports Peer_Sync_Codec Process_Liveness
begin

text \<open>
  The graph a daemon shares with its peers (\<^verbatim>\<open>daemon/peer_sync.rs\<close>): describing the local nodes of a
  domain, merging the nodes another daemon pushed, and answering a sync message.

  Shared memory is the table \<open>node_table\<close>; a futex wake-up has no effect on it.  A slice past the end of
  an array panics.  The lemmas show that the in-place removal of matches is a filter, that a merge keeps the table
  well formed, what it leaves in the table, and what it does to nodes that did not come from the pushing daemon.
\<close>

subsection \<open>Describing nodes\<close>

text \<open>The bytes before the first zero, as a string.\<close>

definition cstr :: "bytes \<Rightarrow> bytes" where
  "cstr b = takeWhile (\<lambda>x. x \<noteq> 0) b"

definition utf8_or :: "string \<Rightarrow> bytes \<Rightarrow> string" where
  "utf8_or d b = (case from_utf8 b of Some s \<Rightarrow> s | None \<Rightarrow> d)"

definition slice_to :: "nat \<Rightarrow> 'a list \<Rightarrow> 'a list outcome" where
  "slice_to n xs = (if n \<le> length xs then Return (take n xs) else Panic)"

definition topic_entry_to_info :: "string \<Rightarrow> string \<Rightarrow> topic_entry \<Rightarrow> peer_topic_info" where
  "topic_entry_to_info node_name node_namespace t =
     (let topic_node_name = utf8_or node_name (cstr (te_node_name t));
          topic_node_namespace = utf8_or node_namespace (cstr (te_node_namespace t)) in
      \<lparr> pt_hash = te_hash t, pt_type_hash = te_type_hash t, pt_qos = te_qos t,
        pt_name = utf8_or [] (cstr (te_topic_name t)), pt_topic_type = utf8_or [] (cstr (te_topic_type t)),
        pt_node_name = (if topic_node_name = [] then node_name else topic_node_name),
        pt_node_namespace = (if topic_node_namespace = [] then node_namespace else topic_node_namespace) \<rparr>)"

definition node_entry_to_info :: "node_table_entry \<Rightarrow> string \<Rightarrow> string \<Rightarrow> peer_node_info outcome" where
  "node_entry_to_info e node_name node_namespace =
     (case (slice_to (unat (ne_pub_count e)) (ne_published e), slice_to (unat (ne_sub_count e)) (ne_subscribed e)) of
        (Return ps, Return ss) \<Rightarrow>
          Return \<lparr> pn_node_id = ne_node_id e, pn_domain_id = ne_domain_id e,
            pn_published_topics = map (topic_entry_to_info node_name node_namespace) ps,
            pn_subscribed_topics = map (topic_entry_to_info node_name node_namespace) ss,
            pn_quic_port = ne_quic_port e,
            pn_quic_addrs = take (min (unat (ne_quic_addr_count e)) MAX_QUIC_ADDRS) (ne_quic_addrs e),
            pn_node_name = node_name, pn_node_namespace = node_namespace \<rparr>
      | _ \<Rightarrow> Panic)"

text \<open>Whether \<open>collect_domain_nodes\<close> reaches the end of its loop body for an entry.\<close>

definition collectable :: "(u32 \<Rightarrow> bytes option) \<Rightarrow> u32 \<Rightarrow> node_table_entry \<Rightarrow> bool outcome" where
  "collectable proc_stat domain e =
     (if ne_state e \<noteq> 2 \<or> ne_domain_id e \<noteq> domain \<or> ne_daemon_origin e \<noteq> 0 then Return False
      else if ne_pid e > 0 then is_process_alive (ne_pid e) (proc_stat (ne_pid e)) (ne_proc_starttime e)
      else Return True)"

fun collect_domain_nodes :: "(u32 \<Rightarrow> bytes option) \<Rightarrow> u32 \<Rightarrow> node_table_entry list \<Rightarrow> peer_node_info list outcome" where
  "collect_domain_nodes proc_stat domain [] = Return []"
| "collect_domain_nodes proc_stat domain (e # es) =
     (case collectable proc_stat domain e of
        Panic \<Rightarrow> Panic
      | Return False \<Rightarrow> collect_domain_nodes proc_stat domain es
      | Return True \<Rightarrow>
          (case node_entry_to_info e (utf8_or [] (cstr (ne_node_name e))) (utf8_or ''/'' (cstr (ne_node_namespace e))) of
             Panic \<Rightarrow> Panic
           | Return n \<Rightarrow>
               (case collect_domain_nodes proc_stat domain es of Panic \<Rightarrow> Panic | Return ns \<Rightarrow> Return (n # ns))))"

subsection \<open>Storing nodes\<close>

definition copy_str :: "nat \<Rightarrow> string \<Rightarrow> bytes" where
  "copy_str n s = (let b = take (n - 1) (as_bytes s) in b @ replicate (n - length b) 0)"

definition topic_info_to_entry :: "peer_topic_info \<Rightarrow> topic_entry" where
  "topic_info_to_entry t =
     \<lparr> te_hash = pt_hash t, te_type_hash = pt_type_hash t, te_qos = pt_qos t,
       te_topic_name = copy_str MAX_NAME_LEN (pt_name t), te_topic_type = copy_str MAX_NAME_LEN (pt_topic_type t),
       te_node_name = copy_str MAX_NAME_LEN (pt_node_name t),
       te_node_namespace = copy_str MAX_NAME_LEN (pt_node_namespace t) \<rparr>"

definition topics_match :: "u32 \<Rightarrow> topic_entry list \<Rightarrow> peer_topic_info list \<Rightarrow> bool" where
  "topics_match count current incoming =
     (let n = min (length incoming) (length current) in
      unat count = n \<and> list_all (\<lambda>(c, i). c = topic_info_to_entry i) (zip (take n current) incoming))"

definition peer_node_endpoints_match :: "node_table_entry \<Rightarrow> peer_node_info \<Rightarrow> bool" where
  "peer_node_endpoints_match e n =
     (if ne_domain_id e \<noteq> pn_domain_id n \<or> ne_quic_port e \<noteq> pn_quic_port n \<or>
         unat (ne_quic_addr_count e) \<noteq> min (length (pn_quic_addrs n)) MAX_QUIC_ADDRS \<or>
         take (min (unat (ne_quic_addr_count e)) (length (ne_quic_addrs e))) (ne_quic_addrs e) \<noteq>
           take (min (length (pn_quic_addrs n)) MAX_QUIC_ADDRS) (pn_quic_addrs n) then False
      else topics_match (ne_pub_count e) (ne_published e) (pn_published_topics n) \<and>
           topics_match (ne_sub_count e) (ne_subscribed e) (pn_subscribed_topics n))"

definition clear_node_entry :: "node_table_entry \<Rightarrow> node_table_entry" where
  "clear_node_entry e =
     \<lparr> ne_state = 0, ne_domain_id = 0, ne_pid = 0, ne_proc_starttime = 0, ne_pub_count = 0, ne_sub_count = 0,
       ne_quic_port = 0, ne_match_count = 0, ne_node_id = 0, ne_response_gen = 0, ne_quic_addr_count = 0,
       ne_quic_addrs = replicate MAX_QUIC_ADDRS (replicate 4 0), ne_daemon_origin = 0, ne_last_seen_secs = 0,
       ne_node_name = replicate MAX_NAME_LEN 0, ne_node_namespace = replicate MAX_NAME_LEN 0,
       ne_published = map (\<lambda>_. topic_entry_default) (ne_published e),
       ne_subscribed = map (\<lambda>_. topic_entry_default) (ne_subscribed e),
       ne_matches = map (\<lambda>_. match_zero) (ne_matches e) \<rparr>"

subsection \<open>Removing matches\<close>

text \<open>The loop moves the matches to keep to the front: \<open>k\<close> entries are left to read, the next is
  \<open>read_idx\<close>.\<close>

primrec compact_matches :: "nat \<Rightarrow> u64 \<Rightarrow> nat \<Rightarrow> nat \<Rightarrow> match_entry list \<Rightarrow> nat \<times> match_entry list" where
  "compact_matches 0 dead read_idx write_idx ms = (write_idx, ms)"
| "compact_matches (Suc k) dead read_idx write_idx ms =
     (let m = ms ! read_idx in
      if me_node_id m \<noteq> dead then
        compact_matches k dead (Suc read_idx) (Suc write_idx) (if write_idx \<noteq> read_idx then ms[write_idx := m] else ms)
      else compact_matches k dead (Suc read_idx) write_idx ms)"

definition remove_from_entry :: "u64 \<Rightarrow> node_table_entry \<Rightarrow> node_table_entry" where
  "remove_from_entry dead e =
     (if ne_state e \<noteq> 2 then e
      else
        (let count = min (unat (ne_match_count e)) MAX_MATCHES;
             (write_idx, ms) = compact_matches count dead 0 0 (ne_matches e) in
         if write_idx < count then
           e\<lparr> ne_matches := fold (\<lambda>i ms. ms[i := match_zero]) [write_idx..<count] ms,
              ne_match_count := of_nat write_idx, ne_response_gen := ne_response_gen e + 1 \<rparr>
         else e\<lparr> ne_matches := ms \<rparr>))"

definition remove_matches_for_node :: "u64 \<Rightarrow> node_table_entry list \<Rightarrow> node_table_entry list" where
  "remove_matches_for_node dead tab = map (remove_from_entry dead) tab"

subsection \<open>Merging\<close>

definition replaced_by_push :: "u64 \<Rightarrow> u64 list \<Rightarrow> node_table_entry \<Rightarrow> bool" where
  "replaced_by_push origin incoming e \<longleftrightarrow> ne_state e \<noteq> 0 \<and>
     (ne_daemon_origin e = origin \<and> ne_node_id e \<notin> set incoming \<or>
      ne_daemon_origin e \<noteq> 0 \<and> ne_daemon_origin e \<noteq> origin \<and> ne_node_id e \<in> set incoming)"

definition clear_replaced :: "u64 \<Rightarrow> u64 list \<Rightarrow> node_table_entry list \<Rightarrow> u64 list \<times> node_table_entry list" where
  "clear_replaced origin incoming tab =
     (filter (\<lambda>i. i \<noteq> 0) (map ne_node_id (filter (replaced_by_push origin incoming) tab)),
      map (\<lambda>e. if replaced_by_push origin incoming e then clear_node_entry e else e) tab)"

definition fill_topics :: "topic_entry list \<Rightarrow> peer_topic_info list \<Rightarrow> u32 \<times> topic_entry list" where
  "fill_topics old topics =
     (let n = min (length topics) (length old) in
      (of_nat n, map topic_info_to_entry (take n topics) @ replicate (length old - n) topic_entry_default))"

definition write_node :: "u64 \<Rightarrow> u64 \<Rightarrow> bool \<Rightarrow> peer_node_info \<Rightarrow> node_table_entry \<Rightarrow> node_table_entry" where
  "write_node now_secs origin is_new n e =
     (let e = (if is_new then clear_node_entry e else e);
          addrs = take MAX_QUIC_ADDRS (pn_quic_addrs n);
          (pub_count, published) = fill_topics (ne_published e) (pn_published_topics n);
          (sub_count, subscribed) = fill_topics (ne_subscribed e) (pn_subscribed_topics n) in
      e\<lparr> ne_node_id := pn_node_id n, ne_domain_id := pn_domain_id n, ne_pid := 0, ne_proc_starttime := 0,
         ne_quic_port := pn_quic_port n,
         ne_quic_addrs := addrs @ replicate (MAX_QUIC_ADDRS - length addrs) (replicate 4 0),
         ne_quic_addr_count := of_nat (length addrs), ne_daemon_origin := origin, ne_last_seen_secs := now_secs,
         ne_node_name := copy_str MAX_NAME_LEN (pn_node_name n),
         ne_node_namespace := copy_str MAX_NAME_LEN (pn_node_namespace n),
         ne_pub_count := pub_count, ne_published := published,
         ne_sub_count := sub_count, ne_subscribed := subscribed, ne_state := 2 \<rparr>)"

text \<open>One round of the loop over the incoming nodes; \<open>None\<close> when the table is full and the loop stops.\<close>

definition merge_one :: "u64 \<Rightarrow> u64 \<Rightarrow> peer_node_info \<Rightarrow> node_table_entry list \<Rightarrow> node_table_entry list option" where
  "merge_one now_secs origin n tab =
     (let existing = find_slot_by_node_id (pn_node_id n) tab in
      case (case existing of Some i \<Rightarrow> Some i | None \<Rightarrow> find_free_slot tab) of
        None \<Rightarrow> None
      | Some idx \<Rightarrow>
          (let endpoints_changed = (case existing of Some i \<Rightarrow> \<not> peer_node_endpoints_match (tab ! i) n | None \<Rightarrow> False);
               tab = (if endpoints_changed then remove_matches_for_node (pn_node_id n) tab else tab) in
           Some (tab[idx := write_node now_secs origin (existing = None) n (tab ! idx)])))"

fun merge_all :: "u64 \<Rightarrow> u64 \<Rightarrow> peer_node_info list \<Rightarrow> node_table_entry list \<Rightarrow> node_table_entry list" where
  "merge_all now_secs origin [] tab = tab"
| "merge_all now_secs origin (n # ns) tab =
     (case merge_one now_secs origin n tab of None \<Rightarrow> tab | Some tab' \<Rightarrow> merge_all now_secs origin ns tab')"

definition merge_remote_nodes :: "u64 \<Rightarrow> u64 \<Rightarrow> peer_node_info list \<Rightarrow> shm_discovery \<Rightarrow> shm_discovery" where
  "merge_remote_nodes now_secs origin nodes shm =
     (if origin = 0 then shm
      else
        (let (cleared, tab) = clear_replaced origin (map pn_node_id nodes) (node_table shm);
             tab = fold remove_matches_for_node cleared tab;
             tab = merge_all now_secs origin nodes tab in
         shm\<lparr> node_table := tab, sd_header := (sd_header shm)\<lparr> sh_generation := sh_generation (sd_header shm) + 1 \<rparr> \<rparr>))"

definition handle_sync_payload ::
  "(u32 \<Rightarrow> bytes option) \<Rightarrow> u64 \<Rightarrow> bytes \<Rightarrow> shm_discovery \<Rightarrow> ((bytes, string) rust_result \<times> shm_discovery) outcome" where
  "handle_sync_payload proc_stat now_secs data shm =
     (if data = [] then Return (Ok [], shm)
      else if hd data = MSG_SYNC_REQUEST then
        (case decode_sync_request data of
           Err e \<Rightarrow> Return (Err e, shm)
         | Ok domain \<Rightarrow>
             (case decode_sync_request_push data of
                Err e \<Rightarrow> Return (Err e, shm)
              | Ok push \<Rightarrow>
                  (let shm = (case push of None \<Rightarrow> shm | Some (daemon_id, nodes) \<Rightarrow> merge_remote_nodes now_secs daemon_id nodes shm) in
                   case collect_domain_nodes proc_stat domain (node_table shm) of
                     Panic \<Rightarrow> Panic
                   | Return nodes \<Rightarrow> Return (Ok (encode_sync_response domain nodes), shm))))
      else if hd data = MSG_PING then Return (Ok encode_pong, shm)
      else Return (Err ''unsupported daemon sync message'', shm))"

subsection \<open>The removal is a filter\<close>

abbreviation keeps :: "u64 \<Rightarrow> match_entry \<Rightarrow> bool" where
  "keeps dead m \<equiv> me_node_id m \<noteq> dead"

lemma compact_spec:
  assumes "r + k \<le> length ms" "w \<le> r"
  shows "\<exists>ms'. compact_matches k dead r w ms = (w + length (filter (keeps dead) (take k (drop r ms))), ms') \<and>
    length ms' = length ms \<and>
    take (w + length (filter (keeps dead) (take k (drop r ms)))) ms' = take w ms @ filter (keeps dead) (take k (drop r ms)) \<and>
    drop (r + k) ms' = drop (r + k) ms"
  using assms
proof (induction k arbitrary: r w ms)
  case (Suc k)
  have r: "r < length ms" using Suc.prems by simp
  then have next_match: "take (Suc k) (drop r ms) = ms ! r # take k (drop (Suc r) ms)"
    by (simp add: Cons_nth_drop_Suc [symmetric])
  show ?case
  proof (cases "keeps dead (ms ! r)")
    case True
    let ?ms = "if w \<noteq> r then ms[w := ms ! r] else ms"
    have ms: "length ?ms = length ms" "drop (Suc r) ?ms = drop (Suc r) ms" "take (Suc w) ?ms = take w ms @ [ms ! r]"
      "drop (Suc r + k) ?ms = drop (Suc r + k) ms"
      using Suc.prems r by (auto simp: take_Suc_conv_app_nth)
    from Suc.IH [of "Suc r" ?ms "Suc w"] Suc.prems ms show ?thesis
      unfolding next_match using True by (auto simp: Let_def)
  next
    case False
    from Suc.IH [of "Suc r" ms w] Suc.prems show ?thesis
      unfolding next_match using False by (auto simp: Let_def)
  qed
qed simp

lemma zero_range:
  "w \<le> c \<Longrightarrow> c \<le> length ms \<Longrightarrow>
   fold (\<lambda>i ms. ms[i := z]) [w..<c] ms = take w ms @ replicate (c - w) z @ drop c ms"
proof (induction c)
  case (Suc c)
  show ?case
  proof (cases "w = Suc c")
    case False
    then have "w \<le> c" using Suc.prems by simp
    then have "fold (\<lambda>i ms. ms[i := z]) [w..<Suc c] ms = (take w ms @ replicate (c - w) z @ drop c ms)[c := z]"
      using Suc by simp
    also have "\<dots> = take w ms @ replicate (c - w) z @ (drop c ms)[0 := z]"
      using \<open>w \<le> c\<close> Suc.prems by (simp add: list_update_append)
    also have "(drop c ms)[0 := z] = z # drop (Suc c) ms"
      using Suc.prems by (simp add: Cons_nth_drop_Suc [symmetric])
    also have "replicate (c - w) z @ z # drop (Suc c) ms = replicate (Suc c - w) z @ drop (Suc c) ms"
      using \<open>w \<le> c\<close> by (simp add: Suc_diff_le replicate_app_Cons_same)
    finally show ?thesis .
  qed simp
qed simp

lemma filter_full: "length xs \<le> length (filter P xs) \<Longrightarrow> filter P xs = xs"
  unfolding filter_id_conv using length_filter_less [of _ xs P] by (meson not_le)

text \<open>The reference: the matches of an active entry without those of the dead node.\<close>

definition filtered_entry :: "u64 \<Rightarrow> node_table_entry \<Rightarrow> node_table_entry" where
  "filtered_entry dead e =
     (let c = min (unat (ne_match_count e)) MAX_MATCHES; kept = filter (keeps dead) (take c (ne_matches e)) in
      if ne_state e = 2 \<and> length kept < c then
        e\<lparr> ne_matches := kept @ replicate (c - length kept) match_zero @ drop c (ne_matches e),
           ne_match_count := of_nat (length kept), ne_response_gen := ne_response_gen e + 1 \<rparr>
      else e)"

lemma compact_front:
  assumes "c \<le> length ms" "compact_matches c dead 0 0 ms = (n, ms')"
  shows "n = length (filter (keeps dead) (take c ms))" "n \<le> c" "length ms' = length ms"
    "take n ms' = filter (keeps dead) (take c ms)" "drop c ms' = drop c ms" "\<not> n < c \<Longrightarrow> ms' = ms"
proof -
  let ?kept = "filter (keeps dead) (take c ms)"
  show n: "n = length ?kept" and len: "length ms' = length ms" and front: "take n ms' = ?kept" and rest: "drop c ms' = drop c ms"
    using compact_spec [of 0 c ms 0 dead] assms by auto
  show "n \<le> c" using n assms(1) length_filter_le [of "keeps dead" "take c ms"] by simp
  assume "\<not> n < c"
  then have "length (take c ms) \<le> length ?kept" "n = c" using assms(1) n \<open>n \<le> c\<close> by simp_all
  then have "take c ms' = take c ms" using front filter_full [of "take c ms" "keeps dead"] by simp
  with rest show "ms' = ms" by (metis append_take_drop_id)
qed

lemma remove_from_entry_filter:
  assumes "length (ne_matches e) = MAX_MATCHES"
  shows "remove_from_entry dead e = filtered_entry dead e"
proof (cases "ne_state e = 2")
  case True
  define c where "c = min (unat (ne_match_count e)) 1024"
  obtain n ms' where comp: "compact_matches c dead 0 0 (ne_matches e) = (n, ms')" by fastforce
  have c: "c \<le> length (ne_matches e)" using assms by (simp add: c_def)
  note front = compact_front [OF c comp]
  have "fold (\<lambda>i ms. ms[i := match_zero]) [n..<c] ms' = take n ms' @ replicate (c - n) match_zero @ drop c ms'"
    using zero_range [OF front(2), of ms'] c front(3) by simp
  with True comp front show ?thesis
    unfolding remove_from_entry_def filtered_entry_def c_def [symmetric] Let_def
    by (cases "n < c") simp_all
qed (simp add: remove_from_entry_def filtered_entry_def Let_def)

subsection \<open>What the removal leaves alone\<close>

text \<open>An entry without its matches, their count and the counter that announces a change of them.\<close>

definition core :: "node_table_entry \<Rightarrow> node_table_entry" where
  "core e = e\<lparr> ne_matches := [], ne_match_count := 0, ne_response_gen := 0 \<rparr>"

lemma core_fields [simp]:
  "ne_state (core e) = ne_state e" "ne_node_id (core e) = ne_node_id e" "ne_daemon_origin (core e) = ne_daemon_origin e"
  by (simp_all add: core_def)

lemma core_eqD:
  assumes "core e = core e'"
  shows "ne_state e = ne_state e'" "ne_node_id e = ne_node_id e'" "ne_daemon_origin e = ne_daemon_origin e'"
  using arg_cong [OF assms, of ne_state] arg_cong [OF assms, of ne_node_id] arg_cong [OF assms, of ne_daemon_origin]
  by simp_all

lemma core_remove [simp]: "core (remove_from_entry d e) = core e"
  by (simp add: remove_from_entry_def core_def Let_def split: prod.splits)

lemma core_remove_matches [simp]: "map core (remove_matches_for_node d tab) = map core tab"
  by (simp add: remove_matches_for_node_def)

lemma core_fold_remove: "map core (fold remove_matches_for_node ds tab) = map core tab"
  by (induction ds arbitrary: tab) simp_all

lemma map_core_nth: "map core xs = map core ys \<Longrightarrow> j < length ys \<Longrightarrow> core (xs ! j) = core (ys ! j)"
  by (metis length_map nth_map)

subsection \<open>Well-formed tables\<close>

lemma filtered_entry_wf: "entry_wf e \<Longrightarrow> entry_wf (filtered_entry d e)"
  by (auto simp: entry_wf_def filtered_entry_def Let_def)

lemma remove_from_entry_wf: "entry_wf e \<Longrightarrow> entry_wf (remove_from_entry d e)"
  using filtered_entry_wf [of e d] remove_from_entry_filter [of e d] by (simp add: entry_wf_def)

lemma remove_matches_wf: "list_all entry_wf tab \<Longrightarrow> list_all entry_wf (remove_matches_for_node d tab)"
  by (simp add: list_all_iff remove_matches_for_node_def remove_from_entry_wf)

lemma fold_remove_wf: "list_all entry_wf tab \<Longrightarrow> list_all entry_wf (fold remove_matches_for_node ds tab)"
  by (induction ds arbitrary: tab) (simp_all add: remove_matches_wf)

lemma fold_remove_length [simp]: "length (fold remove_matches_for_node ds tab) = length tab"
  by (induction ds arbitrary: tab) (simp_all add: remove_matches_for_node_def)

lemma topic_default_wf [simp]: "topic_wf topic_entry_default"
  by (simp add: topic_wf_def topic_entry_default_def)

lemma length_copy_str [simp]: "0 < n \<Longrightarrow> length (copy_str n s) = n"
  by (simp add: copy_str_def Let_def)

lemma topic_info_wf [simp]: "topic_wf (topic_info_to_entry t)"
  by (simp add: topic_wf_def topic_info_to_entry_def)

lemma clear_wf [simp]: "entry_wf e \<Longrightarrow> entry_wf (clear_node_entry e)"
  by (simp add: entry_wf_def clear_node_entry_def list_all_iff)

lemma fill_topics_wf:
  assumes "length old = MAX_TOPICS_PER_NODE" "fill_topics old ts = (c, new)"
  shows "length new = MAX_TOPICS_PER_NODE" "list_all topic_wf new" "unat c = min (length ts) MAX_TOPICS_PER_NODE"
  using assms unat_of_nat32 [of "min (length ts) 256"]
  by (auto simp: fill_topics_def Let_def list_all_iff)

definition addrs_ok :: "peer_node_info \<Rightarrow> bool" where
  "addrs_ok n \<longleftrightarrow> (\<forall>a \<in> set (pn_quic_addrs n). length a = 4)"

lemma write_node_wf:
  assumes "entry_wf e" "addrs_ok n"
  shows "entry_wf (write_node now origin b n e)"
proof -
  define e1 where "e1 = (if b then clear_node_entry e else e)"
  have e1: "entry_wf e1" using assms(1) by (simp add: e1_def)
  obtain pc ps where p: "fill_topics (ne_published e1) (pn_published_topics n) = (pc, ps)" by fastforce
  obtain sc ss where s: "fill_topics (ne_subscribed e1) (pn_subscribed_topics n) = (sc, ss)" by fastforce
  note pw = fill_topics_wf [OF _ p] and sw = fill_topics_wf [OF _ s]
  show ?thesis
    unfolding write_node_def Let_def e1_def [symmetric] p s
    using e1 pw sw assms(2) by (auto simp: entry_wf_def addrs_ok_def dest: in_set_takeD)
qed

lemma merge_one_wf:
  assumes "merge_one now origin n tab = Some tab'" "list_all entry_wf tab" "addrs_ok n"
  shows "list_all entry_wf tab' \<and> length tab' = length tab"
proof -
  obtain idx tab1 b where tab1: "tab1 = tab \<or> tab1 = remove_matches_for_node (pn_node_id n) tab"
      "tab' = tab1[idx := write_node now origin b n (tab1 ! idx)]" "idx < length tab"
    using assms(1) unfolding merge_one_def find_slot_by_node_id_def find_free_slot_def Let_def
    by (auto split: option.splits if_splits dest: position_Some)
  have wf1: "list_all entry_wf tab1" "length tab1 = length tab"
    using tab1(1) assms(2) remove_matches_wf by (auto simp: remove_matches_for_node_def)
  then have "entry_wf (write_node now origin b n (tab1 ! idx))"
    using tab1(3) assms(3) by (intro write_node_wf) (auto simp: list_all_iff)
  with wf1 show ?thesis
    unfolding tab1(2) by (auto simp: list_all_iff dest!: set_update_subset_insert [THEN subsetD])
qed

lemma merge_all_wf:
  "list_all entry_wf tab \<Longrightarrow> list_all addrs_ok ns \<Longrightarrow>
   list_all entry_wf (merge_all now origin ns tab) \<and> length (merge_all now origin ns tab) = length tab"
proof (induction ns arbitrary: tab)
  case (Cons n ns)
  show ?case
  proof (cases "merge_one now origin n tab")
    case (Some tab')
    then have "list_all entry_wf tab'" "length tab' = length tab" using merge_one_wf [OF Some] Cons.prems by simp_all
    with Cons.IH [of tab'] Cons.prems Some show ?thesis by simp
  qed (use Cons.prems in simp)
qed simp

lemma clear_replaced_wf:
  "list_all entry_wf tab \<Longrightarrow> clear_replaced origin ids tab = (cl, tab') \<Longrightarrow>
   list_all entry_wf tab' \<and> length tab' = length tab"
  by (auto simp: clear_replaced_def list_all_iff)

subsection \<open>What a merge leaves in the table\<close>

definition stores :: "u64 \<Rightarrow> peer_node_info \<Rightarrow> node_table_entry \<Rightarrow> bool" where
  "stores origin n e \<longleftrightarrow> ne_state e = 2 \<and> ne_node_id e = pn_node_id n \<and> ne_daemon_origin e = origin \<and>
     peer_node_endpoints_match e n"

lemma endpoints_core: "peer_node_endpoints_match (core e) n = peer_node_endpoints_match e n"
  by (simp add: peer_node_endpoints_match_def core_def)

lemma stores_core: "core e = core e' \<Longrightarrow> stores origin n e = stores origin n e'"
  using core_eqD [of e e'] endpoints_core [of e n] endpoints_core [of e' n] by (simp add: stores_def)

lemma fill_topics_match:
  assumes "length old = MAX_TOPICS_PER_NODE" "fill_topics old ts = (c, new)"
  shows "topics_match c new ts"
proof -
  define k where "k = min (length ts) (length old)"
  have k: "k \<le> length ts" "min (length ts) (length new) = k"
    using fill_topics_wf(1) [OF assms] assms(1) by (simp_all add: k_def)
  have new: "new = map topic_info_to_entry (take k ts) @ replicate (length old - k) topic_entry_default"
    using assms(2) by (auto simp: fill_topics_def k_def Let_def)
  have "take k new = map topic_info_to_entry (take k ts)" unfolding new using k(1) by simp
  moreover have "zip (map topic_info_to_entry (take k ts)) ts = map (\<lambda>i. (topic_info_to_entry i, i)) (take k ts)"
    by (rule nth_equalityI) (use k(1) in simp_all)
  moreover have "unat c = k" using fill_topics_wf(3) [OF assms] assms(1) by (simp add: k_def)
  ultimately show ?thesis unfolding topics_match_def Let_def k(2) by (simp add: list_all_iff)
qed

lemma write_node_stores:
  assumes "entry_wf e"
  shows "stores origin n (write_node now origin b n e)"
proof -
  define e1 where "e1 = (if b then clear_node_entry e else e)"
  have e1: "entry_wf e1" using assms by (simp add: e1_def)
  obtain pc ps where p: "fill_topics (ne_published e1) (pn_published_topics n) = (pc, ps)" by fastforce
  obtain sc ss where s: "fill_topics (ne_subscribed e1) (pn_subscribed_topics n) = (sc, ss)" by fastforce
  have "unat (of_nat (min (length (pn_quic_addrs n)) 8) :: u32) = min (length (pn_quic_addrs n)) 8"
    by (rule unat_of_nat32) simp
  moreover have "topics_match pc ps (pn_published_topics n)" "topics_match sc ss (pn_subscribed_topics n)"
    using e1 p s by (auto simp: entry_wf_def intro: fill_topics_match)
  ultimately show ?thesis
    unfolding write_node_def Let_def e1_def [symmetric] p s
    by (simp add: stores_def peer_node_endpoints_match_def min.commute)
qed

text \<open>One round writes one slot, which was free or held the same node, and leaves every other slot
  as it was up to its matches.\<close>

lemma merge_one_spec:
  assumes "merge_one now origin n tab = Some tab'" "list_all entry_wf tab"
  shows "\<exists>i < length tab. (ne_state (tab ! i) = 0 \<or> ne_node_id (tab ! i) = pn_node_id n) \<and>
    stores origin n (tab' ! i) \<and> length tab' = length tab \<and>
    (\<forall>j < length tab. j \<noteq> i \<longrightarrow> core (tab' ! j) = core (tab ! j))"
proof -
  obtain idx tab1 b where tab1: "tab1 = tab \<or> tab1 = remove_matches_for_node (pn_node_id n) tab"
      "tab' = tab1[idx := write_node now origin b n (tab1 ! idx)]" "idx < length tab"
      "ne_state (tab ! idx) = 0 \<or> ne_node_id (tab ! idx) = pn_node_id n"
    using assms(1) unfolding merge_one_def find_slot_by_node_id_def find_free_slot_def Let_def
    by (auto split: option.splits if_splits dest: position_Some)
  have wf1: "list_all entry_wf tab1" "map core tab1 = map core tab"
    using tab1(1) assms(2) remove_matches_wf by auto
  have len: "length tab1 = length tab" using wf1(2) by (metis length_map)
  have "stores origin n (tab' ! idx)"
    using tab1(2,3) wf1(1) len by (simp add: write_node_stores list_all_length)
  moreover have "\<forall>j < length tab. j \<noteq> idx \<longrightarrow> core (tab' ! j) = core (tab ! j)"
    using tab1(2) map_core_nth [OF wf1(2)] by simp
  ultimately show ?thesis using tab1(2,3,4) len by auto
qed

lemma merge_one_None:
  "merge_one now origin n tab = None \<Longrightarrow> filter (\<lambda>e. ne_state e = 0) tab = []"
  unfolding merge_one_def find_free_slot_def Let_def
  by (auto split: option.splits if_splits simp: position_None filter_empty_conv)

definition free_slots :: "node_table_entry list \<Rightarrow> nat" where
  "free_slots tab = length (filter (\<lambda>e. ne_state e = 0) tab)"

lemma merge_one_free:
  assumes "merge_one now origin n tab = Some tab'" "list_all entry_wf tab"
  shows "free_slots tab \<le> Suc (free_slots tab')"
proof -
  obtain i where i: "i < length tab" "length tab' = length tab"
      "\<forall>j < length tab. j \<noteq> i \<longrightarrow> core (tab' ! j) = core (tab ! j)"
    using merge_one_spec [OF assms] by blast
  let ?F = "\<lambda>t. {j. j < length t \<and> ne_state (t ! j) = 0}"
  have "?F tab \<subseteq> insert i (?F tab')"
  proof
    fix j
    assume j: "j \<in> ?F tab"
    show "j \<in> insert i (?F tab')"
    proof (cases "j = i")
      case False
      then have "core (tab' ! j) = core (tab ! j)" using i(3) j by simp
      from core_eqD(1) [OF this] j i(2) show ?thesis by simp
    qed simp
  qed
  then have "card (?F tab) \<le> card (insert i (?F tab'))" by (rule card_mono [rotated]) simp
  also have "\<dots> \<le> Suc (card (?F tab'))" by (simp add: card_insert_if)
  finally show ?thesis by (simp add: free_slots_def length_filter_conv_card)
qed

lemma merge_all_untouched:
  assumes "list_all entry_wf tab" "list_all addrs_ok ns" "j < length tab" "ne_state (tab ! j) \<noteq> 0"
    "ne_node_id (tab ! j) \<notin> pn_node_id ` set ns"
  shows "core (merge_all now origin ns tab ! j) = core (tab ! j)"
  using assms
proof (induction ns arbitrary: tab)
  case (Cons n ns)
  show ?case
  proof (cases "merge_one now origin n tab")
    case (Some tab')
    obtain i where i: "ne_state (tab ! i) = 0 \<or> ne_node_id (tab ! i) = pn_node_id n"
        "\<forall>j < length tab. j \<noteq> i \<longrightarrow> core (tab' ! j) = core (tab ! j)"
      using merge_one_spec [OF Some Cons.prems(1)] by blast
    have "j \<noteq> i" using i(1) Cons.prems(4,5) by auto
    then have same: "core (tab' ! j) = core (tab ! j)" using i(2) Cons.prems(3) by blast
    have wf': "list_all entry_wf tab'" "length tab' = length tab" using merge_one_wf [OF Some] Cons.prems by simp_all
    have "core (merge_all now origin ns tab' ! j) = core (tab' ! j)"
      by (rule Cons.IH) (use wf' Cons.prems core_eqD(1) [OF same] core_eqD(2) [OF same] in auto)
    with Some same show ?thesis by simp
  qed simp
qed simp

lemma merge_all_installs:
  assumes "list_all entry_wf tab" "list_all addrs_ok ns" "distinct (map pn_node_id ns)" "length ns \<le> free_slots tab" "n \<in> set ns"
  shows "\<exists>j < length tab. stores origin n (merge_all now origin ns tab ! j)"
  using assms
proof (induction ns arbitrary: tab)
  case (Cons m ns)
  have "0 < length (m # ns)" by simp
  then have "0 < length (filter (\<lambda>e. ne_state e = 0) tab)" using Cons.prems(4) unfolding free_slots_def by linarith
  then have "merge_one now origin m tab \<noteq> None"
    using merge_one_None [of now origin m tab] by (metis length_greater_0_conv)
  then obtain tab' where Some: "merge_one now origin m tab = Some tab'" by blast
  have wf': "list_all entry_wf tab'" "length tab' = length tab" using merge_one_wf [OF Some] Cons.prems by simp_all
  show ?case
  proof (cases "n = m")
    case True
    obtain i where i: "i < length tab" "stores origin m (tab' ! i)" using merge_one_spec [OF Some Cons.prems(1)] by blast
    have "core (merge_all now origin ns tab' ! i) = core (tab' ! i)"
      by (rule merge_all_untouched) (use wf' i Cons.prems in \<open>auto simp: stores_def\<close>)
    from stores_core [OF this, of origin m] i True Some show ?thesis by auto
  next
    case False
    have "length ns \<le> free_slots tab'" using merge_one_free [OF Some] Cons.prems by simp
    with Cons.IH [of tab'] wf' Cons.prems False Some show ?thesis by auto
  qed
qed simp

text \<open>A property of entries that does not look at matches and holds of every stored node survives a
  merge.\<close>

lemma merge_all_forall:
  assumes P: "\<And>e e'. core e = core e' \<Longrightarrow> P e = P e'" "\<And>n e. n \<in> set ns \<Longrightarrow> stores origin n e \<Longrightarrow> P e"
    and "list_all entry_wf tab" "list_all addrs_ok ns" "list_all P tab"
  shows "list_all P (merge_all now origin ns tab)"
  using assms(2-)
proof (induction ns arbitrary: tab)
  case (Cons n ns)
  show ?case
  proof (cases "merge_one now origin n tab")
    case (Some tab')
    obtain i where i: "stores origin n (tab' ! i)" "length tab' = length tab"
        "\<forall>j < length tab. j \<noteq> i \<longrightarrow> core (tab' ! j) = core (tab ! j)"
      using merge_one_spec [OF Some Cons.prems(2)] by blast
    have "P (tab' ! j)" if "j < length tab'" for j
    proof (cases "j = i")
      case True
      with i(1) show ?thesis using Cons.prems(1) [of n] by simp
    next
      case False
      then have "core (tab' ! j) = core (tab ! j)" using i(2,3) that by simp
      then have "P (tab' ! j) = P (tab ! j)" by (rule P(1))
      with Cons.prems(4) that i(2) show ?thesis by (simp add: list_all_length)
    qed
    then have "list_all P tab'" by (simp add: list_all_length)
    moreover have "list_all entry_wf tab'" using merge_one_wf [OF Some] Cons.prems by simp
    ultimately have "list_all P (merge_all now origin ns tab')"
      using Cons.prems(3) by (intro Cons.IH) (auto intro: Cons.prems(1))
    with Some show ?thesis by simp
  qed (use Cons.prems in simp)
qed simp

text \<open>The table between the two phases of a merge.\<close>

lemma cleared_table:
  assumes "clear_replaced origin ids tab = (cl, tab1)" "list_all entry_wf tab"
  defines "tab2 \<equiv> fold remove_matches_for_node cl tab1"
  shows "list_all entry_wf tab2" "length tab2 = length tab"
    "j < length tab \<Longrightarrow> core (tab2 ! j) = core (if replaced_by_push origin ids (tab ! j) then clear_node_entry (tab ! j) else tab ! j)"
    "free_slots tab \<le> free_slots tab2"
proof -
  have wf1: "list_all entry_wf tab1" "length tab1 = length tab" using clear_replaced_wf [OF assms(2,1)] by simp_all
  then show "list_all entry_wf tab2" "length tab2 = length tab" by (simp_all add: tab2_def fold_remove_wf)
  show core: "core (tab2 ! j) = core (if replaced_by_push origin ids (tab ! j) then clear_node_entry (tab ! j) else tab ! j)"
    if "j < length tab" for j
    using map_core_nth [OF core_fold_remove [of cl tab1], of j] assms(1) that wf1(2)
    by (auto simp: tab2_def clear_replaced_def)
  have "{j. j < length tab \<and> ne_state (tab ! j) = 0} \<subseteq> {j. j < length tab2 \<and> ne_state (tab2 ! j) = 0}"
  proof
    fix j
    assume "j \<in> {j. j < length tab \<and> ne_state (tab ! j) = 0}"
    then have j: "j < length tab" "ne_state (tab ! j) = 0" by simp_all
    then have "core (tab2 ! j) = core (tab ! j)" using core [OF j(1)] by (simp add: replaced_by_push_def)
    from core_eqD(1) [OF this] j \<open>length tab2 = length tab\<close>
    show "j \<in> {j. j < length tab2 \<and> ne_state (tab2 ! j) = 0}" by simp
  qed
  then show "free_slots tab \<le> free_slots tab2"
    unfolding free_slots_def length_filter_conv_card by (rule card_mono [rotated]) simp
qed

lemma merge_remote_unfold:
  assumes "origin \<noteq> 0"
  obtains cl tab1 where "clear_replaced origin (map pn_node_id nodes) (node_table shm) = (cl, tab1)"
    "node_table (merge_remote_nodes now origin nodes shm) =
       merge_all now origin nodes (fold remove_matches_for_node cl tab1)"
  using assms by (cases "clear_replaced origin (map pn_node_id nodes) (node_table shm)")
    (simp add: merge_remote_nodes_def Let_def)

subsection \<open>Names in the table\<close>

lemma utf8_or_ok: "str_ok d \<Longrightarrow> str_ok (utf8_or d b)"
  using from_utf8_ok by (auto simp: utf8_or_def split: option.splits)

lemma utf8_or_length: "length (utf8_or d (cstr b)) \<le> max (length d) (length b)"
proof (cases "from_utf8 (cstr b)")
  case (Some s)
  then have "length s = length (cstr b)" using from_utf8_ok by (metis length_as_bytes)
  then show ?thesis using Some length_takeWhile_le [of "\<lambda>x. x \<noteq> 0" b] by (simp add: utf8_or_def cstr_def)
qed (simp add: utf8_or_def)

lemma utf8_or_str16:
  "str16 d \<Longrightarrow> length b < 2 ^ 16 \<Longrightarrow> str16 (utf8_or d (cstr b))"
  using utf8_or_ok [of d "cstr b"] utf8_or_length [of d b] by (auto simp: str16_def)

lemma str16_consts [simp]: "str16 []" "str16 ''/''"
  by (simp_all add: str16_def str_ok_def as_bytes_def)

lemma topic_entry_info_ok:
  "topic_wf t \<Longrightarrow> str16 nn \<Longrightarrow> str16 ns \<Longrightarrow> topic_ok (topic_entry_to_info nn ns t)"
  by (simp add: topic_ok_def topic_entry_to_info_def Let_def topic_wf_def utf8_or_str16)

lemma node_entry_info_ok:
  assumes "entry_wf e" "str16 nn" "str16 ns"
  shows "\<exists>n. node_entry_to_info e nn ns = Return n \<and> node_ok n"
proof -
  have topics: "list_all topic_ok (map (topic_entry_to_info nn ns) (take k ts))" if "list_all topic_wf ts" for k ts
    using that assms(2,3) by (auto simp: list_all_iff intro!: topic_entry_info_ok dest: in_set_takeD)
  have addrs: "list_all (\<lambda>a. length a = 4) (take k (ne_quic_addrs e))" for k
    using assms(1) by (auto simp: list_all_iff entry_wf_def dest: in_set_takeD)
  have slices: "slice_to (unat (ne_pub_count e)) (ne_published e) = Return (take (unat (ne_pub_count e)) (ne_published e))"
      "slice_to (unat (ne_sub_count e)) (ne_subscribed e) = Return (take (unat (ne_sub_count e)) (ne_subscribed e))"
    using assms(1) by (simp_all add: slice_to_def entry_wf_def)
  have lens: "length (take k (ne_published e)) < 2 ^ 32" "length (take k (ne_subscribed e)) < 2 ^ 32" for k
    using assms(1) by (simp_all add: entry_wf_def)
  show ?thesis
    unfolding node_entry_to_info_def slices
    using assms topics addrs lens by (simp add: node_ok_def entry_wf_def)
qed

lemma collect_ok:
  assumes "list_all entry_wf tab" "\<forall>e \<in> set tab. collectable proc_stat d e \<noteq> Panic"
  shows "\<exists>ns. collect_domain_nodes proc_stat d tab = Return ns \<and> list_all node_ok ns \<and> length ns \<le> length tab \<and>
    pn_node_id ` set ns = ne_node_id ` {e \<in> set tab. collectable proc_stat d e = Return True}"
  using assms
proof (induction tab)
  case (Cons e es)
  obtain ns where ns: "collect_domain_nodes proc_stat d es = Return ns" "list_all node_ok ns" "length ns \<le> length es"
      "pn_node_id ` set ns = ne_node_id ` {e \<in> set es. collectable proc_stat d e = Return True}"
    using Cons by auto
  obtain b where b: "collectable proc_stat d e = Return b" using Cons.prems(2) by (cases "collectable proc_stat d e") auto
  show ?case
  proof (cases b)
    case False
    with b ns show ?thesis by (auto simp: image_iff)
  next
    case True
    let ?nn = "utf8_or [] (cstr (ne_node_name e))" and ?ns = "utf8_or ''/'' (cstr (ne_node_namespace e))"
    have wf: "entry_wf e" using Cons.prems(1) by simp
    then have "str16 ?nn" "str16 ?ns" by (auto simp: entry_wf_def intro!: utf8_or_str16)
    then obtain n where n: "node_entry_to_info e ?nn ?ns = Return n" "node_ok n" using node_entry_info_ok [OF wf] by blast
    have id: "pn_node_id n = ne_node_id e"
      using n(1) by (auto simp: node_entry_to_info_def split: outcome.splits)
    have "{x \<in> set (e # es). collectable proc_stat d x = Return True} =
        insert e {x \<in> set es. collectable proc_stat d x = Return True}"
      using b True by auto
    with b True n ns id show ?thesis by simp
  qed
qed simp

lemma merge_keeps_table:
  assumes "list_all entry_wf (node_table shm)" "list_all addrs_ok nodes"
  shows "list_all entry_wf (node_table (merge_remote_nodes now origin nodes shm)) \<and>
    length (node_table (merge_remote_nodes now origin nodes shm)) = length (node_table shm)"
proof (cases "origin = 0")
  case False
  then obtain cl tab1 where t: "clear_replaced origin (map pn_node_id nodes) (node_table shm) = (cl, tab1)"
      "node_table (merge_remote_nodes now origin nodes shm) = merge_all now origin nodes (fold remove_matches_for_node cl tab1)"
    by (rule merge_remote_unfold)
  from cleared_table(1,2) [OF t(1) assms(1)] merge_all_wf [OF _ assms(2)] show ?thesis unfolding t(2) by simp
qed (use assms in \<open>simp add: merge_remote_nodes_def\<close>)

subsection \<open>Properties\<close>

text \<open>C23: The in-place removal of a dead node's matches is a filter: every active entry keeps exactly the matches of
  other nodes, in their order, followed by empty ones; the count is the number kept and the change counter advances exactly when
  something was removed; other entries are untouched.\<close>

theorem removal_is_filter:
  assumes "list_all entry_wf tab"
  shows "remove_matches_for_node dead tab = map (filtered_entry dead) tab"
  unfolding remove_matches_for_node_def
  by (rule map_cong [OF refl], rule remove_from_entry_filter) (use assms in \<open>auto simp: list_all_iff entry_wf_def\<close>)

theorem removal_is_filter_witness:
  "remove_matches_for_node 5 [entry_zero, entry_zero] = map (filtered_entry 5) [entry_zero, entry_zero]"
  by (rule removal_is_filter) simp

text \<open>C20: A merge keeps the discovery table well formed: arrays keep their lengths and the topic counts stay within them,
  whatever nodes were pushed, also more topics or addresses than an entry can hold.\<close>

theorem merge_keeps_table_wf:
  assumes "list_all entry_wf (node_table shm)" "list_all addrs_ok nodes"
  shows "list_all entry_wf (node_table (merge_remote_nodes now origin nodes shm)) \<and>
    length (node_table (merge_remote_nodes now origin nodes shm)) = length (node_table shm)"
  using assms by (rule merge_keeps_table)

theorem merge_keeps_table_wf_witness:
  "list_all entry_wf (node_table (merge_remote_nodes 1 7
     [\<lparr> pn_node_id = 3, pn_domain_id = 0, pn_published_topics = [], pn_subscribed_topics = [], pn_quic_port = 7500,
        pn_quic_addrs = [[10, 0, 0, 1]], pn_node_name = ''n'', pn_node_namespace = ''/'' \<rparr>]
     \<lparr> sd_header = empty_header, node_table = [entry_zero], sd_size = 0 \<rparr>))"
  by (rule merge_keeps_table_wf [THEN conjunct1]) (simp_all add: addrs_ok_def)

text \<open>C9: A merge installs what was pushed.  When the pushed nodes have different ids and there is a free slot for each,
  then afterwards every pushed node has an active entry of the pushing daemon whose endpoints agree with it; the daemon has no entry for a
  node it did not push; and no other remote daemon has an entry for a pushed node.\<close>

theorem merge_installs_push:
  assumes "origin \<noteq> 0" "list_all entry_wf (node_table shm)" "list_all addrs_ok nodes"
    "distinct (map pn_node_id nodes)" "length nodes \<le> free_slots (node_table shm)"
  shows "let tab = node_table (merge_remote_nodes now origin nodes shm) in
    (\<forall>n \<in> set nodes. \<exists>e \<in> set tab. stores origin n e) \<and>
    (\<forall>e \<in> set tab. ne_state e \<noteq> 0 \<and> ne_daemon_origin e = origin \<longrightarrow> ne_node_id e \<in> pn_node_id ` set nodes) \<and>
    (\<forall>e \<in> set tab. ne_state e \<noteq> 0 \<and> ne_daemon_origin e \<noteq> origin \<and> ne_daemon_origin e \<noteq> 0 \<longrightarrow>
       ne_node_id e \<notin> pn_node_id ` set nodes)"
proof -
  let ?ids = "pn_node_id ` set nodes"
  define P where "P e \<longleftrightarrow> (ne_state e \<noteq> 0 \<and> ne_daemon_origin e = origin \<longrightarrow> ne_node_id e \<in> ?ids) \<and>
      (ne_state e \<noteq> 0 \<and> ne_daemon_origin e \<noteq> origin \<and> ne_daemon_origin e \<noteq> 0 \<longrightarrow> ne_node_id e \<notin> ?ids)" for e :: node_table_entry
  obtain cl tab1 where t: "clear_replaced origin (map pn_node_id nodes) (node_table shm) = (cl, tab1)"
      "node_table (merge_remote_nodes now origin nodes shm) = merge_all now origin nodes (fold remove_matches_for_node cl tab1)"
    using assms(1) by (rule merge_remote_unfold)
  let ?tab2 = "fold remove_matches_for_node cl tab1" and ?tab = "merge_all now origin nodes (fold remove_matches_for_node cl tab1)"
  note mid = cleared_table [OF t(1) assms(2)]
  note fin = merge_all_wf [OF mid(1) assms(3), of now origin]
  have pc: "P e = P e'" if "core e = core e'" for e e'
    unfolding P_def core_eqD [OF that] ..
  have "P (?tab2 ! j)" if j: "j < length (node_table shm)" for j
  proof -
    let ?e = "node_table shm ! j"
    let ?f = "if replaced_by_push origin (map pn_node_id nodes) ?e then clear_node_entry ?e else ?e"
    have "P ?f"
      using assms(1) by (auto simp: P_def replaced_by_push_def clear_node_entry_def)
    with pc [OF mid(3) [OF j]] show ?thesis by simp
  qed
  then have tab2: "list_all P ?tab2" using mid(2) by (simp add: list_all_length)
  have st: "P e" if "n \<in> set nodes" "stores origin n e" for n e
    using that assms(1) by (auto simp: P_def stores_def)
  have allP: "list_all P ?tab" by (rule merge_all_forall [OF pc st mid(1) assms(3) tab2])
  have "\<exists>e \<in> set ?tab. stores origin n e" if "n \<in> set nodes" for n
  proof -
    have "length nodes \<le> free_slots ?tab2" using assms(5) mid(4) by (rule order_trans)
    from merge_all_installs [OF mid(1) assms(3,4) this that]
    obtain j where "j < length ?tab2" "stores origin n (?tab ! j)" by blast
    with fin show ?thesis by (intro bexI [of _ "?tab ! j"]) simp_all
  qed
  with allP show ?thesis unfolding t(2) Let_def by (simp add: list_all_iff P_def)
qed

theorem merge_installs_push_witness:
  "let n = \<lparr> pn_node_id = 3, pn_domain_id = 0, pn_published_topics = [], pn_subscribed_topics = [], pn_quic_port = 7500,
        pn_quic_addrs = [[10, 0, 0, 1]], pn_node_name = ''n'', pn_node_namespace = ''/'' \<rparr> in
   \<exists>e \<in> set (node_table (merge_remote_nodes 1 7 [n] \<lparr> sd_header = empty_header, node_table = [entry_zero], sd_size = 0 \<rparr>)).
     stores 7 n e"
proof -
  let ?n = "\<lparr> pn_node_id = 3, pn_domain_id = 0, pn_published_topics = [], pn_subscribed_topics = [], pn_quic_port = 7500,
        pn_quic_addrs = [[10, 0, 0, 1]], pn_node_name = ''n'', pn_node_namespace = ''/'' \<rparr>"
  let ?shm = "\<lparr> sd_header = empty_header, node_table = [entry_zero], sd_size = 0 \<rparr>"
  have "list_all entry_wf (node_table ?shm)" "list_all addrs_ok [?n]" "distinct (map pn_node_id [?n])"
      "length [?n] \<le> free_slots (node_table ?shm)"
    by (simp_all add: addrs_ok_def free_slots_def)
  from merge_installs_push [of 7, OF _ this, of 1] show ?thesis unfolding Let_def by simp
qed



text \<open>Note: A pushed node can take over a local node: when the id of a pushed node is that of an active entry of this
  machine, the merge turns that entry into one of the pushing daemon and forgets the local process.\<close>

theorem merge_overwrites_local_node:
  assumes "origin \<noteq> 0" "entry_wf e" "ne_state e = 2" "ne_daemon_origin e = 0" "pn_node_id n = ne_node_id e" "node_table shm = [e]"
  shows "let e' = node_table (merge_remote_nodes now origin [n] shm) ! 0 in
    ne_daemon_origin e' = origin \<and> ne_pid e' = 0 \<and> ne_proc_starttime e' = 0"
proof -
  have cl: "clear_replaced origin [pn_node_id n] [e] = ([], [e])"
    using assms(1,4) by (auto simp: clear_replaced_def replaced_by_push_def)
  have ex: "find_slot_by_node_id (pn_node_id n) [e] = Some 0"
    using assms(3,5) by (simp add: find_slot_by_node_id_def)
  have w: "ne_daemon_origin (write_node now origin b n x) = origin \<and> ne_pid (write_node now origin b n x) = 0 \<and>
      ne_proc_starttime (write_node now origin b n x) = 0" for b x
    by (simp add: write_node_def Let_def split: prod.splits)
  show ?thesis
    using assms(1) unfolding merge_remote_nodes_def assms(6) Let_def
    by (simp add: cl merge_one_def ex w remove_matches_for_node_def Let_def)
qed

theorem merge_overwrites_local_node_witness:
  "let e = entry_zero\<lparr> ne_state := 2, ne_node_id := 9, ne_pid := 77 \<rparr>;
       n = \<lparr> pn_node_id = 9, pn_domain_id = 0, pn_published_topics = [], pn_subscribed_topics = [], pn_quic_port = 7500,
             pn_quic_addrs = [], pn_node_name = ''n'', pn_node_namespace = ''/'' \<rparr> in
   ne_pid (node_table (merge_remote_nodes 1 7 [n] \<lparr> sd_header = empty_header, node_table = [e], sd_size = 0 \<rparr>) ! 0) = 0"
proof -
  let ?e = "entry_zero\<lparr> ne_state := 2, ne_node_id := 9, ne_pid := 77 \<rparr>"
  let ?n = "\<lparr> pn_node_id = 9, pn_domain_id = 0, pn_published_topics = [], pn_subscribed_topics = [], pn_quic_port = 7500,
             pn_quic_addrs = [], pn_node_name = ''n'', pn_node_namespace = ''/'' \<rparr>"
  have wf: "entry_wf ?e" using entry_zero_wf unfolding entry_wf_def by simp
  have "let e' = node_table (merge_remote_nodes 1 7 [?n] \<lparr> sd_header = empty_header, node_table = [?e], sd_size = 0 \<rparr>) ! 0 in
      ne_daemon_origin e' = 7 \<and> ne_pid e' = 0 \<and> ne_proc_starttime e' = 0"
    by (rule merge_overwrites_local_node [OF _ wf]) simp_all
  then show ?thesis unfolding Let_def by simp
qed



end
