(* ===== verification/Qkd_Config.thy ===== *)
theory Qkd_Config
  imports Wire_Codec
begin

text \<open>
  Where the key-delivery settings come from and what a client of the key manager accepts
  (\<^verbatim>\<open>qkd.rs\<close>, lines 25 to 565): the \<open>AXON_QKD_*\<close> variables, the installed
  profile, the HTTPS client, and the decoding of a delivered key.

  The environment is a map from names to values (\<open>var_os\<close>; \<open>var\<close> is the value when it is UTF-8), a path
  is its components, as \<open>Path\<close> compares them, and the file system is \<open>is_file\<close> and \<open>read_file\<close>.  The URL parser,
  the certificate parsers, the base64 decoder and the HTTP exchange are arguments.
\<close>

subsection \<open>Environment and text\<close>

type_synonym environment = "string \<Rightarrow> string option"

definition env_var :: "environment \<Rightarrow> string \<Rightarrow> string option" where
  "env_var env name = (case env name of Some v \<Rightarrow> if str_ok v then Some v else None | None \<Rightarrow> None)"

fun split_on :: "char \<Rightarrow> string \<Rightarrow> string list" where
  "split_on c [] = [[]]"
| "split_on c (x # xs) =
     (if x = c then [] # split_on c xs
      else case split_on c xs of [] \<Rightarrow> [[x]] | p # ps \<Rightarrow> (x # p) # ps)"

text \<open>\<open>str::lines\<close>: a final empty line is dropped, and so is a carriage return before a line feed.\<close>

definition strip_cr :: "string \<Rightarrow> string" where
  "strip_cr s = (if s \<noteq> [] \<and> last s = CHR 0x0D then butlast s else s)"

definition str_lines :: "string \<Rightarrow> string list" where
  "str_lines s =
     (let ps = split_on (CHR 0x0A) s in
      map strip_cr (butlast ps) @ (if last ps = [] then [] else [last ps]))"

fun split_once :: "char \<Rightarrow> string \<Rightarrow> (string \<times> string) option" where
  "split_once c [] = None"
| "split_once c (x # xs) =
     (if x = c then Some ([], xs) else map_option (\<lambda>(a, b). (x # a, b)) (split_once c xs))"

fun show_nat :: "nat \<Rightarrow> string" where
  "show_nat n = (if n < 10 then [char_of (48 + n)] else show_nat (n div 10) @ [char_of (48 + n mod 10)])"

declare show_nat.simps [simp del]

definition clamp :: "nat \<Rightarrow> nat \<Rightarrow> nat \<Rightarrow> nat" where
  "clamp x lo hi = (if x < lo then lo else if hi < x then hi else x)"

subsection \<open>Paths\<close>

record path =
  rooted :: bool
  comps :: "string list"

definition path_of :: "string \<Rightarrow> path" where
  "path_of s =
     (let r = (s \<noteq> [] \<and> hd s = CHR ''/'');
          ps = split_on (CHR ''/'') s;
          keep = filter (\<lambda>c. c \<noteq> [] \<and> c \<noteq> ''.'') ps in
      \<lparr> rooted = r, comps = (if \<not> r \<and> hd ps = ''.'' then ''.'' # keep else keep) \<rparr>)"

text \<open>\<open>Path::join\<close> with a relative path.\<close>

definition join :: "path \<Rightarrow> string \<Rightarrow> path" where
  "join p s = p\<lparr> comps := comps p @ comps (path_of s) \<rparr>"

definition parent :: "path \<Rightarrow> path option" where
  "parent p = (if comps p = [] then None else Some (p\<lparr> comps := butlast (comps p) \<rparr>))"

subsection \<open>Errors\<close>

datatype qkd_error =
    EnvRequired string
  | InvalidUrl
  | IdentifierLength string
  | IdentifierCharacter string
  | MustUseHttps
  | CredentialsRequired
  | ConfigurationMissing "path list"
  | ProfileUnreadable path
  | ProfileLine string
  | ProfileRole
  | ProfileField string
  | ProfileAccountMissing
  | ProfileAccountDigits
  | ProfileRoleMissing
  | ProfileFileMissing string path
  | PlainHttpDisabled
  | UnsupportedScheme string
  | SecretUnreadable string
  | BadCertificate
  | BadIdentity
  | IncompleteIdentity
  | ClientBuild
  | RequestFailed
  | RequestRejected
  | BadJson
  | NotPathBase
  | NoKeys
  | KeyIdMismatch
  | BadBase64
  | KeySize nat
  | MessageCacheChanged
  | MessageCacheFull
  | ClaimLost
  | KeyDisappeared

subsection \<open>Settings\<close>

abbreviation (input) QKD_KEY_BYTES :: nat where "QKD_KEY_BYTES \<equiv> 32"
abbreviation (input) MAX_SAE_ID_LEN :: nat where "MAX_SAE_ID_LEN \<equiv> 128"
abbreviation (input) MAX_KEY_ID_LEN :: nat where "MAX_KEY_ID_LEN \<equiv> 192"

definition EXPLICIT_QKD_ENV :: "string list" where
  "EXPLICIT_QKD_ENV =
     [''AXON_QKD_KME_BASE_URL'', ''AXON_QKD_LOCAL_SAE_ID'', ''AXON_QKD_CA_CERT'',
      ''AXON_QKD_CLIENT_CERT'', ''AXON_QKD_CLIENT_KEY'']"

record 'u qkd_config =
  kme_base_url :: 'u
  local_sae_id :: string
  ca_certificate :: "path option"
  client_certificate :: "path option"
  client_private_key :: "path option"
  request_timeout :: nat
  allow_insecure_http :: bool

definition required_env :: "environment \<Rightarrow> string \<Rightarrow> (string, qkd_error) rust_result" where
  "required_env env name =
     (case map_option trim (env_var env name) of
        Some v \<Rightarrow> if v = [] then Err (EnvRequired name) else Ok v
      | None \<Rightarrow> Err (EnvRequired name))"

definition optional_path :: "environment \<Rightarrow> string \<Rightarrow> path option" where
  "optional_path env name =
     (case map_option trim (env_var env name) of
        Some v \<Rightarrow> if v = [] then None else Some (path_of v)
      | None \<Rightarrow> None)"

definition env_bool :: "environment \<Rightarrow> string \<Rightarrow> bool \<Rightarrow> bool" where
  "env_bool env name default_value =
     (case env_var env name of
        Some v \<Rightarrow> to_ascii_lowercase (trim v) \<in> {''1'', ''true'', ''yes'', ''on''}
      | None \<Rightarrow> default_value)"

definition qkd_request_timeout :: "environment \<Rightarrow> nat" where
  "qkd_request_timeout env =
     clamp (case Option.bind (env_var env ''AXON_QKD_REQUEST_TIMEOUT_MS'') (parse_unsigned 64) of
              Some n \<Rightarrow> n | None \<Rightarrow> 3000) 100 60000"

definition qkd_max_in_flight :: "environment \<Rightarrow> nat" where
  "qkd_max_in_flight env =
     clamp (case Option.bind (env_var env ''AXON_QKD_MAX_IN_FLIGHT'') (parse_unsigned 64) of
              Some n \<Rightarrow> n | None \<Rightarrow> 4) 1 32"

definition is_ascii_control :: "byte \<Rightarrow> bool" where
  "is_ascii_control b \<longleftrightarrow> b < 32 \<or> b = 127"

definition validate_identifier :: "string \<Rightarrow> string \<Rightarrow> nat \<Rightarrow> (unit, qkd_error) rust_result" where
  "validate_identifier name v max_len =
     (if v = [] \<or> max_len \<le> length v then Err (IdentifierLength name)
      else if \<exists>b \<in> set (as_bytes v). b = 0 \<or> is_ascii_control b then Err (IdentifierCharacter name)
      else Ok ())"

definition from_explicit_env ::
  "(string \<Rightarrow> 'u option) \<Rightarrow> ('u \<Rightarrow> string) \<Rightarrow> environment \<Rightarrow> ('u qkd_config, qkd_error) rust_result" where
  "from_explicit_env parse_url scheme env =
     bind_ok (required_env env ''AXON_QKD_KME_BASE_URL'') (\<lambda>base.
     case parse_url base of
       None \<Rightarrow> Err InvalidUrl
     | Some url \<Rightarrow>
         bind_ok (required_env env ''AXON_QKD_LOCAL_SAE_ID'') (\<lambda>sae.
         bind_ok (validate_identifier ''AXON_QKD_LOCAL_SAE_ID'' sae MAX_SAE_ID_LEN) (\<lambda>_.
         let insecure = env_bool env ''AXON_QKD_ALLOW_INSECURE_HTTP'' False;
             ca = optional_path env ''AXON_QKD_CA_CERT'';
             cert = optional_path env ''AXON_QKD_CLIENT_CERT'';
             key = optional_path env ''AXON_QKD_CLIENT_KEY'' in
         if scheme url \<noteq> ''https'' \<and> \<not> insecure then Err MustUseHttps
         else if scheme url = ''https'' \<and> (ca = None \<or> cert = None \<or> key = None) then Err CredentialsRequired
         else Ok \<lparr> kme_base_url = url, local_sae_id = sae, ca_certificate = ca, client_certificate = cert,
                   client_private_key = key, request_timeout = qkd_request_timeout env,
                   allow_insecure_http = insecure \<rparr>)))"

subsection \<open>The installed profile\<close>

record beta_profile =
  account_id :: string
  role :: nat

text \<open>One line of the profile changes the fields read so far.\<close>

definition profile_line ::
  "string \<Rightarrow> string option \<times> nat option \<Rightarrow> (string option \<times> nat option, qkd_error) rust_result" where
  "profile_line raw st =
     (let line = trim raw in
      if line = [] \<or> hd line = CHR ''#'' then Ok st
      else
        (case split_once (CHR ''='') line of
           None \<Rightarrow> Err (ProfileLine line)
         | Some (name, v) \<Rightarrow>
             if trim name = ''account_id'' then Ok (Some (trim v), snd st)
             else if trim name = ''role'' then
               (case parse_unsigned 8 (trim v) of
                  Some r \<Rightarrow> Ok (fst st, Some r)
                | None \<Rightarrow> Err ProfileRole)
             else Err (ProfileField (trim name))))"

fun profile_lines ::
  "string list \<Rightarrow> string option \<times> nat option \<Rightarrow> (string option \<times> nat option, qkd_error) rust_result" where
  "profile_lines [] st = Ok st"
| "profile_lines (l # ls) st = bind_ok (profile_line l st) (profile_lines ls)"

definition profile_parse :: "string \<Rightarrow> (beta_profile, qkd_error) rust_result" where
  "profile_parse contents =
     bind_ok (profile_lines (str_lines contents) (None, None)) (\<lambda>(account, r).
     case account of
       None \<Rightarrow> Err ProfileAccountMissing
     | Some a \<Rightarrow>
         if a = [] \<or> \<not> list_all is_digit a then Err ProfileAccountDigits
         else
           (case r of
              None \<Rightarrow> Err ProfileRoleMissing
            | Some n \<Rightarrow> if n \<noteq> 1 \<and> n \<noteq> 2 then Err ProfileRole else Ok \<lparr> account_id = a, role = n \<rparr>))"

definition installed_profile_dir :: "path \<Rightarrow> path option" where
  "installed_profile_dir executable =
     map_option (\<lambda>prefix. join prefix ''share/rmw_axon/qkd'') (Option.bind (parent executable) parent)"

definition push_unique_profile_dir :: "path list \<Rightarrow> path \<Rightarrow> path list" where
  "push_unique_profile_dir dirs d = (if d \<in> set dirs then dirs else dirs @ [d])"

definition beta_profile_dirs :: "path option \<Rightarrow> environment \<Rightarrow> path list" where
  "beta_profile_dirs current_exe env =
     (case optional_path env ''AXON_QKD_PROFILE_DIR'' of
        Some d \<Rightarrow> [d]
      | None \<Rightarrow>
          let opt = (\<lambda>found dirs. case found of Some d \<Rightarrow> push_unique_profile_dir dirs d | None \<Rightarrow> dirs);
              d1 = opt (map_option (\<lambda>h. join (path_of h) ''.config/axon/qkd'') (env ''HOME'')) [];
              d2 = opt (Option.bind (optional_path env ''AXON_DAEMON_PATH'') installed_profile_dir) d1;
              d3 = foldl (\<lambda>dirs var.
                     case env var of
                       Some prefixes \<Rightarrow>
                         foldl push_unique_profile_dir dirs
                           (map (\<lambda>p. join (path_of p) ''share/rmw_axon/qkd'') (split_on (CHR '':'') prefixes))
                     | None \<Rightarrow> dirs) d2 [''AMENT_PREFIX_PATH'', ''COLCON_PREFIX_PATH''] in
          opt (Option.bind current_exe installed_profile_dir) d3)"

definition from_beta_profile_dir ::
  "(string \<Rightarrow> 'u option) \<Rightarrow> (path \<Rightarrow> string option) \<Rightarrow> (path \<Rightarrow> bool) \<Rightarrow> environment \<Rightarrow> path \<Rightarrow>
   ('u qkd_config, qkd_error) rust_result" where
  "from_beta_profile_dir parse_url read_text is_file env dir =
     (case read_text (join dir ''profile'') of
        None \<Rightarrow> Err (ProfileUnreadable (join dir ''profile''))
      | Some text \<Rightarrow>
          bind_ok (profile_parse text) (\<lambda>profile.
          let sae = ''sae-'' @ show_nat (role profile);
              ca = join dir (''account-'' @ account_id profile @ ''-server-ca-qukaydee-com.crt'');
              cert = join dir (sae @ ''.crt'');
              key = join dir (sae @ ''.key'') in
          case parse_url (''https://kme-'' @ show_nat (role profile) @ ''.acct-'' @ account_id profile @
                          ''.etsi-qkd-api.qukaydee.com/api/v1/keys'') of
            None \<Rightarrow> Err InvalidUrl
          | Some url \<Rightarrow>
              if \<not> is_file ca then Err (ProfileFileMissing ''server CA certificate'' ca)
              else if \<not> is_file cert then Err (ProfileFileMissing ''SAE certificate'' cert)
              else if \<not> is_file key then Err (ProfileFileMissing ''SAE private key'' key)
              else Ok \<lparr> kme_base_url = url, local_sae_id = sae, ca_certificate = Some ca,
                        client_certificate = Some cert, client_private_key = Some key,
                        request_timeout = qkd_request_timeout env, allow_insecure_http = False \<rparr>))"

definition from_beta_profile ::
  "(string \<Rightarrow> 'u option) \<Rightarrow> (path \<Rightarrow> string option) \<Rightarrow> (path \<Rightarrow> bool) \<Rightarrow> path option \<Rightarrow> environment \<Rightarrow>
   ('u qkd_config, qkd_error) rust_result" where
  "from_beta_profile parse_url read_text is_file current_exe env =
     (let dirs = beta_profile_dirs current_exe env in
      case find (\<lambda>d. is_file (join d ''profile'')) dirs of
        Some d \<Rightarrow> from_beta_profile_dir parse_url read_text is_file env d
      | None \<Rightarrow> Err (ConfigurationMissing dirs))"

definition qkd_config_from_env ::
  "(string \<Rightarrow> 'u option) \<Rightarrow> ('u \<Rightarrow> string) \<Rightarrow> (path \<Rightarrow> string option) \<Rightarrow> (path \<Rightarrow> bool) \<Rightarrow> path option \<Rightarrow>
   environment \<Rightarrow> ('u qkd_config, qkd_error) rust_result" where
  "qkd_config_from_env parse_url scheme read_text is_file current_exe env =
     (if \<exists>name \<in> set EXPLICIT_QKD_ENV. env name \<noteq> None
      then from_explicit_env parse_url scheme env
      else from_beta_profile parse_url read_text is_file current_exe env)"


subsection \<open>The client of the key manager\<close>

record qkd_key_material =
  key_id :: string
  key :: bytes

record key_record =
  kr_key_id :: string
  kr_key :: string

datatype http_reply = SendFailed | StatusError | NotJson | KeyResponse "key_record list"

text \<open>What the client calls and this library does not define: building a URL, parsing certificates, decoding
  base64, and the exchange with the key manager, whose state is \<open>'k\<close>.\<close>

record ('u, 'k) kme =
  url_segments :: "'u \<Rightarrow> string list \<Rightarrow> 'u option"
  url_query :: "'u \<Rightarrow> (string \<times> string) list \<Rightarrow> 'u"
  http_get :: "'k \<Rightarrow> 'u \<Rightarrow> http_reply \<times> 'k"
  base64_decode :: "string \<Rightarrow> bytes option"

record 'u etsi_client =
  base_url :: 'u
  max_in_flight :: nat

definition read_secret_file ::
  "(path \<Rightarrow> bytes option) \<Rightarrow> path \<Rightarrow> string \<Rightarrow> (bytes, qkd_error) rust_result" where
  "read_secret_file read_file p label = (case read_file p of Some b \<Rightarrow> Ok b | None \<Rightarrow> Err (SecretUnreadable label))"

definition check_scheme :: "('u \<Rightarrow> string) \<Rightarrow> 'u qkd_config \<Rightarrow> (unit, qkd_error) rust_result" where
  "check_scheme scheme c =
     (let s = scheme (kme_base_url c) in
      if s = ''https'' then
        (if ca_certificate c = None \<or> client_certificate c = None \<or> client_private_key c = None
         then Err CredentialsRequired else Ok ())
      else if s = ''http'' \<and> allow_insecure_http c then Ok ()
      else if s = ''http'' then Err PlainHttpDisabled
      else Err (UnsupportedScheme s))"

definition etsi_client_new ::
  "('u \<Rightarrow> string) \<Rightarrow> (path \<Rightarrow> bytes option) \<Rightarrow> (bytes \<Rightarrow> bool) \<Rightarrow> (bytes \<Rightarrow> bool) \<Rightarrow> bool \<Rightarrow> environment \<Rightarrow>
   'u qkd_config \<Rightarrow> ('u etsi_client, qkd_error) rust_result" where
  "etsi_client_new scheme read_file certificate_ok identity_ok build_ok env c =
     bind_ok (check_scheme scheme c) (\<lambda>_.
     bind_ok
       (case ca_certificate c of
          None \<Rightarrow> Ok ()
        | Some p \<Rightarrow>
            bind_ok (read_secret_file read_file p ''QKD CA certificate'') (\<lambda>pem.
            if certificate_ok pem then Ok () else Err BadCertificate)) (\<lambda>_.
     bind_ok
       (case (client_certificate c, client_private_key c) of
          (Some cp, Some kp) \<Rightarrow>
            bind_ok (read_secret_file read_file cp ''QKD client certificate'') (\<lambda>pem.
            bind_ok (read_secret_file read_file kp ''QKD client private key'') (\<lambda>private.
            let pem' = (if pem \<noteq> [] \<and> last pem = 10 then pem else pem @ [10]) in
            if identity_ok (pem' @ private) then Ok () else Err BadIdentity))
        | (None, None) \<Rightarrow> Ok ()
        | _ \<Rightarrow> Err IncompleteIdentity) (\<lambda>_.
     if build_ok then Ok \<lparr> base_url = kme_base_url c, max_in_flight = qkd_max_in_flight env \<rparr>
     else Err ClientBuild)))"

definition decode_single_key ::
  "(string \<Rightarrow> bytes option) \<Rightarrow> key_record list \<Rightarrow> string option \<Rightarrow> (qkd_key_material, qkd_error) rust_result" where
  "decode_single_key b64 keys expected =
     (case keys of
        [] \<Rightarrow> Err NoKeys
      | r # _ \<Rightarrow>
          bind_ok (validate_identifier ''QKD key_ID'' (kr_key_id r) MAX_KEY_ID_LEN) (\<lambda>_.
          if (case expected of Some e \<Rightarrow> e \<noteq> kr_key_id r | None \<Rightarrow> False) then Err KeyIdMismatch
          else
            (case b64 (kr_key r) of
               None \<Rightarrow> Err BadBase64
             | Some decoded \<Rightarrow>
                 if length decoded \<noteq> QKD_KEY_BYTES then Err (KeySize (length decoded * 8))
                 else Ok \<lparr> key_id = kr_key_id r, key = decoded \<rparr>)))"

definition operation_url ::
  "('u, 'k) kme \<Rightarrow> 'u etsi_client \<Rightarrow> string \<Rightarrow> string \<Rightarrow> ('u, qkd_error) rust_result" where
  "operation_url api c peer operation =
     bind_ok (validate_identifier ''peer SAE ID'' peer MAX_SAE_ID_LEN) (\<lambda>_.
     case url_segments api (base_url c) [peer, operation] of
       None \<Rightarrow> Err NotPathBase
     | Some u \<Rightarrow> Ok u)"

definition key_request ::
  "('u, 'k) kme \<Rightarrow> 'u \<Rightarrow> string option \<Rightarrow> 'k \<Rightarrow> (qkd_key_material, qkd_error) rust_result \<times> 'k" where
  "key_request api url expected k =
     (let (reply, k') = http_get api k url in
      (case reply of
         SendFailed \<Rightarrow> Err RequestFailed
       | StatusError \<Rightarrow> Err RequestRejected
       | NotJson \<Rightarrow> Err BadJson
       | KeyResponse keys \<Rightarrow> decode_single_key (base64_decode api) keys expected, k'))"

definition get_encryption_key ::
  "('u, 'k) kme \<Rightarrow> 'u etsi_client \<Rightarrow> string \<Rightarrow> 'k \<Rightarrow> (qkd_key_material, qkd_error) rust_result \<times> 'k" where
  "get_encryption_key api c peer k =
     (case operation_url api c peer ''enc_keys'' of
        Err e \<Rightarrow> (Err e, k)
      | Ok url \<Rightarrow> key_request api (url_query api url [(''number'', ''1''), (''size'', ''256'')]) None k)"

definition get_decryption_key ::
  "('u, 'k) kme \<Rightarrow> 'u etsi_client \<Rightarrow> string \<Rightarrow> string \<Rightarrow> 'k \<Rightarrow> (qkd_key_material, qkd_error) rust_result \<times> 'k" where
  "get_decryption_key api c peer kid k =
     (case validate_identifier ''QKD key_ID'' kid MAX_KEY_ID_LEN of
        Err e \<Rightarrow> (Err e, k)
      | Ok _ \<Rightarrow>
          (case operation_url api c peer ''dec_keys'' of
             Err e \<Rightarrow> (Err e, k)
           | Ok url \<Rightarrow> key_request api (url_query api url [(''key_ID'', kid)]) (Some kid) k))"

subsection \<open>Identifiers and keys\<close>

definition valid_id :: "nat \<Rightarrow> string \<Rightarrow> bool" where
  "valid_id max_len v \<longleftrightarrow> v \<noteq> [] \<and> length v < max_len \<and> (\<forall>b \<in> set (as_bytes v). \<not> is_ascii_control b)"

lemma validate_identifier_iff [simp]: "validate_identifier name v n = Ok u \<longleftrightarrow> valid_id n v"
proof -
  have "b = 0 \<or> is_ascii_control b \<longleftrightarrow> is_ascii_control b" for b
    by (auto simp: is_ascii_control_def)
  then show ?thesis by (auto simp: validate_identifier_def valid_id_def)
qed

lemma validate_valid [simp]: "valid_id n v \<Longrightarrow> validate_identifier name v n = Ok ()"
  by simp

lemma validate_invalid: "\<not> valid_id n v \<Longrightarrow> \<exists>e. validate_identifier name v n = Err e"
  using validate_identifier_iff [of name v n "()"] by (cases "validate_identifier name v n") auto

definition material_ok :: "qkd_key_material \<Rightarrow> bool" where
  "material_ok m \<longleftrightarrow> valid_id MAX_KEY_ID_LEN (key_id m) \<and> length (key m) = QKD_KEY_BYTES"

lemma decode_single_key_ok:
  "decode_single_key b64 keys expected = Ok m \<Longrightarrow>
   material_ok m \<and> (\<forall>e. expected = Some e \<longrightarrow> key_id m = e)"
  by (auto simp: decode_single_key_def material_ok_def bind_ok_eq_Ok split: list.splits option.splits if_splits)

lemma key_request_ok:
  "key_request api url expected k = (Ok m, k') \<Longrightarrow> material_ok m \<and> (\<forall>e. expected = Some e \<longrightarrow> key_id m = e)"
  by (auto simp: key_request_def split: prod.splits http_reply.splits dest: decode_single_key_ok)

lemma get_encryption_key_ok:
  "get_encryption_key api c peer k = (Ok m, k') \<Longrightarrow> material_ok m \<and> valid_id MAX_SAE_ID_LEN peer"
  by (auto simp: get_encryption_key_def operation_url_def bind_ok_eq_Ok dest!: key_request_ok split: sum.splits option.splits)

lemma get_decryption_key_ok:
  "get_decryption_key api c peer kid k = (Ok m, k') \<Longrightarrow> material_ok m \<and> key_id m = kid \<and> valid_id MAX_SAE_ID_LEN peer"
  by (auto simp: get_decryption_key_def operation_url_def bind_ok_eq_Ok dest!: key_request_ok split: sum.splits option.splits)

lemma invalid_peer_refused:
  "\<not> valid_id MAX_SAE_ID_LEN peer \<Longrightarrow>
   snd (get_encryption_key api c peer k) = k" "\<not> valid_id MAX_SAE_ID_LEN peer \<Longrightarrow> snd (get_decryption_key api c peer kid k) = k"
  using validate_invalid [of MAX_SAE_ID_LEN peer "''peer SAE ID''"]
  by (auto simp: get_encryption_key_def get_decryption_key_def operation_url_def split: sum.splits option.splits)

text \<open>Note: A key accepted from the key manager is usable: it has 32 bytes and an identifier that fits the wire
  formats and the shared tables, and it is the key that was asked for.  A request for an invalid peer or key
  identifier is refused without contacting the key manager.\<close>

theorem delivered_keys_well_formed:
  "(get_encryption_key api c peer k = (Ok m, k') \<longrightarrow> material_ok m \<and> valid_id MAX_SAE_ID_LEN peer) \<and>
   (get_decryption_key api c peer kid k = (Ok m, k') \<longrightarrow>
      material_ok m \<and> key_id m = kid \<and> valid_id MAX_SAE_ID_LEN peer) \<and>
   (\<not> valid_id MAX_SAE_ID_LEN peer \<longrightarrow>
      snd (get_encryption_key api c peer k) = k \<and> snd (get_decryption_key api c peer kid k) = k)"
  by (intro conjI impI invalid_peer_refused) (blast dest: get_encryption_key_ok get_decryption_key_ok)+

theorem delivered_keys_well_formed_witness:
  "material_ok \<lparr> key_id = ''k1'', key = replicate 32 7 \<rparr> \<and> valid_id MAX_SAE_ID_LEN ''sae-2''"
proof -
  let ?api = "\<lparr> url_segments = (\<lambda>u s. Some (u @ s)), url_query = (\<lambda>u q. u),
     http_get = (\<lambda>k u. (KeyResponse [\<lparr> kr_key_id = ''k1'', kr_key = ''BwcH'' \<rparr>], Suc k)),
     base64_decode = (\<lambda>_. Some (replicate 32 7)) \<rparr>"
  have ids: "valid_id MAX_SAE_ID_LEN ''sae-2''" "valid_id MAX_KEY_ID_LEN ''k1''"
    by (simp_all add: valid_id_def as_bytes_def is_ascii_control_def)
  then have "get_decryption_key ?api \<lparr> base_url = [], max_in_flight = 4 \<rparr> ''sae-2'' ''k1'' 0 =
      (Ok \<lparr> key_id = ''k1'', key = replicate 32 7 \<rparr>, 1)"
    by (simp add: get_decryption_key_def operation_url_def key_request_def decode_single_key_def)
  then show ?thesis
    using delivered_keys_well_formed [of ?api "\<lparr> base_url = [], max_in_flight = 4 \<rparr>" "''sae-2''" 0
        "\<lparr> key_id = ''k1'', key = replicate 32 7 \<rparr>" 1 "''k1''"] by blast
qed

subsection \<open>Where the settings lead\<close>

lemma profile_parse_ok:
  assumes "profile_parse s = Ok p"
  shows "account_id p \<noteq> [] \<and> list_all is_digit (account_id p) \<and> role p \<in> {1, 2}"
proof -
  from assms obtain a r where "profile_lines (str_lines s) (None, None) = Ok (a, r)"
    by (auto simp: profile_parse_def bind_ok_eq_Ok)
  with assms show ?thesis
    by (cases a; cases r) (auto simp: profile_parse_def split: if_splits)
qed

lemma show_digit: "n < 10 \<Longrightarrow> show_nat n = [char_of (48 + n)]"
  by (subst show_nat.simps) simp

lemma profile_sae_valid: "r \<in> {1, 2} \<Longrightarrow> valid_id MAX_SAE_ID_LEN (''sae-'' @ show_nat r)"
  by (auto simp: valid_id_def as_bytes_def is_ascii_control_def show_digit)

lemma explicit_config:
  assumes "from_explicit_env parse_url scheme env = Ok c"
  shows "allow_insecure_http c = env_bool env ''AXON_QKD_ALLOW_INSECURE_HTTP'' False"
    "valid_id MAX_SAE_ID_LEN (local_sae_id c)"
proof -
  from assms obtain base url where base: "required_env env ''AXON_QKD_KME_BASE_URL'' = Ok base"
    and url: "parse_url base = Some url"
    by (auto simp: from_explicit_env_def bind_ok_eq_Ok split: option.splits)
  with assms obtain sae where "required_env env ''AXON_QKD_LOCAL_SAE_ID'' = Ok sae" "valid_id MAX_SAE_ID_LEN sae"
    by (auto simp: from_explicit_env_def bind_ok_eq_Ok)
  with assms base url show "allow_insecure_http c = env_bool env ''AXON_QKD_ALLOW_INSECURE_HTTP'' False"
    "valid_id MAX_SAE_ID_LEN (local_sae_id c)"
    by (auto simp: from_explicit_env_def Let_def split: if_splits)
qed

lemma profile_config:
  assumes "from_beta_profile parse_url read_text is_file exe env = Ok c"
  shows "\<not> allow_insecure_http c" "valid_id MAX_SAE_ID_LEN (local_sae_id c)"
proof -
  from assms obtain d where d: "from_beta_profile_dir parse_url read_text is_file env d = Ok c"
    by (auto simp: from_beta_profile_def Let_def split: option.splits)
  then obtain contents p where t: "read_text (join d ''profile'') = Some contents" and p: "profile_parse contents = Ok p"
    by (auto simp: from_beta_profile_dir_def bind_ok_eq_Ok split: option.splits)
  have sae: "valid_id MAX_SAE_ID_LEN (''sae-'' @ show_nat (role p))"
    using profile_parse_ok [OF p] by (intro profile_sae_valid) simp
  from d t p have "\<not> allow_insecure_http c \<and> local_sae_id c = ''sae-'' @ show_nat (role p)"
    by (auto simp: from_beta_profile_dir_def Let_def split: option.splits if_splits)
  with sae show "\<not> allow_insecure_http c" "valid_id MAX_SAE_ID_LEN (local_sae_id c)" by simp_all
qed

lemma client_new_scheme:
  assumes "etsi_client_new scheme read_file certificate_ok identity_ok build_ok env c = Ok cl"
  shows "check_scheme scheme c = Ok ()" "base_url cl = kme_base_url c"
  using assms by (auto simp: etsi_client_new_def bind_ok_eq_Ok split: if_splits)

lemma check_scheme_iff:
  "check_scheme scheme c = Ok () \<longleftrightarrow>
   scheme (kme_base_url c) = ''https'' \<and> ca_certificate c \<noteq> None \<and> client_certificate c \<noteq> None \<and>
     client_private_key c \<noteq> None \<or>
   scheme (kme_base_url c) = ''http'' \<and> allow_insecure_http c"
  by (auto simp: check_scheme_def Let_def)

text \<open>C35: Keys are never fetched in the clear by accident.  Whatever the environment and the installed profile
  say, a client built from them talks HTTPS with a certificate authority, a client certificate and a private key,
  or plain HTTP when the variable that allows it is set; and its own identifier fits the tables.\<close>

theorem kme_access_protected:
  assumes "qkd_config_from_env parse_url scheme read_text is_file exe env = Ok c"
    and "etsi_client_new scheme read_file certificate_ok identity_ok build_ok env c = Ok cl"
  shows "(scheme (base_url cl) = ''https'' \<and> ca_certificate c \<noteq> None \<and> client_certificate c \<noteq> None \<and>
       client_private_key c \<noteq> None \<or>
     scheme (base_url cl) = ''http'' \<and> env_bool env ''AXON_QKD_ALLOW_INSECURE_HTTP'' False) \<and>
    valid_id MAX_SAE_ID_LEN (local_sae_id c)"
proof (cases "\<exists>name \<in> set EXPLICIT_QKD_ENV. env name \<noteq> None")
  case True
  with assms(1) have "from_explicit_env parse_url scheme env = Ok c" by (simp add: qkd_config_from_env_def)
  from explicit_config [OF this] client_new_scheme [OF assms(2)] show ?thesis by (auto simp: check_scheme_iff)
next
  case False
  with assms(1) have "from_beta_profile parse_url read_text is_file exe env = Ok c"
    by (auto simp: qkd_config_from_env_def split: if_splits)
  from profile_config [OF this] client_new_scheme [OF assms(2)] show ?thesis by (auto simp: check_scheme_iff)
qed

text \<open>An environment that configures an HTTPS key manager.\<close>

definition sample_env :: environment where
  "sample_env name =
     (if name = ''AXON_QKD_KME_BASE_URL'' then Some '' https://kme''
      else if name = ''AXON_QKD_LOCAL_SAE_ID'' then Some ''sae-1''
      else if name = ''AXON_QKD_CA_CERT'' then Some ''/etc/ca''
      else if name = ''AXON_QKD_CLIENT_CERT'' then Some ''/etc/crt''
      else if name = ''AXON_QKD_CLIENT_KEY'' then Some ''/etc/key'' else None)"

definition sample_config :: "string qkd_config" where
  "sample_config = \<lparr> kme_base_url = ''https://kme'', local_sae_id = ''sae-1'',
     ca_certificate = Some \<lparr> rooted = True, comps = [''etc'', ''ca''] \<rparr>,
     client_certificate = Some \<lparr> rooted = True, comps = [''etc'', ''crt''] \<rparr>,
     client_private_key = Some \<lparr> rooted = True, comps = [''etc'', ''key''] \<rparr>,
     request_timeout = 3000, allow_insecure_http = False \<rparr>"

theorem kme_access_protected_witness: "valid_id MAX_SAE_ID_LEN (local_sae_id sample_config) \<and> take 5 ''https://kme'' = ''https''"
proof -
  have texts: "trim '' https://kme'' = ''https://kme''" "trim ''sae-1'' = ''sae-1''" "trim ''/etc/ca'' = ''/etc/ca''"
    "trim ''/etc/crt'' = ''/etc/crt''" "trim ''/etc/key'' = ''/etc/key''"
    "str_ok '' https://kme''" "str_ok ''sae-1''" "str_ok ''/etc/ca''" "str_ok ''/etc/crt''" "str_ok ''/etc/key''"
    by code_simp+
  have paths: "path_of ''/etc/ca'' = \<lparr> rooted = True, comps = [''etc'', ''ca''] \<rparr>"
    "path_of ''/etc/crt'' = \<lparr> rooted = True, comps = [''etc'', ''crt''] \<rparr>"
    "path_of ''/etc/key'' = \<lparr> rooted = True, comps = [''etc'', ''key''] \<rparr>"
    by code_simp+
  have id: "valid_id MAX_SAE_ID_LEN ''sae-1''"
    by (simp add: valid_id_def as_bytes_def is_ascii_control_def)
  have c: "qkd_config_from_env Some (take 5) (\<lambda>_. None) (\<lambda>_. False) None sample_env = Ok sample_config"
    by (simp add: qkd_config_from_env_def EXPLICIT_QKD_ENV_def from_explicit_env_def required_env_def env_var_def
        sample_env_def sample_config_def optional_path_def env_bool_def qkd_request_timeout_def clamp_def
        texts paths id)
  have cl: "etsi_client_new (take 5) (\<lambda>_. Some [10]) (\<lambda>_. True) (\<lambda>_. True) True sample_env sample_config =
      Ok \<lparr> base_url = ''https://kme'', max_in_flight = 4 \<rparr>"
    by (simp add: etsi_client_new_def check_scheme_def read_secret_file_def sample_config_def qkd_max_in_flight_def
        env_var_def sample_env_def clamp_def)
  show ?thesis using kme_access_protected [OF c cl] by simp
qed

end
