(* ===== verification/Keyed_Table.thy ===== *)
theory Keyed_Table
  imports Axon_Prelude
begin

text \<open>
  The interface of a table with a bounded number of keys.  A component promises the laws of one insertion and one
  removal; its client reasons about sequences of them through \<open>run_refines\<close>, as long as no more keys are in
  use than the table holds.  The hash tables of the prelude implement it here, the session keys of
  the shared key table in \<open>Qkd_Store\<close>.
\<close>

datatype ('k, 'v) table_op = Put 'k 'v | Remove 'k

fun op_key :: "('k, 'v) table_op \<Rightarrow> 'k" where
  "op_key (Put k v) = k"
| "op_key (Remove k) = k"

fun map_op :: "('k, 'v) table_op \<Rightarrow> ('k \<Rightarrow> 'v option) \<Rightarrow> 'k \<Rightarrow> 'v option" where
  "map_op (Put k v) m = m(k \<mapsto> v)"
| "map_op (Remove k) m = m(k := None)"

fun op_valid :: "('v \<Rightarrow> bool) \<Rightarrow> ('k, 'v) table_op \<Rightarrow> bool" where
  "op_valid valid (Put k v) = valid v"
| "op_valid valid (Remove k) = True"

fun table_step :: "('k \<Rightarrow> 'v \<Rightarrow> 's \<Rightarrow> 's) \<Rightarrow> ('k \<Rightarrow> 's \<Rightarrow> 's) \<Rightarrow> ('k, 'v) table_op \<Rightarrow> 's \<Rightarrow> 's" where
  "table_step put remove (Put k v) s = put k v s"
| "table_step put remove (Remove k) s = remove k s"

locale keyed_table =
  fixes inv :: "'s \<Rightarrow> bool"
    and lookup :: "'s \<Rightarrow> 'k \<Rightarrow> 'v option"
    and cap :: nat
    and valid :: "'v \<Rightarrow> bool"
    and put :: "'k \<Rightarrow> 'v \<Rightarrow> 's \<Rightarrow> 's"
    and remove :: "'k \<Rightarrow> 's \<Rightarrow> 's"
  assumes inv_put: "inv s \<Longrightarrow> valid v \<Longrightarrow> inv (put k v s)"
    and inv_remove: "inv s \<Longrightarrow> inv (remove k s)"
    and finite_keys: "inv s \<Longrightarrow> finite (dom (lookup s))"
    and lookup_put: "inv s \<Longrightarrow> valid v \<Longrightarrow> k \<in> dom (lookup s) \<or> card (dom (lookup s)) < cap \<Longrightarrow>
      lookup (put k v s) = (lookup s)(k \<mapsto> v)"
    and lookup_remove: "inv s \<Longrightarrow> lookup (remove k s) = (lookup s)(k := None)"
begin

lemma step_inv: "inv s \<Longrightarrow> op_valid valid t \<Longrightarrow> inv (table_step put remove t s)"
  by (cases t) (simp_all add: inv_put inv_remove)

lemma step_refines:
  assumes "inv s" "op_valid valid t" "finite K" "card K \<le> cap" "insert (op_key t) (dom (lookup s)) \<subseteq> K"
  shows "lookup (table_step put remove t s) = map_op t (lookup s)"
proof (cases t)
  case (Put k v)
  have "k \<in> dom (lookup s) \<or> card (dom (lookup s)) < cap"
  proof (cases "k \<in> dom (lookup s)")
    case False
    with assms(5) Put have "dom (lookup s) \<subset> K" by auto
    then have "card (dom (lookup s)) < card K" using assms(3) by (simp add: psubset_card_mono)
    with assms(4) show ?thesis by simp
  qed simp
  with assms(1,2) Put show ?thesis by (simp add: lookup_put)
next
  case (Remove k)
  with assms(1) show ?thesis by (simp add: lookup_remove)
qed

lemma run_refines:
  assumes "inv s" "list_all (op_valid valid) ops" "finite K" "card K \<le> cap" "dom (lookup s) \<subseteq> K" "op_key ` set ops \<subseteq> K"
  shows "inv (fold (table_step put remove) ops s) \<and>
    lookup (fold (table_step put remove) ops s) = fold map_op ops (lookup s)"
  using assms(1,2,5,6)
proof (induction ops arbitrary: s)
  case (Cons t ops)
  have eq: "lookup (table_step put remove t s) = map_op t (lookup s)"
    using Cons.prems assms(3,4) by (intro step_refines) auto
  then have "dom (lookup (table_step put remove t s)) \<subseteq> K"
    using Cons.prems by (cases t) auto
  then show ?case using Cons.IH [of "table_step put remove t s"] Cons.prems eq by (simp add: step_inv)
qed simp

text \<open>Operations on other keys leave an entry alone.\<close>

lemma others_keep:
  assumes "inv s" "list_all (op_valid valid) ops" "finite K" "card K \<le> cap" "dom (lookup s) \<subseteq> K" "op_key ` set ops \<subseteq> K"
    and "k \<notin> op_key ` set ops"
  shows "lookup (fold (table_step put remove) ops s) k = lookup s k"
proof -
  have "fold map_op ops m k = m k" if "k \<notin> op_key ` set ops" for m :: "'k \<Rightarrow> 'v option"
    using that
  proof (induction ops arbitrary: m)
    case (Cons t ops)
    then show ?case by (cases t) auto
  qed simp
  with run_refines [OF assms(1-6)] assms(7) show ?thesis by simp
qed

end

interpretation hash: keyed_table "\<lambda>xs. distinct (map fst xs)" map_of n "\<lambda>_. True" insert_kv remove_kv for n
  by unfold_locales (simp_all add: finite_dom_map_of)

end
