(* ===== verification/Qkd_Store.thy ===== *)
theory Qkd_Store
  imports Qkd_Config Discovery_Shm Keyed_Table
begin

text \<open>
  The shared key table (\<^verbatim>\<open>QkdKeyStore\<close> of \<^verbatim>\<open>qkd.rs\<close>): the segment and its
  access checks, and the session keys, one per remote daemon.  The message keys of the same segment are in
  \<open>Qkd_Message_Keys\<close>.

  \<open>key_store\<close> is the mapped memory, its atomic byte arrays as lists.  Every operation is an uninterrupted call.  A named
  shared memory object is a \<open>qkd_segment\<close>; system calls that may fail are Boolean arguments.  The lemmas show
  that the table implements a map from daemons to session keys (\<open>session_of\<close>), through the interface
  \<open>keyed_table\<close>.
\<close>

subsection \<open>Atomic byte arrays\<close>

definition store_atomic_bytes :: "bytes \<Rightarrow> bytes \<Rightarrow> bytes" where
  "store_atomic_bytes dst src = map (\<lambda>i. if i < length src then src ! i else 0) [0..<length dst]"

definition clear_atomic_bytes :: "bytes \<Rightarrow> bytes" where
  "clear_atomic_bytes dst = map (\<lambda>_. 0) dst"

definition load_atomic_bytes :: "bytes \<Rightarrow> bytes \<Rightarrow> bytes" where
  "load_atomic_bytes src dst = take (length dst) src @ drop (length src) dst"

definition atomic_string :: "bytes \<Rightarrow> nat \<Rightarrow> string option" where
  "atomic_string bs len =
     (if len = 0 \<or> length bs < len then None
      else from_utf8 (load_atomic_bytes (take len bs) (replicate len 0)))"

subsection \<open>The mapped memory\<close>

abbreviation (input) QKD_SHM_MAGIC :: u32 where "QKD_SHM_MAGIC \<equiv> 0x4158514c"
abbreviation (input) MAX_QKD_SESSIONS :: nat where "MAX_QKD_SESSIONS \<equiv> 32"
abbreviation (input) MAX_QKD_MESSAGE_KEYS :: nat where "MAX_QKD_MESSAGE_KEYS \<equiv> 4096"
abbreviation (input) ENTRY_EMPTY :: u8 where "ENTRY_EMPTY \<equiv> 0"
abbreviation (input) ENTRY_PENDING :: u8 where "ENTRY_PENDING \<equiv> 1"
abbreviation (input) ENTRY_ACTIVE :: u8 where "ENTRY_ACTIVE \<equiv> 2"
abbreviation (input) MESSAGE_ENTRY_EMPTY :: u8 where "MESSAGE_ENTRY_EMPTY \<equiv> 0"
abbreviation (input) MESSAGE_ENTRY_WRITING :: u8 where "MESSAGE_ENTRY_WRITING \<equiv> 1"
abbreviation (input) MESSAGE_ENTRY_PENDING :: u8 where "MESSAGE_ENTRY_PENDING \<equiv> 2"
abbreviation (input) MESSAGE_ENTRY_READY :: u8 where "MESSAGE_ENTRY_READY \<equiv> 3"

record qkd_shm_header =
  qh_magic :: u32
  qh_daemon_pid :: u32
  qh_generation :: u64
  qh_local_sae_len :: u16
  qh_local_sae_id :: bytes

record qkd_shm_entry =
  qe_state :: u8
  qe_remote_daemon_id :: u64
  qe_key_id_len :: u16
  qe_remote_sae_len :: u16
  qe_key :: bytes
  qe_key_id :: bytes
  qe_remote_sae_id :: bytes

record qkd_message_entry =
  qm_state :: u8
  qm_writer_pid :: u32
  qm_generation :: u64
  qm_key_id_len :: u16
  qm_sender_sae_len :: u16
  qm_key :: bytes
  qm_key_id :: bytes
  qm_sender_sae_id :: bytes

record key_store =
  ks_header :: qkd_shm_header
  ks_entries :: "qkd_shm_entry list"
  ks_messages :: "qkd_message_entry list"

record qkd_session_key =
  sk_remote_daemon_id :: u64
  sk_local_sae_id :: string
  sk_remote_sae_id :: string
  sk_key_id :: string
  sk_key :: bytes
  sk_active :: bool

definition zero_header :: qkd_shm_header where
  "zero_header = \<lparr> qh_magic = 0, qh_daemon_pid = 0, qh_generation = 0, qh_local_sae_len = 0,
     qh_local_sae_id = replicate MAX_SAE_ID_LEN 0 \<rparr>"

definition zero_entry :: qkd_shm_entry where
  "zero_entry = \<lparr> qe_state = 0, qe_remote_daemon_id = 0, qe_key_id_len = 0, qe_remote_sae_len = 0,
     qe_key = replicate QKD_KEY_BYTES 0, qe_key_id = replicate MAX_KEY_ID_LEN 0,
     qe_remote_sae_id = replicate MAX_SAE_ID_LEN 0 \<rparr>"

definition zero_message :: qkd_message_entry where
  "zero_message = \<lparr> qm_state = 0, qm_writer_pid = 0, qm_generation = 0, qm_key_id_len = 0, qm_sender_sae_len = 0,
     qm_key = replicate QKD_KEY_BYTES 0, qm_key_id = replicate MAX_KEY_ID_LEN 0,
     qm_sender_sae_id = replicate MAX_SAE_ID_LEN 0 \<rparr>"

definition zero_store :: key_store where
  "zero_store = \<lparr> ks_header = zero_header, ks_entries = replicate MAX_QKD_SESSIONS zero_entry,
     ks_messages = replicate MAX_QKD_MESSAGE_KEYS zero_message \<rparr>"

definition bump_generation :: "key_store \<Rightarrow> key_store" where
  "bump_generation s = s\<lparr> ks_header := (ks_header s)\<lparr> qh_generation := qh_generation (ks_header s) + 1 \<rparr> \<rparr>"

subsection \<open>The segment\<close>

datatype qkd_io_error = IoNotFound | IoExists | IoDenied | IoOther | IoInvalidInput | IoInvalidData string

record qkd_segment =
  sg_uid :: nat
  sg_mode :: u32
  sg_size :: nat
  sg_store :: key_store

type_synonym qkd_files = "string \<Rightarrow> qkd_segment option"

definition qkd_shm_size :: nat where
  "qkd_shm_size =
     round_up (repr_c [(4, 4), (4, 4), (8, 8), (2, 2), (MAX_SAE_ID_LEN, 1)] +
       repr_c [(1, 1), (8, 8), (2, 2), (2, 2), (QKD_KEY_BYTES, 1), (MAX_KEY_ID_LEN, 1), (MAX_SAE_ID_LEN, 1)] * MAX_QKD_SESSIONS +
       repr_c [(1, 1), (4, 4), (8, 8), (2, 2), (2, 2), (QKD_KEY_BYTES, 1), (MAX_KEY_ID_LEN, 1), (MAX_SAE_ID_LEN, 1)] *
         MAX_QKD_MESSAGE_KEYS) 4096"

definition write_header :: "u32 \<Rightarrow> string \<Rightarrow> qkd_shm_header \<Rightarrow> qkd_shm_header" where
  "write_header pid sae h = h\<lparr> qh_magic := QKD_SHM_MAGIC, qh_daemon_pid := pid,
     qh_local_sae_id := store_atomic_bytes (qh_local_sae_id h) (as_bytes sae),
     qh_local_sae_len := of_nat (length sae) \<rparr>"

text \<open>\<open>create_named\<close> with the access bits 0600 (hexadecimal 180): a failed \<open>ftruncate\<close> or \<open>mmap\<close> leaves the new object behind.\<close>

definition store_create ::
  "qkd_io_error option \<Rightarrow> bool \<Rightarrow> bool \<Rightarrow> nat \<Rightarrow> u32 \<Rightarrow> string \<Rightarrow> string \<Rightarrow> qkd_files \<Rightarrow>
   (key_store, qkd_io_error) rust_result \<times> qkd_files" where
  "store_create refused ftruncate_ok mmap_ok uid pid name sae w =
     (let seg = (\<lambda>n s. \<lparr> sg_uid = uid, sg_mode = 0x180, sg_size = n, sg_store = s \<rparr>) in
      case validate_identifier ''local SAE ID'' sae MAX_SAE_ID_LEN of
        Err _ \<Rightarrow> (Err IoInvalidInput, w)
      | Ok _ \<Rightarrow>
          if CHR 0x00 \<in> set name then (Err IoInvalidInput, w)
          else
            (case refused of
               Some e \<Rightarrow> (Err e, w)
             | None \<Rightarrow>
                 if w name \<noteq> None then (Err IoExists, w)
                 else if \<not> ftruncate_ok then (Err IoOther, w(name \<mapsto> seg 0 zero_store))
                 else if \<not> mmap_ok then (Err IoOther, w(name \<mapsto> seg qkd_shm_size zero_store))
                 else
                   (let s = zero_store\<lparr> ks_header := write_header pid sae zero_header \<rparr> in
                    (Ok s, w(name \<mapsto> seg qkd_shm_size s)))))"

definition store_open ::
  "qkd_io_error option \<Rightarrow> bool \<Rightarrow> bool \<Rightarrow> nat \<Rightarrow> string \<Rightarrow> qkd_files \<Rightarrow> (key_store, qkd_io_error) rust_result" where
  "store_open refused fstat_ok mmap_ok uid name w =
     (if CHR 0x00 \<in> set name then Err IoInvalidInput
      else
        (case refused of
           Some e \<Rightarrow> Err e
         | None \<Rightarrow>
             (case w name of
                None \<Rightarrow> Err IoNotFound
              | Some seg \<Rightarrow>
                  if \<not> fstat_ok then Err IoOther
                  else if sg_uid seg \<noteq> uid \<or> sg_mode seg AND 0x3F \<noteq> 0 then Err IoDenied
                  else if sg_size seg < qkd_shm_size then Err (IoInvalidData ''QKD SHM is smaller than expected'')
                  else if \<not> mmap_ok then Err IoOther
                  else if qh_magic (ks_header (sg_store seg)) \<noteq> QKD_SHM_MAGIC
                    then Err (IoInvalidData ''invalid QKD SHM magic'')
                  else Ok (sg_store seg))))"

definition store_destroy ::
  "qkd_io_error option \<Rightarrow> string \<Rightarrow> qkd_files \<Rightarrow> (unit, qkd_io_error) rust_result \<times> qkd_files" where
  "store_destroy refused name w =
     (if CHR 0x00 \<in> set name then (Err IoInvalidInput, w)
      else
        (case refused of
           Some e \<Rightarrow> (Err e, w)
         | None \<Rightarrow> if w name = None then (Err IoNotFound, w) else (Ok (), w(name := None))))"

text \<open>What a process writes through its mapping is seen under the name.\<close>

definition write_back :: "string \<Rightarrow> key_store \<Rightarrow> qkd_files \<Rightarrow> qkd_files" where
  "write_back name s w = w(name := map_option (\<lambda>seg. seg\<lparr> sg_store := s \<rparr>) (w name))"

subsection \<open>Session keys\<close>

definition cleared_entry :: "qkd_shm_entry \<Rightarrow> qkd_shm_entry" where
  "cleared_entry e = e\<lparr> qe_state := ENTRY_EMPTY, qe_key := clear_atomic_bytes (qe_key e),
     qe_key_id := clear_atomic_bytes (qe_key_id e), qe_remote_sae_id := clear_atomic_bytes (qe_remote_sae_id e),
     qe_remote_daemon_id := 0, qe_key_id_len := 0, qe_remote_sae_len := 0 \<rparr>"

definition clear_entries :: "key_store \<Rightarrow> key_store" where
  "clear_entries s = s\<lparr> ks_entries := map cleared_entry (ks_entries s) \<rparr>"

definition clear_message_entry :: "qkd_message_entry \<Rightarrow> qkd_message_entry" where
  "clear_message_entry e = e\<lparr> qm_key := clear_atomic_bytes (qm_key e), qm_key_id := clear_atomic_bytes (qm_key_id e),
     qm_sender_sae_id := clear_atomic_bytes (qm_sender_sae_id e), qm_writer_pid := 0, qm_generation := 0,
     qm_key_id_len := 0, qm_sender_sae_len := 0, qm_state := MESSAGE_ENTRY_EMPTY \<rparr>"

definition clear_message_entries :: "key_store \<Rightarrow> key_store" where
  "clear_message_entries s =
     s\<lparr> ks_messages := map (\<lambda>e. clear_message_entry (e\<lparr> qm_state := MESSAGE_ENTRY_WRITING \<rparr>)) (ks_messages s) \<rparr>"

definition store_reset :: "u32 \<Rightarrow> string \<Rightarrow> key_store \<Rightarrow> (unit, qkd_error) rust_result \<times> key_store" where
  "store_reset pid sae s =
     (case validate_identifier ''local SAE ID'' sae MAX_SAE_ID_LEN of
        Err e \<Rightarrow> (Err e, s)
      | Ok _ \<Rightarrow>
          (let s1 = clear_message_entries (clear_entries s) in
           (Ok (), bump_generation (s1\<lparr> ks_header := write_header pid sae (ks_header s1) \<rparr>))))"

definition store_clear :: "key_store \<Rightarrow> key_store" where
  "store_clear s =
     (let s1 = clear_message_entries (clear_entries s) in
      bump_generation (s1\<lparr> ks_header := (ks_header s1)\<lparr> qh_daemon_pid := 0 \<rparr> \<rparr>))"

text \<open>\<open>purge\<close>: the keys are wiped through a mapping, when there is one, before the name goes.\<close>

definition store_purge ::
  "qkd_io_error option \<Rightarrow> bool \<Rightarrow> bool \<Rightarrow> qkd_io_error option \<Rightarrow> nat \<Rightarrow> string \<Rightarrow> qkd_files \<Rightarrow>
   (unit, qkd_io_error) rust_result \<times> qkd_files" where
  "store_purge refused fstat_ok mmap_ok unlink_refused uid name w =
     store_destroy unlink_refused name
       (case store_open refused fstat_ok mmap_ok uid name w of
          Ok s \<Rightarrow> write_back name (store_clear s) w
        | Err _ \<Rightarrow> w)"

definition store_local_sae_id :: "key_store \<Rightarrow> string option" where
  "store_local_sae_id s =
     (let h = ks_header s; len = unat (qh_local_sae_len h) in
      if len = 0 \<or> MAX_SAE_ID_LEN \<le> len then None else atomic_string (qh_local_sae_id h) len)"

definition filled_entry :: "u64 \<Rightarrow> string \<Rightarrow> qkd_key_material \<Rightarrow> bool \<Rightarrow> qkd_shm_entry \<Rightarrow> qkd_shm_entry" where
  "filled_entry d sae m active e =
     e\<lparr> qe_remote_daemon_id := d, qe_key := store_atomic_bytes (clear_atomic_bytes (qe_key e)) (key m),
        qe_key_id := store_atomic_bytes (clear_atomic_bytes (qe_key_id e)) (as_bytes (key_id m)),
        qe_remote_sae_id := store_atomic_bytes (clear_atomic_bytes (qe_remote_sae_id e)) (as_bytes sae),
        qe_key_id_len := of_nat (length (key_id m)), qe_remote_sae_len := of_nat (length sae),
        qe_state := (if active then ENTRY_ACTIVE else ENTRY_PENDING) \<rparr>"

definition put_index :: "u64 \<Rightarrow> qkd_shm_entry list \<Rightarrow> nat" where
  "put_index d es =
     (case position (\<lambda>e. qe_state e \<noteq> ENTRY_EMPTY \<and> qe_remote_daemon_id e = d) es of
        Some i \<Rightarrow> i
      | None \<Rightarrow> (case position (\<lambda>e. qe_state e = ENTRY_EMPTY) es of Some i \<Rightarrow> i | None \<Rightarrow> 0))"

definition store_put ::
  "u64 \<Rightarrow> string \<Rightarrow> qkd_key_material \<Rightarrow> bool \<Rightarrow> key_store \<Rightarrow> (unit, qkd_error) rust_result \<times> key_store" where
  "store_put d sae m active s =
     (case bind_ok (validate_identifier ''remote SAE ID'' sae MAX_SAE_ID_LEN)
             (\<lambda>_. validate_identifier ''QKD key_ID'' (key_id m) MAX_KEY_ID_LEN) of
        Err e \<Rightarrow> (Err e, s)
      | Ok _ \<Rightarrow>
          (let i = put_index d (ks_entries s) in
           (Ok (), bump_generation
              (s\<lparr> ks_entries := (ks_entries s)[i := filled_entry d sae m active (ks_entries s ! i)] \<rparr>))))"

definition entry_key_id :: "qkd_shm_entry \<Rightarrow> string option" where
  "entry_key_id e = atomic_string (qe_key_id e) (unat (qe_key_id_len e))"

definition entry_remote_sae :: "qkd_shm_entry \<Rightarrow> string option" where
  "entry_remote_sae e = atomic_string (qe_remote_sae_id e) (unat (qe_remote_sae_len e))"

definition store_activate :: "u64 \<Rightarrow> string \<Rightarrow> key_store \<Rightarrow> bool \<times> key_store" where
  "store_activate d kid s =
     (case position (\<lambda>e. (qe_state e = ENTRY_PENDING \<or> qe_state e = ENTRY_ACTIVE) \<and> qe_remote_daemon_id e = d \<and>
                        entry_key_id e = Some kid) (ks_entries s) of
        None \<Rightarrow> (False, s)
      | Some i \<Rightarrow>
          if qe_state (ks_entries s ! i) = ENTRY_ACTIVE then (True, s)
          else (True, bump_generation
                  (s\<lparr> ks_entries := (ks_entries s)[i := (ks_entries s ! i)\<lparr> qe_state := ENTRY_ACTIVE \<rparr>] \<rparr>)))"

fun remove_from :: "u64 \<Rightarrow> nat \<Rightarrow> key_store \<Rightarrow> key_store" where
  "remove_from d 0 s = s"
| "remove_from d (Suc n) s =
     (let i = length (ks_entries s) - Suc n; e = ks_entries s ! i in
      remove_from d n
        (if qe_state e \<noteq> ENTRY_EMPTY \<and> qe_remote_daemon_id e = d
         then bump_generation (s\<lparr> ks_entries := (ks_entries s)[i := cleared_entry e] \<rparr>) else s))"

definition store_remove :: "u64 \<Rightarrow> key_store \<Rightarrow> key_store" where
  "store_remove d s = remove_from d (length (ks_entries s)) s"

definition copy_entry :: "key_store \<Rightarrow> qkd_shm_entry \<Rightarrow> bool \<Rightarrow> qkd_session_key option" where
  "copy_entry s e active =
     (case (store_local_sae_id s, entry_remote_sae e, entry_key_id e) of
        (Some sae, Some remote, Some kid) \<Rightarrow>
          if qe_state e \<noteq> (if active then ENTRY_ACTIVE else ENTRY_PENDING) then None
          else Some \<lparr> sk_remote_daemon_id = qe_remote_daemon_id e, sk_local_sae_id = sae, sk_remote_sae_id = remote,
                      sk_key_id = kid, sk_key = load_atomic_bytes (qe_key e) (replicate QKD_KEY_BYTES 0),
                      sk_active = active \<rparr>
      | _ \<Rightarrow> None)"

fun find_map :: "('a \<Rightarrow> 'b option) \<Rightarrow> 'a list \<Rightarrow> 'b option" where
  "find_map f [] = None"
| "find_map f (x # xs) = (case f x of Some y \<Rightarrow> Some y | None \<Rightarrow> find_map f xs)"

definition session_entry :: "u64 \<Rightarrow> bool \<Rightarrow> key_store \<Rightarrow> qkd_shm_entry \<Rightarrow> qkd_session_key option" where
  "session_entry d require_active s e =
     (if qe_state e = ENTRY_EMPTY \<or> (require_active \<and> qe_state e \<noteq> ENTRY_ACTIVE) \<or> qe_remote_daemon_id e \<noteq> d then None
      else copy_entry s e (qe_state e = ENTRY_ACTIVE))"

definition find_for_daemon :: "u64 \<Rightarrow> bool \<Rightarrow> key_store \<Rightarrow> qkd_session_key option" where
  "find_for_daemon d require_active s = find_map (session_entry d require_active s) (ks_entries s)"

definition find_by_key_id_for_tls :: "string \<Rightarrow> key_store \<Rightarrow> qkd_session_key option" where
  "find_by_key_id_for_tls kid s =
     find_map (\<lambda>e. if qe_state e \<noteq> ENTRY_ACTIVE \<and> qe_state e \<noteq> ENTRY_PENDING then None
                   else if entry_key_id e \<noteq> Some kid then None
                   else copy_entry s e (qe_state e = ENTRY_ACTIVE)) (ks_entries s)"

definition find_active_by_key_id_and_sae :: "string \<Rightarrow> string option \<Rightarrow> key_store \<Rightarrow> qkd_session_key option" where
  "find_active_by_key_id_and_sae kid sae s =
     find_map (\<lambda>e. if qe_state e \<noteq> ENTRY_ACTIVE then None
                   else if entry_key_id e \<noteq> Some kid then None
                   else if sae \<noteq> None \<and> entry_remote_sae e \<noteq> sae then None
                   else copy_entry s e True) (ks_entries s)"

definition find_active_by_key_id :: "string \<Rightarrow> key_store \<Rightarrow> qkd_session_key option" where
  "find_active_by_key_id kid s = find_active_by_key_id_and_sae kid None s"

definition find_active_by_key_id_and_remote_sae :: "string \<Rightarrow> string \<Rightarrow> key_store \<Rightarrow> qkd_session_key option" where
  "find_active_by_key_id_and_remote_sae kid sae s = find_active_by_key_id_and_sae kid (Some sae) s"

subsection \<open>Byte arrays hold strings\<close>

lemma length_store_atomic [simp]: "length (store_atomic_bytes dst src) = length dst"
  by (simp add: store_atomic_bytes_def)

lemma length_clear_atomic [simp]: "length (clear_atomic_bytes dst) = length dst"
  by (simp add: clear_atomic_bytes_def)

lemma take_store_atomic:
  assumes "length src \<le> length dst"
  shows "take (length src) (store_atomic_bytes dst src) = src"
  using assms by (intro nth_equalityI) (simp_all add: store_atomic_bytes_def)

lemma store_atomic_same: "length src = length dst \<Longrightarrow> store_atomic_bytes dst src = src"
  using take_store_atomic [of src dst] by simp

lemma load_atomic_same: "length src = length dst \<Longrightarrow> load_atomic_bytes src dst = src"
  by (simp add: load_atomic_bytes_def)

lemma atomic_string_take: "0 < n \<Longrightarrow> n \<le> length bs \<Longrightarrow> atomic_string bs n = from_utf8 (take n bs)"
  by (simp add: atomic_string_def load_atomic_bytes_def)

lemma atomic_string_stored:
  assumes "str_ok v" "v \<noteq> []" "length v \<le> length dst"
  shows "atomic_string (store_atomic_bytes dst (as_bytes v)) (length v) = Some v"
  using assms take_store_atomic [of "as_bytes v" dst] by (simp add: atomic_string_take)

lemma valid_id_length: "valid_id n v \<Longrightarrow> n \<le> 2 ^ 16 \<Longrightarrow> unat (of_nat (length v) :: u16) = length v"
  by (rule unat_of_nat16) (simp add: valid_id_def)

subsection \<open>Searching\<close>

lemma find_map_None: "find_map f xs = None \<longleftrightarrow> (\<forall>x \<in> set xs. f x = None)"
  by (induction xs) (auto split: option.splits)

lemma find_map_Some: "find_map f xs = Some y \<Longrightarrow> \<exists>x \<in> set xs. f x = Some y"
  by (induction xs) (auto split: option.splits)

lemma find_map_cong: "(\<And>x. x \<in> set xs \<Longrightarrow> f x = g x) \<Longrightarrow> find_map f xs = find_map g xs"
  by (induction xs) (auto split: option.splits)

lemma find_map_hit:
  "i < length xs \<Longrightarrow> (\<And>j. j < length xs \<Longrightarrow> j \<noteq> i \<Longrightarrow> f (xs ! j) = None) \<Longrightarrow> find_map f xs = f (xs ! i)"
proof (induction xs arbitrary: i)
  case (Cons x xs)
  show ?case
  proof (cases i)
    case 0
    have "f (xs ! j) = None" if "j < length xs" for j using Cons.prems(2) [of "Suc j"] that 0 by simp
    then have "find_map f xs = None" by (auto simp: find_map_None in_set_conv_nth)
    with 0 show ?thesis by (simp split: option.splits)
  next
    case (Suc k)
    have "f x = None" using Cons.prems(2) [of 0] Suc by simp
    moreover have "find_map f xs = f (xs ! k)"
    proof (rule Cons.IH)
      show "k < length xs" using Cons.prems(1) Suc by simp
      show "f (xs ! j) = None" if "j < length xs" "j \<noteq> k" for j using Cons.prems(2) [of "Suc j"] Suc that by simp
    qed
    ultimately show ?thesis using Suc by simp
  qed
qed simp

lemma find_map_update_skip:
  "i < length xs \<Longrightarrow> f y = None \<Longrightarrow> f (xs ! i) = None \<Longrightarrow> find_map f (xs[i := y]) = find_map f xs"
proof (induction xs arbitrary: i)
  case (Cons x xs)
  then show ?case by (cases i) (auto split: option.splits)
qed simp

lemma find_map_update_hit:
  assumes "i < length xs" "\<And>j. j < length xs \<Longrightarrow> j \<noteq> i \<Longrightarrow> f (xs ! j) = None"
  shows "find_map f (xs[i := y]) = f y"
  using find_map_hit [of i "xs[i := y]" f] assms by simp

subsection \<open>The invariant\<close>

definition entry_ok :: "qkd_shm_entry \<Rightarrow> bool" where
  "entry_ok e \<longleftrightarrow> length (qe_key e) = QKD_KEY_BYTES \<and> length (qe_key_id e) = MAX_KEY_ID_LEN \<and>
     length (qe_remote_sae_id e) = MAX_SAE_ID_LEN \<and>
     (qe_state e \<noteq> ENTRY_EMPTY \<longrightarrow> (qe_state e = ENTRY_PENDING \<or> qe_state e = ENTRY_ACTIVE) \<and>
        entry_key_id e \<noteq> None \<and> entry_remote_sae e \<noteq> None)"

definition ids_distinct :: "qkd_shm_entry list \<Rightarrow> bool" where
  "ids_distinct es \<longleftrightarrow> (\<forall>i j. i < length es \<longrightarrow> j < length es \<longrightarrow> qe_state (es ! i) \<noteq> ENTRY_EMPTY \<longrightarrow>
     qe_state (es ! j) \<noteq> ENTRY_EMPTY \<longrightarrow> qe_remote_daemon_id (es ! i) = qe_remote_daemon_id (es ! j) \<longrightarrow> i = j)"

definition store_ok :: "key_store \<Rightarrow> bool" where
  "store_ok s \<longleftrightarrow> length (ks_entries s) = MAX_QKD_SESSIONS \<and> list_all entry_ok (ks_entries s) \<and>
     ids_distinct (ks_entries s) \<and> store_local_sae_id s \<noteq> None"

lemma local_sae_kept [simp]:
  "store_local_sae_id (bump_generation s) = store_local_sae_id s"
  "store_local_sae_id (s\<lparr> ks_entries := es \<rparr>) = store_local_sae_id s"
  "store_local_sae_id (s\<lparr> ks_messages := ms \<rparr>) = store_local_sae_id s"
  by (simp_all add: bump_generation_def store_local_sae_id_def Let_def)

lemma entries_bump [simp]: "ks_entries (bump_generation s) = ks_entries s" "ks_messages (bump_generation s) = ks_messages s"
  by (simp_all add: bump_generation_def)

lemma store_okD:
  assumes "store_ok s"
  shows "length (ks_entries s) = MAX_QKD_SESSIONS" "i < MAX_QKD_SESSIONS \<Longrightarrow> entry_ok (ks_entries s ! i)"
    "ids_distinct (ks_entries s)" "store_local_sae_id s \<noteq> None"
  using assms unfolding store_ok_def by (simp_all add: list_all_length)

lemma ids_distinctD:
  "ids_distinct es \<Longrightarrow> i < length es \<Longrightarrow> j < length es \<Longrightarrow> qe_state (es ! i) \<noteq> 0 \<Longrightarrow> qe_state (es ! j) \<noteq> 0 \<Longrightarrow>
   qe_remote_daemon_id (es ! i) = qe_remote_daemon_id (es ! j) \<Longrightarrow> i = j"
  unfolding ids_distinct_def by simp

lemma ids_distinct_update:
  assumes "ids_distinct es"
    and "qe_state e \<noteq> 0 \<Longrightarrow> (\<And>j. j < length es \<Longrightarrow> j \<noteq> i \<Longrightarrow> qe_state (es ! j) \<noteq> 0 \<Longrightarrow>
           qe_remote_daemon_id (es ! j) \<noteq> qe_remote_daemon_id e)"
  shows "ids_distinct (es[i := e])"
  unfolding ids_distinct_def
proof (intro allI impI)
  fix a b
  assume *: "a < length (es[i := e])" "b < length (es[i := e])" "qe_state (es[i := e] ! a) \<noteq> 0"
    "qe_state (es[i := e] ! b) \<noteq> 0" "qe_remote_daemon_id (es[i := e] ! a) = qe_remote_daemon_id (es[i := e] ! b)"
  show "a = b"
  proof (cases "a = i \<or> b = i")
    case True
    with * assms(2) [of a] assms(2) [of b] show ?thesis by (auto simp: nth_list_update split: if_splits)
  next
    case False
    with * show ?thesis by (intro ids_distinctD [OF assms(1)]) simp_all
  qed
qed

lemma store_ok_update:
  assumes "store_ok s" "entry_ok e"
    and "qe_state e \<noteq> 0 \<Longrightarrow> (\<And>j. j < MAX_QKD_SESSIONS \<Longrightarrow> j \<noteq> i \<Longrightarrow> qe_state (ks_entries s ! j) \<noteq> 0 \<Longrightarrow>
           qe_remote_daemon_id (ks_entries s ! j) \<noteq> qe_remote_daemon_id e)"
  shows "store_ok (bump_generation (s\<lparr> ks_entries := (ks_entries s)[i := e] \<rparr>))"
proof -
  have "ids_distinct ((ks_entries s)[i := e])"
    using assms(3) by (intro ids_distinct_update store_okD(3) [OF assms(1)]) (simp add: store_okD(1) [OF assms(1)])
  moreover have "list_all entry_ok ((ks_entries s)[i := e])"
    using assms(1,2) set_update_subset_insert [of "ks_entries s" i e] by (auto simp: store_ok_def list_all_iff)
  ultimately show ?thesis
    using store_okD(1,4) [OF assms(1)] by (simp add: store_ok_def)
qed

subsection \<open>The table is a map\<close>

definition session_of :: "key_store \<Rightarrow> u64 \<Rightarrow> (string \<times> qkd_key_material \<times> bool) option" where
  "session_of s d =
     map_option (\<lambda>k. (sk_remote_sae_id k, \<lparr> key_id = sk_key_id k, key = sk_key k \<rparr>, sk_active k)) (find_for_daemon d False s)"

definition session_valid :: "string \<times> qkd_key_material \<times> bool \<Rightarrow> bool" where
  "session_valid v \<longleftrightarrow> (case v of (sae, m, active) \<Rightarrow>
     valid_id MAX_SAE_ID_LEN sae \<and> str_ok sae \<and> material_ok m \<and> str_ok (key_id m))"

definition put_session :: "u64 \<Rightarrow> string \<times> qkd_key_material \<times> bool \<Rightarrow> key_store \<Rightarrow> key_store" where
  "put_session d v s = (case v of (sae, m, active) \<Rightarrow> snd (store_put d sae m active s))"

lemma session_entry_local:
  "store_local_sae_id s = store_local_sae_id s' \<Longrightarrow> session_entry d r s = session_entry d r s'"
  by (rule ext) (simp add: session_entry_def copy_entry_def)

lemma find_for_daemon_update:
  "find_for_daemon d r (bump_generation (s\<lparr> ks_entries := es \<rparr>)) = find_map (session_entry d r s) es"
  unfolding find_for_daemon_def
  by (simp add: session_entry_local [of "bump_generation (s\<lparr> ks_entries := es \<rparr>)" s])

lemma session_entry_None_iff:
  assumes "store_ok s" "entry_ok e"
  shows "session_entry d False s e = None \<longleftrightarrow> qe_state e = 0 \<or> qe_remote_daemon_id e \<noteq> d"
  using assms store_okD(4) [OF assms(1)] by (auto simp: session_entry_def copy_entry_def entry_ok_def)

lemma session_entry_other: "qe_state e = 0 \<or> qe_remote_daemon_id e \<noteq> d \<Longrightarrow> session_entry d r s e = None"
  by (auto simp: session_entry_def)

lemma dom_session_of:
  assumes "store_ok s"
  shows "dom (session_of s) = qe_remote_daemon_id ` {e \<in> set (ks_entries s). qe_state e \<noteq> 0}"
proof -
  have "d \<in> dom (session_of s) \<longleftrightarrow> (\<exists>e \<in> set (ks_entries s). session_entry d False s e \<noteq> None)" for d
    by (simp add: domIff session_of_def find_for_daemon_def find_map_None del: not_None_eq)
  moreover have "entry_ok e" if "e \<in> set (ks_entries s)" for e
    using assms that by (simp add: store_ok_def list_all_iff)
  ultimately have "d \<in> dom (session_of s) \<longleftrightarrow> (\<exists>e \<in> set (ks_entries s). qe_state e \<noteq> 0 \<and> qe_remote_daemon_id e = d)" for d
    using session_entry_None_iff [OF assms] by (metis (no_types, lifting))
  then show ?thesis by (intro set_eqI) (simp only: image_iff mem_Collect_eq, blast)
qed

lemma room_in_table:
  assumes "store_ok s" "card (dom (session_of s)) < MAX_QKD_SESSIONS"
  shows "\<exists>e \<in> set (ks_entries s). qe_state e = 0"
proof (rule ccontr)
  assume "\<not> ?thesis"
  then have full: "qe_state e \<noteq> 0" if "e \<in> set (ks_entries s)" for e using that by blast
  have "distinct (map qe_remote_daemon_id (ks_entries s))"
    using ids_distinctD [OF store_okD(3) [OF assms(1)]] full by (auto simp: distinct_conv_nth)
  then have "card (qe_remote_daemon_id ` set (ks_entries s)) = MAX_QKD_SESSIONS"
    using distinct_card [of "map qe_remote_daemon_id (ks_entries s)"] store_okD(1) [OF assms(1)] by simp
  moreover have "{e \<in> set (ks_entries s). qe_state e \<noteq> 0} = set (ks_entries s)" using full by auto
  ultimately show False using assms(2) by (simp add: dom_session_of [OF assms(1)])
qed

subsection \<open>Insertion\<close>

lemma put_index_spec:
  fixes s d
  assumes "store_ok s"
  defines "i \<equiv> put_index d (ks_entries s)"
  shows "i < MAX_QKD_SESSIONS"
    "j < MAX_QKD_SESSIONS \<Longrightarrow> j \<noteq> i \<Longrightarrow> qe_state (ks_entries s ! j) = 0 \<or> qe_remote_daemon_id (ks_entries s ! j) \<noteq> d"
    "d \<in> dom (session_of s) \<or> card (dom (session_of s)) < MAX_QKD_SESSIONS \<Longrightarrow>
     qe_state (ks_entries s ! i) = 0 \<or> qe_remote_daemon_id (ks_entries s ! i) = d"
proof -
  let ?P = "\<lambda>e. qe_state e \<noteq> 0 \<and> qe_remote_daemon_id e = d" and ?es = "ks_entries s"
  note len = store_okD(1) [OF assms(1)]
  have "i < MAX_QKD_SESSIONS \<and> (\<forall>j < MAX_QKD_SESSIONS. j \<noteq> i \<longrightarrow> \<not> ?P (?es ! j)) \<and>
    (d \<in> dom (session_of s) \<or> card (dom (session_of s)) < MAX_QKD_SESSIONS \<longrightarrow> qe_state (?es ! i) = 0 \<or> qe_remote_daemon_id (?es ! i) = d)"
  proof (cases "position ?P ?es")
    case (Some k)
    then have "i = k" by (simp add: i_def put_index_def)
    with position_Some [OF Some] len ids_distinctD [OF store_okD(3) [OF assms(1)]] show ?thesis by metis
  next
    case None
    then have none: "\<forall>e \<in> set ?es. \<not> ?P e" by (simp add: position_None)
    then have out: "d \<notin> dom (session_of s)" by (auto simp: dom_session_of [OF assms(1)])
    have free: "\<forall>j < MAX_QKD_SESSIONS. \<not> ?P (?es ! j)" using none len by (metis nth_mem)
    show ?thesis
    proof (cases "position (\<lambda>e. qe_state e = 0) ?es")
      case (Some k)
      then have "i = k" using None by (simp add: i_def put_index_def)
      with position_Some [OF Some] len free show ?thesis by auto
    next
      case full: None
      then have "i = 0" using None by (simp add: i_def put_index_def)
      moreover from full have "\<not> card (dom (session_of s)) < MAX_QKD_SESSIONS"
        using room_in_table [OF assms(1)] by (auto simp: position_None)
      ultimately show ?thesis using free out by simp
    qed
  qed
  then show "i < MAX_QKD_SESSIONS"
    "j < MAX_QKD_SESSIONS \<Longrightarrow> j \<noteq> i \<Longrightarrow> qe_state (ks_entries s ! j) = 0 \<or> qe_remote_daemon_id (ks_entries s ! j) \<noteq> d"
    "d \<in> dom (session_of s) \<or> card (dom (session_of s)) < MAX_QKD_SESSIONS \<Longrightarrow>
     qe_state (ks_entries s ! i) = 0 \<or> qe_remote_daemon_id (ks_entries s ! i) = d" by blast+
qed

lemma filled_entry_ok:
  assumes "entry_ok e" "session_valid (sae, m, active)"
  shows "entry_ok (filled_entry d sae m active e)"
    "store_local_sae_id s = Some loc \<Longrightarrow> session_entry d False s (filled_entry d sae m active e) =
       Some \<lparr> sk_remote_daemon_id = d, sk_local_sae_id = loc, sk_remote_sae_id = sae, sk_key_id = key_id m,
              sk_key = key m, sk_active = active \<rparr>"
proof -
  let ?e = "filled_entry d sae m active e"
  have len: "length (qe_key e) = QKD_KEY_BYTES" "length (qe_key_id e) = MAX_KEY_ID_LEN"
    "length (qe_remote_sae_id e) = MAX_SAE_ID_LEN"
    using assms(1) by (simp_all add: entry_ok_def)
  have v: "valid_id MAX_SAE_ID_LEN sae" "str_ok sae" "valid_id MAX_KEY_ID_LEN (key_id m)" "str_ok (key_id m)"
    "length (key m) = QKD_KEY_BYTES"
    using assms(2) by (simp_all add: session_valid_def material_ok_def)
  then have "sae \<noteq> []" "length sae < MAX_SAE_ID_LEN" "key_id m \<noteq> []" "length (key_id m) < MAX_KEY_ID_LEN"
    by (simp_all add: valid_id_def)
  then have names: "entry_remote_sae ?e = Some sae" "entry_key_id ?e = Some (key_id m)"
    using v len by (simp_all add: entry_remote_sae_def entry_key_id_def filled_entry_def valid_id_length atomic_string_stored)
  have key: "load_atomic_bytes (qe_key ?e) (replicate QKD_KEY_BYTES 0) = key m"
    using v(5) len(1) by (simp add: filled_entry_def store_atomic_same load_atomic_same)
  show "entry_ok ?e" using len names by (simp add: entry_ok_def) (simp add: filled_entry_def)
  show "session_entry d False s ?e =
       Some \<lparr> sk_remote_daemon_id = d, sk_local_sae_id = loc, sk_remote_sae_id = sae, sk_key_id = key_id m,
              sk_key = key m, sk_active = active \<rparr>" if "store_local_sae_id s = Some loc"
    using that names key by (simp add: session_entry_def copy_entry_def) (simp add: filled_entry_def)
qed

lemma store_put_spec:
  assumes "store_ok s" "session_valid (sae, m, active)" "store_local_sae_id s = Some loc"
  shows "fst (store_put d sae m active s) = Ok ()" "store_ok (snd (store_put d sae m active s))"
    "find_for_daemon d False (snd (store_put d sae m active s)) =
       Some \<lparr> sk_remote_daemon_id = d, sk_local_sae_id = loc, sk_remote_sae_id = sae, sk_key_id = key_id m,
              sk_key = key m, sk_active = active \<rparr>"
    "d' \<noteq> d \<Longrightarrow> d \<in> dom (session_of s) \<or> card (dom (session_of s)) < MAX_QKD_SESSIONS \<Longrightarrow>
       find_for_daemon d' False (snd (store_put d sae m active s)) = find_for_daemon d' False s"
proof -
  let ?i = "put_index d (ks_entries s)"
  let ?e = "filled_entry d sae m active (ks_entries s ! ?i)"
  note spec = put_index_spec [OF assms(1), where d = d]
  note ok = filled_entry_ok [OF store_okD(2) [OF assms(1) spec(1)] assms(2)]
  have id: "qe_remote_daemon_id ?e = d" by (simp add: filled_entry_def)
  have put: "store_put d sae m active s = (Ok (), bump_generation (s\<lparr> ks_entries := (ks_entries s)[?i := ?e] \<rparr>))"
    using assms(2) by (simp add: store_put_def session_valid_def material_ok_def Let_def)
  then show "fst (store_put d sae m active s) = Ok ()" by simp
  show "store_ok (snd (store_put d sae m active s))"
    unfolding put snd_conv using spec(2) by (intro store_ok_update [OF assms(1) ok(1)]) (auto simp: id)
  show "find_for_daemon d False (snd (store_put d sae m active s)) =
       Some \<lparr> sk_remote_daemon_id = d, sk_local_sae_id = loc, sk_remote_sae_id = sae, sk_key_id = key_id m,
              sk_key = key m, sk_active = active \<rparr>"
    unfolding put snd_conv find_for_daemon_update ok(2) [OF assms(3), symmetric]
    using spec(1,2) by (intro find_map_update_hit) (auto simp: store_okD(1) [OF assms(1)] intro!: session_entry_other)
  show "find_for_daemon d' False (snd (store_put d sae m active s)) = find_for_daemon d' False s"
    if "d' \<noteq> d" "d \<in> dom (session_of s) \<or> card (dom (session_of s)) < MAX_QKD_SESSIONS"
    unfolding put snd_conv find_for_daemon_update
    using spec(1,3) that id unfolding find_for_daemon_def
    by (intro find_map_update_skip) (auto simp: store_okD(1) [OF assms(1)] intro!: session_entry_other)
qed

lemma put_session_refines:
  assumes "store_ok s" "session_valid v"
  shows "store_ok (put_session d v s)"
    "d \<in> dom (session_of s) \<or> card (dom (session_of s)) < MAX_QKD_SESSIONS \<Longrightarrow>
     session_of (put_session d v s) = (session_of s)(d \<mapsto> v)"
proof -
  obtain sae m active where v: "v = (sae, m, active)" by (cases v)
  obtain loc where "store_local_sae_id s = Some loc" using store_okD(4) [OF assms(1)] by blast
  note spec = store_put_spec [OF assms(1) assms(2) [unfolded v] this]
  show "store_ok (put_session d v s)" using spec(2) by (simp add: put_session_def v)
  show "session_of (put_session d v s) = (session_of s)(d \<mapsto> v)"
    if "d \<in> dom (session_of s) \<or> card (dom (session_of s)) < MAX_QKD_SESSIONS"
    by (rule ext) (simp add: session_of_def put_session_def v spec(3) spec(4) [OF _ that])
qed

subsection \<open>Removal and activation\<close>

abbreviation removed :: "u64 \<Rightarrow> qkd_shm_entry \<Rightarrow> qkd_shm_entry" where
  "removed d e \<equiv> if qe_state e \<noteq> ENTRY_EMPTY \<and> qe_remote_daemon_id e = d then cleared_entry e else e"

lemma find_map_map: "find_map f (map g xs) = find_map (\<lambda>x. f (g x)) xs"
  by (induction xs) (auto split: option.splits)

lemma cleared_entry_simps [simp]: "qe_state (cleared_entry e) = 0" "entry_ok e \<Longrightarrow> entry_ok (cleared_entry e)"
  by (simp_all add: cleared_entry_def entry_ok_def)

lemma remove_from_entries:
  assumes "n \<le> length (ks_entries s)"
  shows "ks_entries (remove_from d n s) =
      take (length (ks_entries s) - n) (ks_entries s) @ map (removed d) (drop (length (ks_entries s) - n) (ks_entries s)) \<and>
    store_local_sae_id (remove_from d n s) = store_local_sae_id s"
  using assms
proof (induction n arbitrary: s)
  case (Suc n)
  let ?es = "ks_entries s" and ?i = "length (ks_entries s) - Suc n"
  define s' where "s' = (if qe_state (?es ! ?i) \<noteq> ENTRY_EMPTY \<and> qe_remote_daemon_id (?es ! ?i) = d
      then bump_generation (s\<lparr> ks_entries := ?es[?i := cleared_entry (?es ! ?i)] \<rparr>) else s)"
  have es': "ks_entries s' = ?es[?i := removed d (?es ! ?i)]" by (simp add: s'_def)
  have i: "?i < length ?es" "Suc ?i = length ?es - n" using Suc.prems by simp_all
  have "remove_from d (Suc n) s = remove_from d n s'" by (simp add: s'_def Let_def)
  moreover have "store_local_sae_id s' = store_local_sae_id s" by (simp add: s'_def)
  moreover have "take (length ?es - n) (ks_entries s') = take ?i ?es @ [removed d (?es ! ?i)]"
    unfolding es' i(2) [symmetric] using i(1) by (simp add: take_Suc_conv_app_nth)
  moreover have "drop (length ?es - n) (ks_entries s') = drop (Suc ?i) ?es" unfolding es' i(2) [symmetric] by simp
  moreover have "drop ?i ?es = ?es ! ?i # drop (Suc ?i) ?es" using i(1) by (simp add: Cons_nth_drop_Suc)
  ultimately show ?case using Suc.IH [of s'] Suc.prems by (simp add: es')
qed simp

lemma store_remove_entries:
  "ks_entries (store_remove d s) = map (removed d) (ks_entries s)"
  "store_local_sae_id (store_remove d s) = store_local_sae_id s"
  using remove_from_entries [of "length (ks_entries s)" s d] by (simp_all add: store_remove_def)

lemma store_remove_refines:
  assumes "store_ok s"
  shows "store_ok (store_remove d s)" "session_of (store_remove d s) = (session_of s)(d := None)"
proof -
  have "ids_distinct (map (removed d) (ks_entries s))"
    using ids_distinctD [OF store_okD(3) [OF assms]] unfolding ids_distinct_def by (auto split: if_splits)
  then show "store_ok (store_remove d s)"
    using assms by (auto simp: store_ok_def store_remove_entries list_all_iff)
  have "find_for_daemon d' False (store_remove d s) = (if d' = d then None else find_for_daemon d' False s)" for d'
  proof -
    have "find_for_daemon d' False (store_remove d s) =
        find_map (\<lambda>e. session_entry d' False s (removed d e)) (ks_entries s)"
      by (simp only: find_for_daemon_def store_remove_entries(1) find_map_map
          session_entry_local [OF store_remove_entries(2)])
    moreover have "session_entry d' False s (removed d e) = (if d' = d then None else session_entry d' False s e)" for e
      by (auto simp: session_entry_other)
    ultimately show ?thesis by (simp add: find_for_daemon_def find_map_None)
  qed
  then show "session_of (store_remove d s) = (session_of s)(d := None)" by (simp add: session_of_def fun_eq_iff)
qed

text \<open>Activation succeeds exactly for the key the daemon has, and changes nothing else.\<close>

lemma entry_unique:
  assumes "store_ok s" "i < MAX_QKD_SESSIONS" "qe_state (ks_entries s ! i) \<noteq> 0" "qe_remote_daemon_id (ks_entries s ! i) = d"
    and "j < MAX_QKD_SESSIONS" "j \<noteq> i"
  shows "qe_state (ks_entries s ! j) = 0 \<or> qe_remote_daemon_id (ks_entries s ! j) \<noteq> d"
  using ids_distinctD [OF store_okD(3) [OF assms(1)], of i j] store_okD(1) [OF assms(1)] assms(2-6) by argo

lemma session_of_entry:
  assumes "store_ok s" "i < MAX_QKD_SESSIONS" "qe_state (ks_entries s ! i) \<noteq> 0" "qe_remote_daemon_id (ks_entries s ! i) = d"
  shows "find_for_daemon d False s = session_entry d False s (ks_entries s ! i)"
  unfolding find_for_daemon_def
proof (rule find_map_hit)
  show "session_entry d False s (ks_entries s ! j) = None" if "j < length (ks_entries s)" "j \<noteq> i" for j
    using entry_unique [OF assms] that store_okD(1) [OF assms(1)] by (intro session_entry_other) simp
qed (use assms(2) store_okD(1) [OF assms(1)] in simp)

lemma session_entry_Some:
  assumes "session_entry d False s e = Some k"
  shows "qe_state e \<noteq> 0" "qe_remote_daemon_id e = d" "entry_key_id e = Some (sk_key_id k)"
    "sk_active k \<longleftrightarrow> qe_state e = ENTRY_ACTIVE" "qe_state e = ENTRY_PENDING \<or> qe_state e = ENTRY_ACTIVE"
    "session_entry d False s (e\<lparr> qe_state := ENTRY_ACTIVE \<rparr>) = Some (k\<lparr> sk_active := True \<rparr>)"
  using assms by (auto simp: session_entry_def copy_entry_def entry_key_id_def entry_remote_sae_def split: option.splits if_splits)

lemma store_activate_hit:
  assumes "store_ok s" "find_for_daemon d False s = Some k"
  shows "\<exists>s'. store_activate d (sk_key_id k) s = (True, s') \<and> store_ok s' \<and>
    store_local_sae_id s' = store_local_sae_id s \<and>
    find_for_daemon d False s' = Some (k\<lparr> sk_active := True \<rparr>) \<and>
    (\<forall>d'. d' \<noteq> d \<longrightarrow> find_for_daemon d' False s' = find_for_daemon d' False s)"
proof -
  let ?P = "\<lambda>e. (qe_state e = ENTRY_PENDING \<or> qe_state e = ENTRY_ACTIVE) \<and> qe_remote_daemon_id e = d \<and>
     entry_key_id e = Some (sk_key_id k)"
  note len = store_okD(1) [OF assms(1)]
  obtain e where e: "e \<in> set (ks_entries s)" "session_entry d False s e = Some k"
    using find_map_Some assms(2) unfolding find_for_daemon_def by fast
  have "?P e" using session_entry_Some(2,3,5) [OF e(2)] by simp
  with e(1) have "\<not> (\<forall>e \<in> set (ks_entries s). \<not> ?P e)" by blast
  then obtain i where pos: "position ?P (ks_entries s) = Some i" unfolding position_None [symmetric] by blast
  then have i: "i < MAX_QKD_SESSIONS" "?P (ks_entries s ! i)" using position_Some [OF pos] len by simp_all
  have hit: "session_entry d False s (ks_entries s ! i) = Some k"
    using session_of_entry [OF assms(1) i(1), of d] i(2) assms(2) by force
  show ?thesis
  proof (cases "qe_state (ks_entries s ! i) = ENTRY_ACTIVE")
    case True
    then have "sk_active k" using session_entry_Some(4) [OF hit] by simp
    with True pos assms show ?thesis by (simp add: store_activate_def)
  next
    case False
    let ?e = "(ks_entries s ! i)\<lparr> qe_state := ENTRY_ACTIVE \<rparr>"
    let ?s = "bump_generation (s\<lparr> ks_entries := (ks_entries s)[i := ?e] \<rparr>)"
    have uniq: "qe_state (ks_entries s ! j) = 0 \<or> qe_remote_daemon_id (ks_entries s ! j) \<noteq> d" if "j < MAX_QKD_SESSIONS" "j \<noteq> i" for j
      by (rule entry_unique [OF assms(1) i(1) _ _ that]) (use i(2) in auto)
    have "entry_ok ?e" using store_okD(2) [OF assms(1) i(1)] i(2)
      by (auto simp: entry_ok_def entry_key_id_def entry_remote_sae_def)
    then have "store_ok ?s" using uniq i by (intro store_ok_update assms(1)) auto
    moreover have "find_for_daemon d False ?s = Some (k\<lparr> sk_active := True \<rparr>)"
      unfolding find_for_daemon_update session_entry_Some(6) [OF hit, symmetric]
      using uniq i(1) len by (intro find_map_update_hit) (auto intro!: session_entry_other)
    moreover have "find_for_daemon d' False ?s = find_for_daemon d' False s" if "d' \<noteq> d" for d'
      unfolding find_for_daemon_update using i len that unfolding find_for_daemon_def
      by (intro find_map_update_skip) (auto intro!: session_entry_other)
    ultimately show ?thesis using False pos by (simp add: store_activate_def)
  qed
qed

lemma store_activate_miss:
  assumes "store_ok s" "\<And>k. find_for_daemon d False s = Some k \<Longrightarrow> sk_key_id k \<noteq> kid"
  shows "store_activate d kid s = (False, s)"
proof (cases "position (\<lambda>e. (qe_state e = ENTRY_PENDING \<or> qe_state e = ENTRY_ACTIVE) \<and> qe_remote_daemon_id e = d \<and>
     entry_key_id e = Some kid) (ks_entries s)")
  case (Some i)
  note P = position_Some [OF Some] and len = store_okD(1) [OF assms(1)]
  then have i: "i < MAX_QKD_SESSIONS" by simp
  have "session_entry d False s (ks_entries s ! i) \<noteq> None"
    using P session_entry_None_iff [OF assms(1) store_okD(2) [OF assms(1) i]] by auto
  then obtain k where "session_entry d False s (ks_entries s ! i) = Some k" by blast
  moreover from this have "find_for_daemon d False s = Some k"
    using session_of_entry [OF assms(1) i] P by force
  ultimately show ?thesis using assms(2) session_entry_Some(3) P by force
qed (simp add: store_activate_def)

interpretation sessions: keyed_table store_ok session_of MAX_QKD_SESSIONS session_valid put_session store_remove
  by unfold_locales (simp_all add: put_session_refines store_remove_refines dom_session_of)

subsection \<open>Fresh and cleared tables\<close>

lemma zero_entry_ok: "entry_ok zero_entry" "qe_state zero_entry = 0"
  by (simp_all add: entry_ok_def zero_entry_def)

lemma written_header:
  assumes "valid_id MAX_SAE_ID_LEN sae" "str_ok sae" "length (qh_local_sae_id (ks_header s)) = MAX_SAE_ID_LEN"
  shows "store_local_sae_id (s\<lparr> ks_header := write_header pid sae (ks_header s) \<rparr>) = Some sae"
proof -
  have "sae \<noteq> []" "length sae < MAX_SAE_ID_LEN" using assms(1) by (simp_all add: valid_id_def)
  then show ?thesis
    using assms valid_id_length [OF assms(1)]
    by (simp add: store_local_sae_id_def write_header_def Let_def atomic_string_stored)
qed

lemma store_ok_empty:
  assumes "length (ks_entries s) = MAX_QKD_SESSIONS" "list_all entry_ok (ks_entries s)"
    "\<forall>e \<in> set (ks_entries s). qe_state e = 0" "store_local_sae_id s \<noteq> None"
  shows "store_ok s" "session_of s = Map.empty"
proof -
  have "ids_distinct (ks_entries s)" using assms(3) unfolding ids_distinct_def by (metis nth_mem)
  with assms show ok: "store_ok s" by (simp add: store_ok_def)
  have "dom (session_of s) = {}" unfolding dom_session_of [OF ok] using assms(3) by auto
  then show "session_of s = Map.empty" by simp
qed

definition fresh_store :: "u32 \<Rightarrow> string \<Rightarrow> key_store" where
  "fresh_store pid sae = zero_store\<lparr> ks_header := write_header pid sae zero_header \<rparr>"

lemma fresh_store_ok:
  assumes "valid_id MAX_SAE_ID_LEN sae" "str_ok sae"
  shows "store_ok (fresh_store pid sae)" "session_of (fresh_store pid sae) = Map.empty"
proof -
  have "ks_header zero_store = zero_header" by (simp add: zero_store_def)
  then have "store_local_sae_id (fresh_store pid sae) = Some sae"
    using written_header [OF assms, of zero_store] by (simp add: fresh_store_def zero_header_def)
  moreover have "ks_entries (fresh_store pid sae) = replicate MAX_QKD_SESSIONS zero_entry"
    by (simp add: fresh_store_def zero_store_def)
  ultimately show "store_ok (fresh_store pid sae)" "session_of (fresh_store pid sae) = Map.empty"
    by (auto intro!: store_ok_empty simp: zero_entry_ok list_all_iff)
qed

lemma store_create_opens:
  assumes "valid_id MAX_SAE_ID_LEN sae" "CHR 0x00 \<notin> set name" "w name = None"
  shows "store_create None True True uid pid name sae w =
      (Ok (fresh_store pid sae), w(name \<mapsto> \<lparr> sg_uid = uid, sg_mode = 0x180, sg_size = qkd_shm_size, sg_store = fresh_store pid sae \<rparr>))"
  using assms by (simp add: store_create_def fresh_store_def Let_def)

lemma reset_entries:
  "ks_entries (clear_message_entries s) = ks_entries s" "ks_header (clear_message_entries s) = ks_header s"
  "ks_header (clear_entries s) = ks_header s" "ks_entries (clear_entries s) = map cleared_entry (ks_entries s)"
  by (simp_all add: clear_message_entries_def clear_entries_def)

lemma store_reset_ok:
  assumes "valid_id MAX_SAE_ID_LEN sae" "str_ok sae" "length (qh_local_sae_id (ks_header s)) = MAX_SAE_ID_LEN"
    "length (ks_entries s) = MAX_QKD_SESSIONS" "list_all entry_ok (ks_entries s)"
  shows "\<exists>s'. store_reset pid sae s = (Ok (), s') \<and> store_ok s' \<and> session_of s' = Map.empty \<and>
    store_local_sae_id s' = Some sae"
proof -
  let ?s1 = "clear_message_entries (clear_entries s)"
  define t where "t = bump_generation (?s1\<lparr> ks_header := write_header pid sae (ks_header ?s1) \<rparr>)"
  have loc: "store_local_sae_id t = Some sae"
    using written_header [OF assms(1,2), of ?s1] assms(3) by (simp add: t_def reset_entries)
  have es: "ks_entries t = map cleared_entry (ks_entries s)" by (simp add: t_def reset_entries)
  have "store_ok t" "session_of t = Map.empty"
    using assms(4,5) by (auto intro!: store_ok_empty simp: loc es list_all_iff)
  moreover have "store_reset pid sae s = (Ok (), t)" using assms(1) by (simp add: store_reset_def Let_def t_def)
  ultimately show ?thesis using loc by simp
qed

subsection \<open>Results\<close>

text \<open>C10: The session table is a map.  Starting from any well-formed table, a sequence of insertions and removals
  that concerns at most 32 daemons leaves, for every daemon, exactly the peer identity, key and state a map would
  hold after the same operations; nothing is lost, mixed up or left behind in a reused slot.\<close>

theorem sessions_refine_map:
  assumes "store_ok s" "list_all (op_valid session_valid) ops" "finite K" "card K \<le> MAX_QKD_SESSIONS"
    "dom (session_of s) \<subseteq> K" "op_key ` set ops \<subseteq> K"
  shows "store_ok (fold (table_step put_session store_remove) ops s) \<and>
    session_of (fold (table_step put_session store_remove) ops s) = fold map_op ops (session_of s)"
  using assms by (rule sessions.run_refines)

abbreviation (input) sample_session :: "string \<times> qkd_key_material \<times> bool" where
  "sample_session \<equiv> (''sae-2'', \<lparr> key_id = ''k'', key = replicate 32 7 \<rparr>, True)"

lemma sample_valid: "session_valid sample_session" "valid_id MAX_SAE_ID_LEN ''sae-1''" "str_ok ''sae-1''"
  by (simp_all add: session_valid_def material_ok_def valid_id_def is_ascii_control_def str_ok_def as_bytes_def)

theorem sessions_refine_map_witness:
  "session_of (fold (table_step put_session store_remove) [Put 7 sample_session, Put 9 sample_session, Remove 7]
     (fresh_store 1 ''sae-1'')) = [9 \<mapsto> sample_session]"
  using sessions_refine_map [of "fresh_store 1 ''sae-1''" "[Put 7 sample_session, Put 9 sample_session, Remove 7]" "{7, 9}"]
  by (simp add: fresh_store_ok sample_valid fun_upd_twist)

text \<open>Note: A thirty-third daemon silently takes the session of another.  On a full table, storing a key for a new
  daemon succeeds, and some daemon that had a session, active or not, has none afterwards.\<close>

theorem full_table_drops_session:
  assumes "store_ok s" "card (dom (session_of s)) = MAX_QKD_SESSIONS" "d \<notin> dom (session_of s)" "session_valid (sae, m, active)"
  shows "fst (store_put d sae m active s) = Ok () \<and>
    (\<exists>d' \<in> dom (session_of s). session_of (snd (store_put d sae m active s)) d' = None)"
proof -
  obtain loc where loc: "store_local_sae_id s = Some loc" using store_okD(4) [OF assms(1)] by blast
  let ?s = "snd (store_put d sae m active s)"
  note spec = store_put_spec [OF assms(1,4) loc, where d = d]
  note fin = sessions.finite_keys [OF assms(1)] sessions.finite_keys [OF spec(2)]
  have "d \<in> dom (session_of ?s)" using spec(3) by (simp add: session_of_def domIff)
  have "card (dom (session_of ?s)) \<le> MAX_QKD_SESSIONS"
  proof -
    have "dom (session_of ?s) \<subseteq> qe_remote_daemon_id ` set (ks_entries ?s)" by (auto simp: dom_session_of [OF spec(2)])
    then have "card (dom (session_of ?s)) \<le> card (qe_remote_daemon_id ` set (ks_entries ?s))" by (intro card_mono) simp_all
    also have "\<dots> \<le> MAX_QKD_SESSIONS"
      using card_image_le [of "set (ks_entries ?s)" qe_remote_daemon_id] card_length [of "ks_entries ?s"]
        store_okD(1) [OF spec(2)] by simp
    finally show ?thesis .
  qed
  then have "\<not> insert d (dom (session_of s)) \<subseteq> dom (session_of ?s)"
    using card_mono [OF fin(2), of "insert d (dom (session_of s))"] assms(2,3) fin(1) by auto
  then obtain d' where "d' \<in> insert d (dom (session_of s))" "d' \<notin> dom (session_of ?s)" by blast
  moreover from this \<open>d \<in> dom (session_of ?s)\<close> have "d' \<noteq> d" by blast
  ultimately show ?thesis using spec(1) by (simp only: insert_iff) (metis domIff)
qed

lemma fill_table:
  fixes n :: nat
  assumes "n \<le> MAX_QKD_SESSIONS"
  defines "s \<equiv> fold (table_step put_session store_remove) (map (\<lambda>i. Put (of_nat i) sample_session) [0..<n]) (fresh_store 1 ''sae-1'')"
  shows "store_ok s" "dom (session_of s) = of_nat ` {..<n}" "card (dom (session_of s)) = n"
proof -
  let ?ops = "map (\<lambda>i. Put (of_nat i :: u64) sample_session) [0..<n]" and ?K = "(of_nat :: nat \<Rightarrow> u64) ` {..<n}"
  have inj: "inj_on (of_nat :: nat \<Rightarrow> u64) {..<n}"
  proof (rule inj_onI)
    fix a b assume "a \<in> {..<n}" "b \<in> {..<n}" and eq: "(of_nat a :: u64) = of_nat b"
    with assms(1) have "a < 2 ^ 64" "b < 2 ^ 64" by simp_all
    from unat_of_nat64 [OF this(1)] unat_of_nat64 [OF this(2)] show "a = b" unfolding eq by simp
  qed
  then have card: "card ?K = n" by (simp add: card_image)
  have dom: "dom (fold map_op (map (\<lambda>i. Put (of_nat i :: u64) v) xs) m) = of_nat ` set xs \<union> dom m" for xs m and v :: "string \<times> qkd_key_material \<times> bool"
    by (induction xs arbitrary: m) auto
  have run: "store_ok s \<and> session_of s = fold map_op ?ops (session_of (fresh_store 1 ''sae-1''))"
    unfolding s_def using assms(1) card sample_valid
    by (intro sessions.run_refines [where K = ?K]) (auto simp: fresh_store_ok list_all_iff)
  then show "store_ok s" "dom (session_of s) = of_nat ` {..<n}" "card (dom (session_of s)) = n"
    using card by (simp_all add: dom fresh_store_ok sample_valid atLeast_upt)
qed

theorem full_table_drops_session_witness:
  "\<exists>s d'. session_of s d' \<noteq> None \<and>
     session_of (snd (store_put 99 ''sae-2'' \<lparr> key_id = ''k'', key = replicate 32 7 \<rparr> True s)) d' = None"
proof -
  let ?s = "fold (table_step put_session store_remove) (map (\<lambda>i. Put (of_nat i) sample_session) [0..<32]) (fresh_store 1 ''sae-1'')"
  note fill = fill_table [of 32, simplified]
  have "(99 :: u64) \<noteq> of_nat i" if "i < 32" for i :: nat
  proof
    assume "(99 :: u64) = of_nat i"
    then have "unat (99 :: u64) = unat (of_nat i :: u64)" by simp
    with that unat_of_nat64 [of i] show False by simp
  qed
  then have "99 \<notin> dom (session_of ?s)" unfolding fill(2) by auto
  from full_table_drops_session [OF fill(1,3) this sample_valid(1)] show ?thesis by (meson domIff)
qed

end
