(* ===== verification/Qkd_Message_Keys.thy ===== *)
theory Qkd_Message_Keys
  imports Qkd_Store
begin

text \<open>
  The message keys of the shared key table (\<^verbatim>\<open>qkd.rs\<close>, \<open>claim_message_key\<close> and the functions
  around it): a hash table with linear probing in which the processes of a host agree who fetches a key.

  A call is uninterrupted; \<open>alive\<close> says which processes exist.  The retry loop is a partial function, so that waiting
  for a live writer forever is the value \<open>None\<close>.
\<close>

subsection \<open>Entries\<close>

definition message_key_hash :: "string \<Rightarrow> string \<Rightarrow> u64" where
  "message_key_hash sender kid =
     foldl (\<lambda>h b. (h XOR ucast b) * 0x1000000001b3) 0xcbf29ce484222325 (as_bytes sender @ [0] @ as_bytes kid)"

definition message_entry_matches :: "string \<Rightarrow> string \<Rightarrow> qkd_message_entry \<Rightarrow> bool" where
  "message_entry_matches sender kid e \<longleftrightarrow>
     atomic_string (qm_sender_sae_id e) (unat (qm_sender_sae_len e)) = Some sender \<and>
     atomic_string (qm_key_id e) (unat (qm_key_id_len e)) = Some kid"

definition set_message :: "nat \<Rightarrow> qkd_message_entry \<Rightarrow> key_store \<Rightarrow> key_store" where
  "set_message i e s = s\<lparr> ks_messages := (ks_messages s)[i := e] \<rparr>"

text \<open>\<open>initialize_message_entry\<close>: \<open>fetch_add\<close> returns the generation before the increment.\<close>

definition initialized :: "u32 \<Rightarrow> string \<Rightarrow> string \<Rightarrow> u64 \<Rightarrow> qkd_message_entry \<Rightarrow> qkd_message_entry" where
  "initialized me sender kid generation e =
     e\<lparr> qm_writer_pid := me, qm_key := clear_atomic_bytes (qm_key e),
        qm_key_id := store_atomic_bytes (clear_atomic_bytes (qm_key_id e)) (as_bytes kid),
        qm_sender_sae_id := store_atomic_bytes (clear_atomic_bytes (qm_sender_sae_id e)) (as_bytes sender),
        qm_key_id_len := of_nat (length kid), qm_sender_sae_len := of_nat (length sender),
        qm_generation := generation, qm_state := MESSAGE_ENTRY_PENDING \<rparr>"

definition initialize_message_entry :: "u32 \<Rightarrow> string \<Rightarrow> string \<Rightarrow> nat \<Rightarrow> key_store \<Rightarrow> key_store" where
  "initialize_message_entry me sender kid i s =
     (let s1 = bump_generation s in
      set_message i (initialized me sender kid (qh_generation (ks_header s) + 1) (ks_messages s ! i)) s1)"

definition find_message_entry :: "string \<Rightarrow> string \<Rightarrow> u8 \<Rightarrow> key_store \<Rightarrow> nat option" where
  "find_message_entry sender kid expected s =
     position (\<lambda>e. qm_state e = expected \<and> message_entry_matches sender kid e) (ks_messages s)"

definition copy_message_key :: "qkd_message_entry \<Rightarrow> qkd_key_material option" where
  "copy_message_key e =
     (if qm_state e \<noteq> MESSAGE_ENTRY_READY then None
      else
        (case atomic_string (qm_key_id e) (unat (qm_key_id_len e)) of
           None \<Rightarrow> None
         | Some kid \<Rightarrow> Some \<lparr> key_id = kid, key = load_atomic_bytes (qm_key e) (replicate QKD_KEY_BYTES 0) \<rparr>))"

definition publish_message_key ::
  "string \<Rightarrow> qkd_key_material \<Rightarrow> key_store \<Rightarrow> (unit, qkd_error) rust_result \<times> key_store" where
  "publish_message_key sender m s =
     (case find_message_entry sender (key_id m) MESSAGE_ENTRY_PENDING s of
        None \<Rightarrow> (Err ClaimLost, s)
      | Some i \<Rightarrow>
          (let e = ks_messages s ! i in
           (Ok (), set_message i (e\<lparr> qm_key := store_atomic_bytes (qm_key e) (key m), qm_state := MESSAGE_ENTRY_READY \<rparr>) s)))"

definition abandon_message_key :: "string \<Rightarrow> string \<Rightarrow> key_store \<Rightarrow> key_store" where
  "abandon_message_key sender kid s =
     (case find_message_entry sender kid MESSAGE_ENTRY_PENDING s of
        None \<Rightarrow> s
      | Some i \<Rightarrow> set_message i (clear_message_entry ((ks_messages s ! i)\<lparr> qm_state := MESSAGE_ENTRY_WRITING \<rparr>)) s)"

subsection \<open>Claiming\<close>

text \<open>Where one scan of the table stops.  \<open>AtEnd\<close> carries the ready entry with the smallest generation.\<close>

datatype scan_stop = AtWriting nat | AtEmpty nat | AtMatch nat | AtEnd "(nat \<times> u64) option"

definition older :: "nat \<Rightarrow> qkd_message_entry \<Rightarrow> (nat \<times> u64) option \<Rightarrow> (nat \<times> u64) option" where
  "older i e oldest =
     (if qm_state e = MESSAGE_ENTRY_READY \<and> (case oldest of Some (_, g) \<Rightarrow> qm_generation e < g | None \<Rightarrow> True)
      then Some (i, qm_generation e) else oldest)"

fun scan_messages ::
  "qkd_message_entry list \<Rightarrow> string \<Rightarrow> string \<Rightarrow> nat list \<Rightarrow> (nat \<times> u64) option \<Rightarrow> scan_stop" where
  "scan_messages es sender kid [] oldest = AtEnd oldest"
| "scan_messages es sender kid (i # idx) oldest =
     (let e = es ! i in
      if qm_state e = MESSAGE_ENTRY_WRITING then AtWriting i
      else if qm_state e = MESSAGE_ENTRY_EMPTY then AtEmpty i
      else if qm_state e = MESSAGE_ENTRY_PENDING \<or> qm_state e = MESSAGE_ENTRY_READY then
        (if message_entry_matches sender kid e then AtMatch i
         else scan_messages es sender kid idx (older i e oldest))
      else scan_messages es sender kid idx oldest)"

definition probe_order :: "nat \<Rightarrow> string \<Rightarrow> string \<Rightarrow> nat list" where
  "probe_order n sender kid = map (\<lambda>offset. (unat (message_key_hash sender kid) mod n + offset) mod n) [0..<n]"

datatype message_key_lookup = Ready qkd_key_material | Claimed | Awaiting

text \<open>One pass of the retry loop: scan again with a changed table, or return.\<close>

datatype claim_next = Again key_store | Done "(message_key_lookup, qkd_error) rust_result" key_store

definition claim_pass :: "(u32 \<Rightarrow> bool) \<Rightarrow> u32 \<Rightarrow> string \<Rightarrow> string \<Rightarrow> key_store \<Rightarrow> claim_next" where
  "claim_pass alive me sender kid s =
     (let es = ks_messages s in
      case scan_messages es sender kid (probe_order (length es) sender kid) None of
        AtWriting i \<Rightarrow>
          (let e = es ! i in
           if qm_writer_pid e = 0 \<or> \<not> alive (qm_writer_pid e)
           then Again (set_message i (e\<lparr> qm_state := MESSAGE_ENTRY_EMPTY \<rparr>) s)
           else Again s)
      | AtEmpty i \<Rightarrow> Done (Ok Claimed) (initialize_message_entry me sender kid i s)
      | AtMatch i \<Rightarrow>
          (let e = es ! i in
           if qm_state e = MESSAGE_ENTRY_PENDING \<and> (qm_writer_pid e = 0 \<or> \<not> alive (qm_writer_pid e))
           then Again (set_message i (clear_message_entry (e\<lparr> qm_state := MESSAGE_ENTRY_WRITING \<rparr>)) s)
           else if qm_state e = MESSAGE_ENTRY_READY
           then Done (case copy_message_key e of Some m \<Rightarrow> Ok (Ready m) | None \<Rightarrow> Err MessageCacheChanged) s
           else Done (Ok Awaiting) s)
      | AtEnd (Some (i, g)) \<Rightarrow> Done (Ok Claimed) (initialize_message_entry me sender kid i s)
      | AtEnd None \<Rightarrow> Done (Err MessageCacheFull) s)"

partial_function (option) claim_scan ::
  "(u32 \<Rightarrow> bool) \<Rightarrow> u32 \<Rightarrow> string \<Rightarrow> string \<Rightarrow> key_store \<Rightarrow>
   ((message_key_lookup, qkd_error) rust_result \<times> key_store) option" where
  "claim_scan alive me sender kid s =
     (case claim_pass alive me sender kid s of
        Again s' \<Rightarrow> claim_scan alive me sender kid s'
      | Done r s' \<Rightarrow> Some (r, s'))"

definition claim_message_key ::
  "(u32 \<Rightarrow> bool) \<Rightarrow> u32 \<Rightarrow> string \<Rightarrow> string \<Rightarrow> key_store \<Rightarrow>
   ((message_key_lookup, qkd_error) rust_result \<times> key_store) option" where
  "claim_message_key alive me sender kid s =
     (case bind_ok (validate_identifier ''QKD sender SAE ID'' sender MAX_SAE_ID_LEN)
             (\<lambda>_. validate_identifier ''QKD message key_ID'' kid MAX_KEY_ID_LEN) of
        Err e \<Rightarrow> Some (Err e, s)
      | Ok _ \<Rightarrow> claim_scan alive me sender kid s)"

subsection \<open>Scans\<close>

definition skipped :: "string \<Rightarrow> string \<Rightarrow> qkd_message_entry \<Rightarrow> bool" where
  "skipped sender kid e \<longleftrightarrow> qm_state e \<noteq> MESSAGE_ENTRY_WRITING \<and> qm_state e \<noteq> MESSAGE_ENTRY_EMPTY \<and>
     ((qm_state e = MESSAGE_ENTRY_PENDING \<or> qm_state e = MESSAGE_ENTRY_READY) \<longrightarrow> \<not> message_entry_matches sender kid e)"

lemma scan_skip:
  "\<forall>j \<in> set pre. skipped sender kid (es ! j) \<Longrightarrow>
   \<exists>oldest'. scan_messages es sender kid (pre @ idx) oldest = scan_messages es sender kid idx oldest'"
proof (induction pre arbitrary: oldest)
  case (Cons j pre)
  then show ?case by (auto simp: skipped_def Let_def)
qed auto

lemma scan_hit:
  assumes "\<forall>j \<in> set pre. skipped sender kid (es ! j)" "message_entry_matches sender kid (es ! i)"
    "qm_state (es ! i) = MESSAGE_ENTRY_PENDING \<or> qm_state (es ! i) = MESSAGE_ENTRY_READY"
  shows "scan_messages es sender kid (pre @ i # post) oldest = AtMatch i"
  using scan_skip [OF assms(1), of "i # post" oldest] assms(2,3) by (auto simp: Let_def)

lemma scan_empty:
  assumes "\<forall>j \<in> set pre. skipped sender kid (es ! j)" "qm_state (es ! i) = MESSAGE_ENTRY_EMPTY"
  shows "scan_messages es sender kid (pre @ i # post) oldest = AtEmpty i"
  using scan_skip [OF assms(1), of "i # post" oldest] assms(2) by (auto simp: Let_def)

text \<open>The entries before the place where a scan stops were all skipped.\<close>

lemma scan_split:
  assumes "scan_messages es sender kid idx oldest = r"
  shows "case r of
      AtWriting i \<Rightarrow> i \<in> set idx \<and> qm_state (es ! i) = MESSAGE_ENTRY_WRITING
    | AtEmpty i \<Rightarrow> \<exists>pre post. idx = pre @ i # post \<and> (\<forall>j \<in> set pre. skipped sender kid (es ! j))
    | AtMatch i \<Rightarrow> i \<in> set idx \<and> (qm_state (es ! i) = MESSAGE_ENTRY_PENDING \<or> qm_state (es ! i) = MESSAGE_ENTRY_READY) \<and>
        message_entry_matches sender kid (es ! i)
    | AtEnd o' \<Rightarrow> (\<forall>j \<in> set idx. skipped sender kid (es ! j)) \<and>
        (\<forall>i g. o' = Some (i, g) \<longrightarrow> i \<in> set idx \<or> oldest = Some (i, g))"
  using assms
proof (induction idx arbitrary: oldest)
  case (Cons i idx)
  let ?e = "es ! i"
  show ?case
  proof (cases "skipped sender kid ?e")
    case True
    define o1 where "o1 = (if qm_state ?e = MESSAGE_ENTRY_PENDING \<or> qm_state ?e = MESSAGE_ENTRY_READY
      then older i ?e oldest else oldest)"
    have o1: "scan_messages es sender kid (i # idx) oldest = scan_messages es sender kid idx o1"
      "\<forall>j g. o1 = Some (j, g) \<longrightarrow> j = i \<or> oldest = Some (j, g)"
      using True by (auto simp: skipped_def Let_def older_def o1_def)
    from Cons.IH [of o1] o1(1) Cons.prems
    have IH: "case r of
        AtWriting i \<Rightarrow> i \<in> set idx \<and> qm_state (es ! i) = MESSAGE_ENTRY_WRITING
      | AtEmpty i \<Rightarrow> \<exists>pre post. idx = pre @ i # post \<and> (\<forall>j \<in> set pre. skipped sender kid (es ! j))
      | AtMatch i \<Rightarrow> i \<in> set idx \<and> (qm_state (es ! i) = MESSAGE_ENTRY_PENDING \<or> qm_state (es ! i) = MESSAGE_ENTRY_READY) \<and>
          message_entry_matches sender kid (es ! i)
      | AtEnd o' \<Rightarrow> (\<forall>j \<in> set idx. skipped sender kid (es ! j)) \<and>
          (\<forall>i g. o' = Some (i, g) \<longrightarrow> i \<in> set idx \<or> o1 = Some (i, g))" by simp
    show ?thesis
    proof (cases r)
      case (AtEmpty k)
      with IH obtain pre post where "idx = pre @ k # post" "\<forall>j \<in> set pre. skipped sender kid (es ! j)" by auto
      with True have "i # idx = (i # pre) @ k # post \<and> (\<forall>j \<in> set (i # pre). skipped sender kid (es ! j))" by simp
      with AtEmpty show ?thesis by (simp only: scan_stop.case) blast
    qed (use IH True o1(2) in auto)
  next
    case False
    then have "r = AtWriting i \<and> qm_state ?e = MESSAGE_ENTRY_WRITING \<or> r = AtEmpty i \<or>
        r = AtMatch i \<and> (qm_state ?e = MESSAGE_ENTRY_PENDING \<or> qm_state ?e = MESSAGE_ENTRY_READY) \<and> message_entry_matches sender kid ?e"
      using Cons.prems by (auto simp: skipped_def Let_def split: if_splits)
    then show ?thesis
    proof (elim disjE)
      assume "r = AtEmpty i"
      then show ?thesis by (simp only: scan_stop.case) (metis append_Nil empty_iff list.set(1))
    qed auto
  qed
qed auto

lemma probe_order_bound: "i \<in> set (probe_order n sender kid) \<Longrightarrow> i < n"
  by (cases "n = 0") (auto simp: probe_order_def)

lemma probe_order_distinct: "distinct (probe_order n sender kid)"
proof (cases "n = 0")
  case False
  let ?h = "unat (message_key_hash sender kid) mod n"
  have "inj_on (\<lambda>k. (?h + k) mod n) {0..<n}"
  proof (rule inj_onI)
    fix a b assume ab: "a \<in> {0..<n}" "b \<in> {0..<n}" "(?h + a) mod n = (?h + b) mod n"
    have "x mod n = (if x < n then x else x - n)" if "x < 2 * n" for x using that by (simp add: le_mod_geq)
    from this [of "?h + a"] this [of "?h + b"] ab False show "a = b"
      by (simp add: add_less_mono mult_2 split: if_splits)
  qed
  then show ?thesis by (simp add: probe_order_def distinct_map)
qed (simp add: probe_order_def)

lemma messages_set [simp]:
  "ks_messages (set_message i e s) = (ks_messages s)[i := e]"
  "ks_messages (initialize_message_entry me sender kid i s) =
     (ks_messages s)[i := initialized me sender kid (qh_generation (ks_header s) + 1) (ks_messages s ! i)]"
  by (simp_all add: set_message_def initialize_message_entry_def)

subsection \<open>Termination\<close>

definition unsettled :: "qkd_message_entry \<Rightarrow> bool" where
  "unsettled e \<longleftrightarrow> qm_state e = MESSAGE_ENTRY_WRITING \<or> qm_state e = MESSAGE_ENTRY_PENDING"

definition dead_writers :: "(u32 \<Rightarrow> bool) \<Rightarrow> key_store \<Rightarrow> bool" where
  "dead_writers alive s \<longleftrightarrow> (\<forall>e \<in> set (ks_messages s).
     qm_state e = MESSAGE_ENTRY_WRITING \<longrightarrow> qm_writer_pid e = 0 \<or> \<not> alive (qm_writer_pid e))"

definition message_ok :: "qkd_message_entry \<Rightarrow> bool" where
  "message_ok e \<longleftrightarrow> length (qm_key e) = QKD_KEY_BYTES \<and> length (qm_key_id e) = MAX_KEY_ID_LEN \<and>
     length (qm_sender_sae_id e) = MAX_SAE_ID_LEN"

lemma message_ok_cleared: "message_ok e \<Longrightarrow> message_ok (clear_message_entry (e\<lparr> qm_state := b \<rparr>))" "message_ok (e\<lparr> qm_state := b \<rparr>) = message_ok e"
  by (simp_all add: message_ok_def clear_message_entry_def)

lemma filter_update_less:
  "i < length xs \<Longrightarrow> P (xs ! i) \<Longrightarrow> \<not> P y \<Longrightarrow> length (filter P (xs[i := y])) < length (filter P xs)"
proof (induction xs arbitrary: i)
  case (Cons x xs)
  then show ?case by (cases i) auto
qed simp

lemma clear_message_state [simp]: "qm_state (clear_message_entry e) = 0"
  by (simp add: clear_message_entry_def)

lemma settle_step:
  assumes "i < length (ks_messages s)" "unsettled (ks_messages s ! i)" "qm_state y = MESSAGE_ENTRY_EMPTY" "dead_writers alive s"
  shows "length (filter unsettled (ks_messages (set_message i y s))) < length (filter unsettled (ks_messages s))"
    "dead_writers alive (set_message i y s)"
  using assms set_update_subset_insert [of "ks_messages s" i y]
  by (auto intro!: filter_update_less simp: unsettled_def dead_writers_def)

lemma claim_scan_Done: "claim_pass alive me sender kid s = Done r s' \<Longrightarrow> claim_scan alive me sender kid s = Some (r, s')"
  by (subst claim_scan.simps) simp

lemma claim_scan_Again: "claim_pass alive me sender kid s = Again s' \<Longrightarrow> claim_scan alive me sender kid s = claim_scan alive me sender kid s'"
  by (subst claim_scan.simps) simp

text \<open>A pass that scans again has freed an entry whose owner is gone, or waits for a live writer.\<close>

lemma claim_pass_Again:
  assumes "claim_pass alive me sender kid s = Again s'"
  shows "(\<exists>i y. i < length (ks_messages s) \<and> unsettled (ks_messages s ! i) \<and> qm_state y = MESSAGE_ENTRY_EMPTY \<and>
      (message_ok (ks_messages s ! i) \<longrightarrow> message_ok y) \<and> s' = set_message i y s) \<or>
    s' = s \<and> (\<exists>i < length (ks_messages s). qm_state (ks_messages s ! i) = MESSAGE_ENTRY_WRITING \<and>
       qm_writer_pid (ks_messages s ! i) \<noteq> 0 \<and> alive (qm_writer_pid (ks_messages s ! i)))"
proof -
  let ?es = "ks_messages s"
  let ?idx = "probe_order (length ?es) sender kid"
  note bound = probe_order_bound [of _ "length ?es" sender kid]
  note stop = scan_split [OF refl, where es = ?es and sender = sender and kid = kid and idx = ?idx and oldest = None]
  show ?thesis
  proof (cases "scan_messages ?es sender kid ?idx None")
    case (AtWriting i)
    then have i: "i < length ?es" "qm_state (?es ! i) = MESSAGE_ENTRY_WRITING"
      using stop bound [of i] by (simp_all only: scan_stop.case)
    show ?thesis
    proof (cases "qm_writer_pid (?es ! i) = 0 \<or> \<not> alive (qm_writer_pid (?es ! i))")
      case True
      with assms AtWriting have "s' = set_message i ((?es ! i)\<lparr> qm_state := MESSAGE_ENTRY_EMPTY \<rparr>) s"
        by (auto simp: claim_pass_def Let_def)
      with i show ?thesis
        by (intro disjI1 exI [of _ i] exI [of _ "(?es ! i)\<lparr> qm_state := MESSAGE_ENTRY_EMPTY \<rparr>"])
          (simp add: unsettled_def message_ok_cleared)
    next
      case False
      with assms AtWriting have "s' = s" by (auto simp: claim_pass_def Let_def)
      with i False show ?thesis by blast
    qed
  next
    case (AtMatch i)
    then have i: "i < length ?es" using stop bound [of i] by (simp only: scan_stop.case)
    with assms AtMatch have "qm_state (?es ! i) = MESSAGE_ENTRY_PENDING"
      "s' = set_message i (clear_message_entry ((?es ! i)\<lparr> qm_state := MESSAGE_ENTRY_WRITING \<rparr>)) s"
      by (auto simp: claim_pass_def Let_def split: if_splits)
    with i show ?thesis
      by (intro disjI1 exI [of _ i] exI [of _ "clear_message_entry ((?es ! i)\<lparr> qm_state := MESSAGE_ENTRY_WRITING \<rparr>)"])
        (simp add: unsettled_def message_ok_cleared)
  next
    case (AtEnd q)
    with assms show ?thesis by (cases q) (auto simp: claim_pass_def Let_def)
  qed (use assms in \<open>simp add: claim_pass_def Let_def\<close>)
qed

lemma claim_scan_terminates:
  assumes "dead_writers alive s"
  shows "\<exists>r. claim_scan alive me sender kid s = Some r"
  using assms
proof (induction "length (filter unsettled (ks_messages s))" arbitrary: s rule: less_induct)
  case less
  show ?case
  proof (cases "claim_pass alive me sender kid s")
    case (Again s')
    from claim_pass_Again [OF Again] less.prems obtain i y where "i < length (ks_messages s)"
      "unsettled (ks_messages s ! i)" "qm_state y = MESSAGE_ENTRY_EMPTY" "s' = set_message i y s"
      unfolding dead_writers_def using nth_mem by blast
    with settle_step [OF this(1-3) less.prems] less.hyps [of s'] claim_scan_Again [OF Again] show ?thesis by simp
  next
    case (Done r s')
    then show ?thesis by (auto dest: claim_scan_Done)
  qed
qed

lemma claim_scan_blocks:
  assumes "claim_pass alive me sender kid s = Again s"
  shows "claim_scan alive me sender kid s = None"
proof (rule ccontr)
  assume "claim_scan alive me sender kid s \<noteq> None"
  then obtain r where r: "claim_scan alive me sender kid s = Some r" by blast
  have "\<not> (alive = alive \<and> me = me \<and> sender = sender \<and> kid = kid \<and> s = s)"
    by (rule claim_scan.raw_induct [where P = "\<lambda>al m se k t r. \<not> (al = alive \<and> m = me \<and> se = sender \<and> k = kid \<and> t = s)", OF _ r])
      (use assms in \<open>auto split: claim_next.splits\<close>)
  then show False by simp
qed

subsection \<open>A claimed key\<close>

lemma claim_scan_reaches:
  assumes "claim_scan alive me sender kid s = Some (r, s')" "I s"
    and step: "\<And>t t'. I t \<Longrightarrow> claim_pass alive me sender kid t = Again t' \<Longrightarrow> I t'"
  shows "\<exists>t. I t \<and> claim_pass alive me sender kid t = Done r s'"
proof -
  have "alive = alive \<and> me = me \<and> sender = sender \<and> kid = kid \<and> I s \<longrightarrow>
      (\<exists>t. I t \<and> claim_pass alive me sender kid t = Done (fst (r, s')) (snd (r, s')))"
    by (rule claim_scan.raw_induct [where P = "\<lambda>al m se k u y. al = alive \<and> m = me \<and> se = sender \<and> k = kid \<and> I u \<longrightarrow>
        (\<exists>t. I t \<and> claim_pass alive me sender kid t = Done (fst y) (snd y))", OF _ assms(1)])
      (use step in \<open>auto split: claim_next.splits\<close>)
  with assms(2) show ?thesis by simp
qed

abbreviation pending_for :: "string \<Rightarrow> string \<Rightarrow> qkd_message_entry \<Rightarrow> bool" where
  "pending_for sender kid e \<equiv> qm_state e = MESSAGE_ENTRY_PENDING \<and> message_entry_matches sender kid e"

definition messages_ok :: "key_store \<Rightarrow> bool" where
  "messages_ok s \<longleftrightarrow> list_all message_ok (ks_messages s)"

lemma messages_ok_set: "messages_ok s \<Longrightarrow> message_ok e \<Longrightarrow> messages_ok (set_message i e s)"
  using set_update_subset_insert [of "ks_messages s" i e] by (auto simp: messages_ok_def list_all_iff)

lemma pass_keeps:
  assumes "messages_ok s" "\<forall>e \<in> set (ks_messages s). \<not> pending_for a b e" "claim_pass alive me sender kid s = Again s'"
  shows "messages_ok s' \<and> (\<forall>e \<in> set (ks_messages s'). \<not> pending_for a b e) \<and> length (ks_messages s') = length (ks_messages s)"
  using claim_pass_Again [OF assms(3)]
proof (elim disjE exE conjE)
  fix i y
  assume "i < length (ks_messages s)" "qm_state y = MESSAGE_ENTRY_EMPTY" and s': "s' = set_message i y s"
    and y: "message_ok (ks_messages s ! i) \<longrightarrow> message_ok y"
  with assms(1) have "message_ok y" by (simp add: messages_ok_def list_all_length)
  moreover have "\<forall>e \<in> set (ks_messages s'). \<not> pending_for a b e"
    using assms(2) \<open>qm_state y = MESSAGE_ENTRY_EMPTY\<close> set_update_subset_insert [of "ks_messages s" i y] by (auto simp: s')
  ultimately show ?thesis using assms(1) by (simp add: s' messages_ok_set)
qed (use assms in simp)

lemma claim_pass_Claimed:
  assumes "claim_pass alive me sender kid s = Done (Ok Claimed) s'"
  shows "\<exists>i pre post. probe_order (length (ks_messages s)) sender kid = pre @ i # post \<and>
    (\<forall>j \<in> set pre. skipped sender kid (ks_messages s ! j)) \<and> s' = initialize_message_entry me sender kid i s"
proof -
  let ?es = "ks_messages s"
  let ?idx = "probe_order (length ?es) sender kid"
  note stop = scan_split [OF refl, where es = ?es and sender = sender and kid = kid and idx = ?idx and oldest = None]
  show ?thesis
  proof (cases "scan_messages ?es sender kid ?idx None")
    case (AtEmpty i)
    with stop obtain pre post where "?idx = pre @ i # post" "\<forall>j \<in> set pre. skipped sender kid (?es ! j)" by auto
    moreover have "s' = initialize_message_entry me sender kid i s"
      using assms AtEmpty by (simp add: claim_pass_def Let_def)
    ultimately show ?thesis by blast
  next
    case (AtEnd q)
    with assms obtain i g where q: "q = Some (i, g)" and s': "s' = initialize_message_entry me sender kid i s"
      by (cases q) (auto simp: claim_pass_def Let_def)
    from stop AtEnd q have "\<forall>j \<in> set ?idx. skipped sender kid (?es ! j)" "i \<in> set ?idx" by simp_all
    moreover from this(2) obtain pre post where "?idx = pre @ i # post" by (meson split_list)
    ultimately show ?thesis using s' by auto
  next
    case (AtMatch i)
    with assms show ?thesis by (auto simp: claim_pass_def Let_def split: if_splits option.splits)
  qed (use assms in \<open>auto simp: claim_pass_def Let_def split: if_splits\<close>)
qed

lemma claim_message_key_valid:
  assumes "valid_id MAX_SAE_ID_LEN sender" "valid_id MAX_KEY_ID_LEN kid"
  shows "claim_message_key alive me sender kid s = claim_scan alive me sender kid s"
  using assms by (simp add: claim_message_key_def)

lemma position_unique:
  "i < length xs \<Longrightarrow> P (xs ! i) \<Longrightarrow> (\<And>j. j < length xs \<Longrightarrow> j \<noteq> i \<Longrightarrow> \<not> P (xs ! j)) \<Longrightarrow> position P xs = Some i"
  by (cases "position P xs") (auto simp: position_None dest!: position_Some)

lemma initialized_matches:
  assumes "message_ok e" "valid_id MAX_SAE_ID_LEN sender" "valid_id MAX_KEY_ID_LEN kid" "str_ok sender" "str_ok kid"
  shows "message_entry_matches sender kid (initialized me sender kid g e)"
    "atomic_string (qm_key_id (initialized me sender kid g e)) (unat (qm_key_id_len (initialized me sender kid g e))) = Some kid"
    "message_ok (initialized me sender kid g e)"
proof -
  have "sender \<noteq> []" "kid \<noteq> []" "length sender < MAX_SAE_ID_LEN" "length kid < MAX_KEY_ID_LEN"
    using assms(2,3) by (simp_all add: valid_id_def)
  then show "atomic_string (qm_key_id (initialized me sender kid g e)) (unat (qm_key_id_len (initialized me sender kid g e))) = Some kid"
    "message_entry_matches sender kid (initialized me sender kid g e)" "message_ok (initialized me sender kid g e)"
    using assms valid_id_length [OF assms(2)] valid_id_length [OF assms(3)]
    by (simp_all add: message_entry_matches_def initialized_def message_ok_def atomic_string_stored)
qed

subsection \<open>Results\<close>


lemma fresh_messages:
  "ks_messages (fresh_store pid sae) = replicate MAX_QKD_MESSAGE_KEYS zero_message" "qm_state zero_message = 0" "message_ok zero_message"
  by (simp_all only: fresh_store_def zero_store_def zero_message_def message_ok_def key_store.simps
      qkd_message_entry.simps length_replicate simp_thms)


lemma claim_reaches:
  assumes "messages_ok s" "valid_id MAX_SAE_ID_LEN sender" "valid_id MAX_KEY_ID_LEN kid"
    and "\<forall>e \<in> set (ks_messages s). \<not> pending_for sender kid e"
    and "claim_message_key alive me sender kid s = Some (r, s1)"
  obtains t where "messages_ok t" "\<forall>e \<in> set (ks_messages t). \<not> pending_for sender kid e"
    "claim_pass alive me sender kid t = Done r s1"
proof -
  let ?I = "\<lambda>u. messages_ok u \<and> (\<forall>e \<in> set (ks_messages u). \<not> pending_for sender kid e)"
  have "\<exists>t. ?I t \<and> claim_pass alive me sender kid t = Done r s1"
  proof (rule claim_scan_reaches)
    show "claim_scan alive me sender kid s = Some (r, s1)" using assms(5) by (simp only: claim_message_key_valid [OF assms(2,3)])
    show "?I s" using assms(1,4) by blast
    show "?I t'" if "?I t" "claim_pass alive me sender kid t = Again t'" for t t'
      using pass_keeps [OF _ _ that(2), of sender kid] that(1) by blast
  qed
  then show thesis using that by blast
qed

text \<open>What a successful claim leaves: one pending entry for the key, which every scan finds.\<close>

lemma claimed_slot:
  assumes "messages_ok s" "valid_id MAX_SAE_ID_LEN sender" "valid_id MAX_KEY_ID_LEN kid" "str_ok sender" "str_ok kid"
    and "\<forall>e \<in> set (ks_messages s). \<not> pending_for sender kid e"
    and "claim_message_key alive me sender kid s = Some (Ok Claimed, s1)"
  obtains i where "i < length (ks_messages s1)" "qm_state (ks_messages s1 ! i) = MESSAGE_ENTRY_PENDING"
    "qm_writer_pid (ks_messages s1 ! i) = me" "message_entry_matches sender kid (ks_messages s1 ! i)"
    "message_ok (ks_messages s1 ! i)"
    "\<And>j. j < length (ks_messages s1) \<Longrightarrow> j \<noteq> i \<Longrightarrow> \<not> pending_for sender kid (ks_messages s1 ! j)"
    "\<And>y. message_entry_matches sender kid y \<Longrightarrow> qm_state y = MESSAGE_ENTRY_PENDING \<or> qm_state y = MESSAGE_ENTRY_READY \<Longrightarrow>
       scan_messages ((ks_messages s1)[i := y]) sender kid (probe_order (length (ks_messages s1)) sender kid) None = AtMatch i"
    "\<And>y. qm_state y = MESSAGE_ENTRY_EMPTY \<Longrightarrow>
       scan_messages ((ks_messages s1)[i := y]) sender kid (probe_order (length (ks_messages s1)) sender kid) None = AtEmpty i"
proof -
  obtain t where t: "messages_ok t" "\<forall>e \<in> set (ks_messages t). \<not> pending_for sender kid e"
    "claim_pass alive me sender kid t = Done (Ok Claimed) s1"
    using claim_reaches [OF assms(1-3,6,7)] by blast
  let ?es = "ks_messages t"
  obtain i pre post where idx: "probe_order (length ?es) sender kid = pre @ i # post"
    and pre: "\<forall>j \<in> set pre. skipped sender kid (?es ! j)" and s1: "s1 = initialize_message_entry me sender kid i t"
    using claim_pass_Claimed [OF t(3)] by blast
  have i: "i < length ?es" using probe_order_bound [of i "length ?es" sender kid] idx by simp
  have notin: "i \<notin> set pre" using probe_order_distinct [of "length ?es" sender kid] idx by simp
  define e where "e = initialized me sender kid (qh_generation (ks_header t) + 1) (?es ! i)"
  have ok: "message_ok (?es ! i)" using t(1) i by (simp add: messages_ok_def list_all_length)
  note e = initialized_matches [OF ok assms(2-5), of me "qh_generation (ks_header t) + 1", folded e_def]
  have e_fields: "qm_state e = MESSAGE_ENTRY_PENDING" "qm_writer_pid e = me" by (simp_all add: e_def initialized_def)
  have es1: "ks_messages s1 = ?es[i := e]" by (simp add: s1 e_def)
  show thesis
  proof (rule that [of i])
    show "scan_messages ((ks_messages s1)[i := y]) sender kid (probe_order (length (ks_messages s1)) sender kid) None = AtMatch i"
      if "message_entry_matches sender kid y" "qm_state y = MESSAGE_ENTRY_PENDING \<or> qm_state y = MESSAGE_ENTRY_READY" for y
      unfolding es1 list_update_overwrite length_list_update idx
    proof (rule scan_hit)
      show "\<forall>j \<in> set pre. skipped sender kid (?es[i := y] ! j)" using pre notin by (metis nth_list_update_neq)
    qed (use i that in simp_all)
    show "scan_messages ((ks_messages s1)[i := y]) sender kid (probe_order (length (ks_messages s1)) sender kid) None = AtEmpty i"
      if "qm_state y = MESSAGE_ENTRY_EMPTY" for y
      unfolding es1 list_update_overwrite length_list_update idx
    proof (rule scan_empty)
      show "\<forall>j \<in> set pre. skipped sender kid (?es[i := y] ! j)" using pre notin by (metis nth_list_update_neq)
    qed (use i that in simp_all)
    show "\<not> pending_for sender kid (ks_messages s1 ! j)" if "j < length (ks_messages s1)" "j \<noteq> i" for j
      using t(2) that by (simp add: es1)
  qed (use i e e_fields in \<open>simp_all add: es1\<close>)
qed

text \<open>While the claimant is at work the others wait; once it has published the key, they get that key.\<close>

lemma claimed_then_published:
  assumes "messages_ok s" "valid_id MAX_SAE_ID_LEN sender" "valid_id MAX_KEY_ID_LEN kid" "str_ok sender" "str_ok kid"
    and "\<forall>e \<in> set (ks_messages s). \<not> pending_for sender kid e"
    and "claim_message_key alive me sender kid s = Some (Ok Claimed, s1)" "length k = QKD_KEY_BYTES"
  shows "(me \<noteq> 0 \<and> alive' me \<longrightarrow> claim_message_key alive' p sender kid s1 = Some (Ok Awaiting, s1)) \<and>
    (\<exists>s2. publish_message_key sender \<lparr> key_id = kid, key = k \<rparr> s1 = (Ok (), s2) \<and>
       claim_message_key alive' p sender kid s2 = Some (Ok (Ready \<lparr> key_id = kid, key = k \<rparr>), s2))"
proof -
  obtain i where i: "i < length (ks_messages s1)" and e: "qm_state (ks_messages s1 ! i) = MESSAGE_ENTRY_PENDING"
    "qm_writer_pid (ks_messages s1 ! i) = me" "message_entry_matches sender kid (ks_messages s1 ! i)"
    "message_ok (ks_messages s1 ! i)"
    and only: "\<And>j. j < length (ks_messages s1) \<Longrightarrow> j \<noteq> i \<Longrightarrow> \<not> pending_for sender kid (ks_messages s1 ! j)"
    and scan: "\<And>y. message_entry_matches sender kid y \<Longrightarrow> qm_state y = MESSAGE_ENTRY_PENDING \<or> qm_state y = MESSAGE_ENTRY_READY \<Longrightarrow>
       scan_messages ((ks_messages s1)[i := y]) sender kid (probe_order (length (ks_messages s1)) sender kid) None = AtMatch i"
    and "\<And>y. qm_state y = MESSAGE_ENTRY_EMPTY \<Longrightarrow>
       scan_messages ((ks_messages s1)[i := y]) sender kid (probe_order (length (ks_messages s1)) sender kid) None = AtEmpty i"
    by (rule claimed_slot [OF assms(1-7)]) blast
  let ?e = "ks_messages s1 ! i"
  have claim: "claim_message_key alive' p sender kid u = Some (r, u)" if "claim_pass alive' p sender kid u = Done r u" for u r
    using claim_scan_Done [OF that] by (simp only: claim_message_key_valid [OF assms(2,3)])
  have "claim_pass alive' p sender kid s1 = Done (Ok Awaiting) s1" if "me \<noteq> 0" "alive' me"
    using scan [of ?e] e that by (simp add: claim_pass_def Let_def)
  then have wait: "me \<noteq> 0 \<and> alive' me \<longrightarrow> claim_message_key alive' p sender kid s1 = Some (Ok Awaiting, s1)"
    using claim by blast
  define y where "y = ?e\<lparr> qm_key := store_atomic_bytes (qm_key ?e) k, qm_state := MESSAGE_ENTRY_READY \<rparr>"
  let ?s2 = "set_message i y s1"
  have "find_message_entry sender kid MESSAGE_ENTRY_PENDING s1 = Some i"
    unfolding find_message_entry_def by (rule position_unique) (use i e only in simp_all)
  then have pub: "publish_message_key sender \<lparr> key_id = kid, key = k \<rparr> s1 = (Ok (), ?s2)"
    by (simp add: publish_message_key_def y_def Let_def)
  have y: "message_entry_matches sender kid y" "qm_state y = MESSAGE_ENTRY_READY"
    using e(3) by (simp_all add: y_def message_entry_matches_def)
  have "copy_message_key y = Some \<lparr> key_id = kid, key = k \<rparr>"
    using y e(4) assms(8)
    by (simp add: copy_message_key_def message_entry_matches_def message_ok_def y_def store_atomic_same load_atomic_same)
  with y scan [OF y(1)] i have "claim_pass alive' p sender kid ?s2 = Done (Ok (Ready \<lparr> key_id = kid, key = k \<rparr>)) ?s2"
    by (simp add: claim_pass_def Let_def)
  with wait pub claim show ?thesis by blast
qed

text \<open>A claim that is given up can be made again by anybody.\<close>

lemma claimed_then_abandoned:
  assumes "messages_ok s" "valid_id MAX_SAE_ID_LEN sender" "valid_id MAX_KEY_ID_LEN kid" "str_ok sender" "str_ok kid"
    and "\<forall>e \<in> set (ks_messages s). \<not> pending_for sender kid e"
    and "claim_message_key alive me sender kid s = Some (Ok Claimed, s1)"
  shows "\<exists>s3. claim_message_key alive' p sender kid (abandon_message_key sender kid s1) = Some (Ok Claimed, s3)"
proof -
  obtain i where i: "i < length (ks_messages s1)" and e: "qm_state (ks_messages s1 ! i) = MESSAGE_ENTRY_PENDING"
    "qm_writer_pid (ks_messages s1 ! i) = me" "message_entry_matches sender kid (ks_messages s1 ! i)"
    "message_ok (ks_messages s1 ! i)"
    and only: "\<And>j. j < length (ks_messages s1) \<Longrightarrow> j \<noteq> i \<Longrightarrow> \<not> pending_for sender kid (ks_messages s1 ! j)"
    and "\<And>y. message_entry_matches sender kid y \<Longrightarrow> qm_state y = MESSAGE_ENTRY_PENDING \<or> qm_state y = MESSAGE_ENTRY_READY \<Longrightarrow>
       scan_messages ((ks_messages s1)[i := y]) sender kid (probe_order (length (ks_messages s1)) sender kid) None = AtMatch i"
    and scan: "\<And>y. qm_state y = MESSAGE_ENTRY_EMPTY \<Longrightarrow>
       scan_messages ((ks_messages s1)[i := y]) sender kid (probe_order (length (ks_messages s1)) sender kid) None = AtEmpty i"
    by (rule claimed_slot [OF assms]) blast
  have "find_message_entry sender kid MESSAGE_ENTRY_PENDING s1 = Some i"
    unfolding find_message_entry_def by (rule position_unique) (use i e only in simp_all)
  then have "claim_pass alive' p sender kid (abandon_message_key sender kid s1) =
      Done (Ok Claimed) (initialize_message_entry p sender kid i (abandon_message_key sender kid s1))"
    using scan by (simp add: abandon_message_key_def claim_pass_def Let_def)
  from claim_scan_Done [OF this] show ?thesis by (simp add: claim_message_key_valid [OF assms(2,3)])
qed


abbreviation start_slot :: "nat \<Rightarrow> string \<Rightarrow> string \<Rightarrow> nat" where
  "start_slot n sender kid \<equiv> unat (message_key_hash sender kid) mod n"

lemma probe_order_first:
  "2 \<le> n \<Longrightarrow> \<exists>rest. probe_order n sender kid = start_slot n sender kid # (start_slot n sender kid + 1) mod n # rest"
  by (simp add: probe_order_def upt_conv_Cons)

lemma claim_first_empty:
  assumes "valid_id MAX_SAE_ID_LEN sender" "valid_id MAX_KEY_ID_LEN kid"
    "probe_order (length (ks_messages s)) sender kid = pre @ i # post"
    "\<forall>j \<in> set pre. skipped sender kid (ks_messages s ! j)" "qm_state (ks_messages s ! i) = MESSAGE_ENTRY_EMPTY"
  shows "claim_message_key alive me sender kid s = Some (Ok Claimed, initialize_message_entry me sender kid i s)"
  unfolding claim_message_key_valid [OF assms(1,2)]
  by (rule claim_scan_Done) (simp add: claim_pass_def Let_def assms(3) scan_empty [OF assms(4,5)])

lemma claim_at_start:
  assumes "valid_id MAX_SAE_ID_LEN sender" "valid_id MAX_KEY_ID_LEN kid" "2 \<le> length (ks_messages s)"
    "qm_state (ks_messages s ! start_slot (length (ks_messages s)) sender kid) = MESSAGE_ENTRY_EMPTY"
  shows "claim_message_key alive me sender kid s =
    Some (Ok Claimed, initialize_message_entry me sender kid (start_slot (length (ks_messages s)) sender kid) s)"
  using probe_order_first [OF assms(3), of sender kid] claim_first_empty [OF assms(1,2) _ _ assms(4), of "[]"] by auto

lemma fresh_messages_ok: "messages_ok (fresh_store pid sae)" "length (ks_messages (fresh_store pid sae)) = MAX_QKD_MESSAGE_KEYS"
    "i < MAX_QKD_MESSAGE_KEYS \<Longrightarrow> qm_state (ks_messages (fresh_store pid sae) ! i) = 0"
    "\<forall>e \<in> set (ks_messages (fresh_store pid sae)). qm_state e = 0"
  unfolding messages_ok_def fresh_messages(1) list_all_iff length_replicate
  by (simp_all only: nth_replicate fresh_messages(2) set_replicate_conv_if, use fresh_messages in \<open>auto split: if_splits\<close>)


text \<open>C28: An abandoned claim lets a key be claimed twice.  When two keys start at the same slot and the claim in front
  is abandoned (the key manager refused it, or the message failed its check), the scan for the second key stops at the freed
  slot and the key is claimed a second time although its claimant is alive and still fetching it.\<close>

theorem abandoned_slot_duplicates_claim:
  assumes "messages_ok s" "2 \<le> length (ks_messages s)" "\<forall>e \<in> set (ks_messages s). qm_state e = MESSAGE_ENTRY_EMPTY"
    and a: "valid_id MAX_SAE_ID_LEN sa" "valid_id MAX_KEY_ID_LEN ka" "str_ok sa" "str_ok ka"
    and b: "valid_id MAX_SAE_ID_LEN sb" "valid_id MAX_KEY_ID_LEN kb" "str_ok sb" "str_ok kb"
    and "start_slot (length (ks_messages s)) sa ka = start_slot (length (ks_messages s)) sb kb" "(sa, ka) \<noteq> (sb, kb)"
  shows "\<exists>s1 s2 s3. claim_message_key alive p sa ka s = Some (Ok Claimed, s1) \<and>
    claim_message_key alive q sb kb s1 = Some (Ok Claimed, s2) \<and>
    claim_message_key alive r sb kb (abandon_message_key sa ka s2) = Some (Ok Claimed, s3)"
proof -
  let ?n = "length (ks_messages s)"
  let ?h = "start_slot ?n sa ka" and ?h' = "(start_slot ?n sa ka + 1) mod length (ks_messages s)"
  have n: "0 < ?n" using assms(2) by linarith
  have hh: "?h < ?n" "?h' < ?n" using n by simp_all
  have neq: "?h \<noteq> ?h'" using assms(2) hh(1) by (cases "?h + 1 = ?n") (simp_all add: mod_eq_self_iff_div_eq_0)
  have empty: "qm_state (ks_messages s ! j) = MESSAGE_ENTRY_EMPTY" "message_ok (ks_messages s ! j)" if "j < ?n" for j
    using assms(1,3) that by (simp_all add: messages_ok_def list_all_length)
  define s1 where "s1 = initialize_message_entry p sa ka ?h s"
  have one: "claim_message_key alive p sa ka s = Some (Ok Claimed, s1)"
    unfolding s1_def by (rule claim_at_start [OF a(1,2) assms(2)]) (rule empty(1) [OF hh(1)])
  define ea where "ea = initialized p sa ka (qh_generation (ks_header s) + 1) (ks_messages s ! ?h)"
  have ms1: "ks_messages s1 = (ks_messages s)[?h := ea]" by (simp add: s1_def ea_def)
  note ma = initialized_matches(1) [OF empty(2) [OF hh(1)] a, of p "qh_generation (ks_header s) + 1", folded ea_def]
  have ea: "qm_state ea = MESSAGE_ENTRY_PENDING" by (simp add: ea_def initialized_def)
  have skip: "skipped sb kb ea" using ma ea assms(13) by (auto simp: skipped_def message_entry_matches_def)
  obtain rest where rest: "probe_order ?n sb kb = ?h # ?h' # rest"
    using probe_order_first [OF assms(2), of sb kb] assms(12) by auto
  define s2 where "s2 = initialize_message_entry q sb kb ?h' s1"
  have two: "claim_message_key alive q sb kb s1 = Some (Ok Claimed, s2)"
    unfolding s2_def
    by (rule claim_first_empty [OF b(1,2), of _ "[?h]" _ rest])
      (use rest skip hh neq empty(1) in \<open>simp_all add: ms1\<close>)
  have ms2: "ks_messages s2 = (ks_messages s)[?h := ea, ?h' := initialized q sb kb (qh_generation (ks_header s1) + 1) (ks_messages s ! ?h')]"
    using neq by (simp add: s2_def ms1)
  have pos: "find_message_entry sa ka MESSAGE_ENTRY_PENDING s2 = Some ?h"
    unfolding find_message_entry_def
  proof (rule position_unique)
    show "\<not> pending_for sa ka (ks_messages s2 ! j)" if "j < length (ks_messages s2)" "j \<noteq> ?h" for j
      using that empty(1) [of j] initialized_matches(1) [OF empty(2) [OF hh(2)] b, of q "qh_generation (ks_header s1) + 1"] assms(13) hh
      by (cases "j = ?h'") (auto simp: ms2 message_entry_matches_def)
  qed (use hh neq ma ea in \<open>simp_all add: ms2\<close>)
  let ?s = "abandon_message_key sa ka s2"
  have ms3: "length (ks_messages ?s) = ?n" "qm_state (ks_messages ?s ! ?h) = MESSAGE_ENTRY_EMPTY"
    using pos hh by (simp_all add: abandon_message_key_def ms2)
  have "claim_message_key alive r sb kb ?s = Some (Ok Claimed, initialize_message_entry r sb kb ?h ?s)"
    using claim_at_start [OF b(1,2), of ?s alive r] assms(2,12) ms3 by simp
  with one two show ?thesis by blast
qed

theorem abandoned_slot_duplicates_claim_witness:
  "\<exists>s1 s2 s3. claim_message_key (\<lambda>_. True) 5 ''s'' ''b8'' (fresh_store 1 ''sae-1'') = Some (Ok Claimed, s1) \<and>
    claim_message_key (\<lambda>_. True) 6 ''s'' ''qa'' s1 = Some (Ok Claimed, s2) \<and>
    claim_message_key (\<lambda>_. True) 7 ''s'' ''qa'' (abandon_message_key ''s'' ''b8'' s2) = Some (Ok Claimed, s3)"
proof (rule abandoned_slot_duplicates_claim)
  show "start_slot (length (ks_messages (fresh_store 1 ''sae-1''))) ''s'' ''b8'' =
      start_slot (length (ks_messages (fresh_store 1 ''sae-1''))) ''s'' ''qa''"
    unfolding fresh_messages_ok(2) by (simp add: message_key_hash_def as_bytes_def)
qed (simp_all add: fresh_messages_ok valid_id_def is_ascii_control_def str_ok_def as_bytes_def)

end
