(* ===== verification/Qkd_Sessions.thy ===== *)
theory Qkd_Sessions
  imports Qkd_Message_Keys
begin

text \<open>
  How two daemons come to share a session key: the control messages and \<open>QkdDaemonManager\<close>
  (\<^verbatim>\<open>qkd.rs\<close>), and the daemon's handling of them (\<^verbatim>\<open>bin/axon_daemon.rs\<close>).

  The key manager is the \<open>kme\<close> argument of \<open>Qkd_Config\<close>, with its state threaded through.  The text of an error, which
  travels in an error message, is the argument \<open>render\<close>.
\<close>

subsection \<open>Lossy decoding of text\<close>

text \<open>\<open>String::from_utf8_lossy\<close> cuts the input into valid characters and maximal ill-formed pieces: \<open>(True, n)\<close> is a
  character of \<open>n\<close> bytes, \<open>(False, n)\<close> a piece that becomes U+FFFD.\<close>

definition third_ok :: "byte \<Rightarrow> byte \<Rightarrow> bool" where
  "third_ok a b = (if a = 0xE0 then 0xA0 \<le> b \<and> b \<le> 0xBF else if a = 0xED then 0x80 \<le> b \<and> b \<le> 0x9F else utf8_cont b)"

definition fourth_ok :: "byte \<Rightarrow> byte \<Rightarrow> bool" where
  "fourth_ok a b = (if a = 0xF0 then 0x90 \<le> b \<and> b \<le> 0xBF else if a = 0xF4 then 0x80 \<le> b \<and> b \<le> 0x8F else utf8_cont b)"

definition utf8_piece :: "bytes \<Rightarrow> bool \<times> nat" where
  "utf8_piece bs =
     (let get = (\<lambda>i. if i < length bs then bs ! i else 0); a = get 0 in
      if a < 0x80 then (True, 1)
      else if 0xC2 \<le> a \<and> a \<le> 0xDF then (if utf8_cont (get 1) then (True, 2) else (False, 1))
      else if 0xE0 \<le> a \<and> a \<le> 0xEF then
        (if \<not> third_ok a (get 1) then (False, 1) else if \<not> utf8_cont (get 2) then (False, 2) else (True, 3))
      else if 0xF0 \<le> a \<and> a \<le> 0xF4 then
        (if \<not> fourth_ok a (get 1) then (False, 1) else if \<not> utf8_cont (get 2) then (False, 2)
         else if \<not> utf8_cont (get 3) then (False, 3) else (True, 4))
      else (False, 1))"

lemma utf8_piece_pos: "0 < snd (utf8_piece bs)"
  by (simp add: utf8_piece_def Let_def)

function from_utf8_lossy :: "bytes \<Rightarrow> bytes" where
  "from_utf8_lossy bs =
     (if bs = [] then []
      else
        (let (valid, n) = utf8_piece bs in
         (if valid then take n bs else [0xEF, 0xBF, 0xBD]) @ from_utf8_lossy (drop n bs)))"
  by pat_completeness auto
termination
  by (relation "measure length") (use utf8_piece_pos in \<open>auto simp: prod_eq_iff\<close>)

declare from_utf8_lossy.simps [simp del]

subsection \<open>Control messages\<close>

abbreviation (input) MSG_QKD_KEY_ANNOUNCE :: u8 where "MSG_QKD_KEY_ANNOUNCE \<equiv> 0x51"
abbreviation (input) MSG_QKD_KEY_ACK :: u8 where "MSG_QKD_KEY_ACK \<equiv> 0x52"
abbreviation (input) MSG_QKD_KEY_ERROR :: u8 where "MSG_QKD_KEY_ERROR \<equiv> 0x53"

record qkd_key_announcement =
  qa_daemon_id :: u64
  qa_sae_id :: string
  qa_key_id :: string

definition encode_key_announcement :: "qkd_key_announcement \<Rightarrow> (bytes, qkd_error) rust_result" where
  "encode_key_announcement a =
     bind_ok (validate_identifier ''QKD SAE ID'' (qa_sae_id a) MAX_SAE_ID_LEN) (\<lambda>_.
     bind_ok (validate_identifier ''QKD key_ID'' (qa_key_id a) MAX_KEY_ID_LEN) (\<lambda>_.
     Ok ([MSG_QKD_KEY_ANNOUNCE] @ u64_to_be (qa_daemon_id a) @ u16_to_be (of_nat (length (qa_sae_id a))) @
         u16_to_be (of_nat (length (qa_key_id a))) @ as_bytes (qa_sae_id a) @ as_bytes (qa_key_id a))))"

definition decode_key_announcement :: "bytes \<Rightarrow> (qkd_key_announcement, string) rust_result" where
  "decode_key_announcement data =
     (if length data < 13 \<or> data ! 0 \<noteq> MSG_QKD_KEY_ANNOUNCE then Err ''invalid QKD key announcement''
      else
        (let daemon_id = from_be (take 8 (drop 1 data));
             sae_len = unat (from_be [data ! 9, data ! 10] :: u16);
             key_len = unat (from_be [data ! 11, data ! 12] :: u16) in
         if sae_len = 0 \<or> MAX_SAE_ID_LEN \<le> sae_len \<or> key_len = 0 \<or> MAX_KEY_ID_LEN \<le> key_len \<or>
            length data \<noteq> 13 + sae_len + key_len
         then Err ''invalid QKD key announcement lengths''
         else
           (case from_utf8 (take sae_len (drop 13 data)) of
              None \<Rightarrow> Err ''QKD SAE ID is not UTF-8''
            | Some sae \<Rightarrow>
                (case from_utf8 (drop (13 + sae_len) data) of
                   None \<Rightarrow> Err ''QKD key_ID is not UTF-8''
                 | Some kid \<Rightarrow> Ok \<lparr> qa_daemon_id = daemon_id, qa_sae_id = sae, qa_key_id = kid \<rparr>))))"

definition encode_key_ack :: "string \<Rightarrow> (bytes, qkd_error) rust_result" where
  "encode_key_ack kid =
     bind_ok (validate_identifier ''QKD key_ID'' kid MAX_KEY_ID_LEN) (\<lambda>_.
     Ok ([MSG_QKD_KEY_ACK] @ u16_to_be (of_nat (length kid)) @ as_bytes kid))"

definition encode_key_error :: "string \<Rightarrow> bytes" where
  "encode_key_error message =
     (let bs = as_bytes message; len = min (length bs) 1024 in
      [MSG_QKD_KEY_ERROR] @ u16_to_be (of_nat len) @ take len bs)"

definition decode_key_error :: "bytes \<Rightarrow> string option" where
  "decode_key_error data =
     (if length data < 3 \<or> data ! 0 \<noteq> MSG_QKD_KEY_ERROR then None
      else
        (let len = unat (from_be [data ! 1, data ! 2] :: u16) in
         if length data \<noteq> 3 + len then Some ''malformed QKD peer error''
         else Some (''remote QKD setup failed: '' @ string_of_bytes (from_utf8_lossy (drop 3 data)))))"

definition decode_key_ack :: "bytes \<Rightarrow> (string, string) rust_result" where
  "decode_key_ack data =
     (if length data < 3 \<or> data ! 0 \<noteq> MSG_QKD_KEY_ACK
      then Err (case decode_key_error data of Some e \<Rightarrow> e | None \<Rightarrow> ''invalid QKD key ACK'')
      else
        (let len = unat (from_be [data ! 1, data ! 2] :: u16) in
         if len = 0 \<or> MAX_KEY_ID_LEN \<le> len \<or> length data \<noteq> 3 + len then Err ''invalid QKD key ACK length''
         else (case from_utf8 (drop 3 data) of Some kid \<Rightarrow> Ok kid | None \<Rightarrow> Err ''QKD ACK key_ID is not UTF-8'')))"

subsection \<open>The manager\<close>

text \<open>\<open>from_env\<close>, once the settings and the client are there: a readable table is reset, any other
  is replaced.\<close>

datatype manager_error = ResetFailed qkd_error | CreateFailed qkd_io_error

definition manager_store ::
  "qkd_io_error option \<Rightarrow> bool \<Rightarrow> bool \<Rightarrow> qkd_io_error option \<Rightarrow> qkd_io_error option \<Rightarrow> bool \<Rightarrow> bool \<Rightarrow> nat \<Rightarrow> u32 \<Rightarrow>
   string \<Rightarrow> string \<Rightarrow> qkd_files \<Rightarrow> (key_store, manager_error) rust_result \<times> qkd_files" where
  "manager_store open_refused fstat_ok mmap_ok unlink_refused create_refused ftruncate_ok create_mmap_ok uid pid name sae w =
     (let create = (\<lambda>w. case store_create create_refused ftruncate_ok create_mmap_ok uid pid name sae w of
                          (Ok s, w') \<Rightarrow> (Ok s, w')
                        | (Err e, w') \<Rightarrow> (Err (CreateFailed e), w')) in
      case store_open open_refused fstat_ok mmap_ok uid name w of
        Ok s \<Rightarrow>
          (case store_reset pid sae s of
             (Ok _, s') \<Rightarrow> (Ok s', write_back name s' w)
           | (Err e, s') \<Rightarrow> (Err (ResetFailed e), w))
      | Err IoNotFound \<Rightarrow> create w
      | Err _ \<Rightarrow> create (snd (store_destroy unlink_refused name w)))"

definition prepare_outbound ::
  "('u, 'k) kme \<Rightarrow> 'u etsi_client \<Rightarrow> u64 \<Rightarrow> string \<Rightarrow> 'k \<times> key_store \<Rightarrow>
   (qkd_session_key, qkd_error) rust_result \<times> 'k \<times> key_store" where
  "prepare_outbound api c d sae st =
     (let (k, s) = st;
          fetch =
            (case get_encryption_key api c sae k of
               (Err e, k') \<Rightarrow> (Err e, k', s)
             | (Ok m, k') \<Rightarrow>
                 (case store_put d sae m False s of
                    (Err e, s') \<Rightarrow> (Err e, k', s')
                  | (Ok _, s') \<Rightarrow>
                      (case find_for_daemon d False s' of Some x \<Rightarrow> Ok x | None \<Rightarrow> Err KeyDisappeared, k', s'))) in
      case find_for_daemon d False s of
        Some existing \<Rightarrow> if sk_remote_sae_id existing = sae then (Ok existing, k, s) else fetch
      | None \<Rightarrow> fetch)"

definition activate_outbound_by_key_id :: "string \<Rightarrow> key_store \<Rightarrow> u64 option \<times> key_store" where
  "activate_outbound_by_key_id kid s =
     (case find_by_key_id_for_tls kid s of
        None \<Rightarrow> (None, s)
      | Some session \<Rightarrow>
          if sk_active session then (Some (sk_remote_daemon_id session), s)
          else
            (case store_activate (sk_remote_daemon_id session) kid s of
               (True, s') \<Rightarrow> (Some (sk_remote_daemon_id session), s')
             | (False, s') \<Rightarrow> (None, s')))"

definition has_active_session :: "u64 \<Rightarrow> key_store \<Rightarrow> bool" where
  "has_active_session d s \<longleftrightarrow> find_for_daemon d True s \<noteq> None"

definition accept_inbound ::
  "('u, 'k) kme \<Rightarrow> 'u etsi_client \<Rightarrow> u64 \<Rightarrow> string \<Rightarrow> string \<Rightarrow> 'k \<times> key_store \<Rightarrow>
   (unit, qkd_error) rust_result \<times> 'k \<times> key_store" where
  "accept_inbound api c d sae kid st =
     (let (k, s) = st;
          fetch = (\<lambda>s. case get_decryption_key api c sae kid k of
               (Err e, k') \<Rightarrow> (Err e, k', s)
             | (Ok m, k') \<Rightarrow> (case store_put d sae m True s of (r, s') \<Rightarrow> (r, k', s'))) in
      case find_for_daemon d False s of
        Some existing \<Rightarrow>
          if sk_remote_sae_id existing = sae \<and> sk_key_id existing = kid then
            (if sk_active existing then (Ok (), k, s)
             else (case store_activate d kid s of (True, s') \<Rightarrow> (Ok (), k, s') | (False, s') \<Rightarrow> fetch s'))
          else fetch s
      | None \<Rightarrow> fetch s)"

definition manager_remove_session :: "u64 \<Rightarrow> key_store \<Rightarrow> key_store" where
  "manager_remove_session d s = store_remove d s"

definition manager_clear_sessions :: "key_store \<Rightarrow> key_store" where
  "manager_clear_sessions s = store_clear s"

subsection \<open>The daemon\<close>

text \<open>The branch of the synchronisation thread that starts a key exchange: the daemon with the smaller identity
  announces a key.  \<open>None\<close> is sending nothing.\<close>

definition start_exchange ::
  "('u, 'k) kme \<Rightarrow> 'u etsi_client \<Rightarrow> u64 \<Rightarrow> string \<Rightarrow> u64 \<Rightarrow> string option \<Rightarrow> 'k \<times> key_store \<Rightarrow>
   bytes option \<times> 'k \<times> key_store" where
  "start_exchange api c local local_sae remote remote_sae st =
     (if has_active_session remote (snd st) \<or> \<not> local < remote then (None, st)
      else
        (case remote_sae of
           None \<Rightarrow> (None, st)
         | Some sae \<Rightarrow>
             (case prepare_outbound api c remote sae st of
                (Err _, st') \<Rightarrow> (None, st')
              | (Ok session, st') \<Rightarrow>
                  (case encode_key_announcement \<lparr> qa_daemon_id = local, qa_sae_id = local_sae, qa_key_id = sk_key_id session \<rparr> of
                     Ok wire \<Rightarrow> (Some wire, st')
                   | Err _ \<Rightarrow> (None, st')))))"

text \<open>One control datagram: what is sent back, and which peer is forgotten so that its graph is fetched anew.\<close>

definition on_qkd_control ::
  "('u, 'k) kme \<Rightarrow> (qkd_error \<Rightarrow> string) \<Rightarrow> 'u etsi_client \<Rightarrow> string \<Rightarrow> bytes \<Rightarrow> 'k \<times> key_store \<Rightarrow>
   bytes option \<times> u64 option \<times> 'k \<times> key_store" where
  "on_qkd_control api render c local_sae data st =
     (if data = [] then (None, None, st)
      else if data ! 0 = MSG_QKD_KEY_ANNOUNCE then
        (case decode_key_announcement data of
           Err e \<Rightarrow> (Some (encode_key_error e), None, st)
         | Ok a \<Rightarrow>
             if qa_sae_id a = local_sae then (None, None, st)
             else
               (case accept_inbound api c (qa_daemon_id a) (qa_sae_id a) (qa_key_id a) st of
                  (Err e, st') \<Rightarrow> (Some (encode_key_error (render e)), None, st')
                | (Ok _, st') \<Rightarrow>
                    (Some (case encode_key_ack (qa_key_id a) of Ok w \<Rightarrow> w | Err e \<Rightarrow> encode_key_error (render e)),
                     Some (qa_daemon_id a), st')))
      else if data ! 0 = MSG_QKD_KEY_ACK then
        (case decode_key_ack data of
           Err _ \<Rightarrow> (None, None, st)
         | Ok kid \<Rightarrow>
             (case activate_outbound_by_key_id kid (snd st) of
                (Some d, s') \<Rightarrow> (None, Some d, fst st, s')
              | (None, s') \<Rightarrow> (None, None, fst st, s')))
      else (None, None, st))"

subsection \<open>Round trips\<close>

lemma utf8_valid_eqs:
  "a < 0x80 \<Longrightarrow> utf8_valid (a # r) = utf8_valid r"
  "\<not> a < 0x80 \<Longrightarrow> 0xC2 \<le> a \<and> a \<le> 0xDF \<Longrightarrow>
   utf8_valid (a # r) = (case r of b # r' \<Rightarrow> utf8_cont b \<and> utf8_valid r' | _ \<Rightarrow> False)"
  "\<not> a < 0x80 \<Longrightarrow> \<not> (0xC2 \<le> a \<and> a \<le> 0xDF) \<Longrightarrow> 0xE0 \<le> a \<and> a \<le> 0xEF \<Longrightarrow>
   utf8_valid (a # r) = (case r of b # c # r' \<Rightarrow> third_ok a b \<and> utf8_cont c \<and> utf8_valid r' | _ \<Rightarrow> False)"
  "\<not> a < 0x80 \<Longrightarrow> \<not> (0xC2 \<le> a \<and> a \<le> 0xDF) \<Longrightarrow> \<not> (0xE0 \<le> a \<and> a \<le> 0xEF) \<Longrightarrow>
   utf8_valid (a # r) = (if 0xF0 \<le> a \<and> a \<le> 0xF4 then
     (case r of b # c # d # r' \<Rightarrow> fourth_ok a b \<and> utf8_cont c \<and> utf8_cont d \<and> utf8_valid r' | _ \<Rightarrow> False) else False)"
  unfolding third_ok_def fourth_ok_def utf8_valid.simps(2) [of a r] by (simp_all only: if_True if_False simp_thms conj_assoc)

lemma utf8_piece_valid:
  assumes "utf8_valid (a # r)"
  shows "\<exists>n. utf8_piece (a # r) = (True, Suc n) \<and> utf8_valid (drop n r)"
proof -
  consider "a < 0x80" | "\<not> a < 0x80" "0xC2 \<le> a \<and> a \<le> 0xDF"
    | "\<not> a < 0x80" "\<not> (0xC2 \<le> a \<and> a \<le> 0xDF)" "0xE0 \<le> a \<and> a \<le> 0xEF"
    | "\<not> a < 0x80" "\<not> (0xC2 \<le> a \<and> a \<le> 0xDF)" "\<not> (0xE0 \<le> a \<and> a \<le> 0xEF)" by blast
  then show ?thesis
  proof cases
    case 1
    with assms show ?thesis by (simp only: utf8_valid_eqs) (simp add: utf8_piece_def)
  next
    case 2
    with assms obtain b r' where "r = b # r'" "utf8_cont b" "utf8_valid r'"
      unfolding utf8_valid_eqs(2) [OF 2] by (cases r) auto
    with 2 show ?thesis by (intro exI [of _ 1]) (simp add: utf8_piece_def)
  next
    case 3
    from assms obtain b c r' where "r = b # c # r'" "third_ok a b" "utf8_cont c" "utf8_valid r'"
      unfolding utf8_valid_eqs(3) [OF 3] by (auto split: list.splits)
    with 3 show ?thesis by (intro exI [of _ 2]) (simp add: utf8_piece_def)
  next
    case 4
    from assms obtain b c d r' where "0xF0 \<le> a \<and> a \<le> 0xF4" "r = b # c # d # r'" "fourth_ok a b" "utf8_cont c" "utf8_cont d" "utf8_valid r'"
      unfolding utf8_valid_eqs(4) [OF 4] by (auto split: list.splits if_splits)
    with 4 show ?thesis by (intro exI [of _ 3]) (simp add: utf8_piece_def)
  qed
qed

lemma from_utf8_lossy_valid: "utf8_valid bs \<Longrightarrow> from_utf8_lossy bs = bs"
proof (induction "length bs" arbitrary: bs rule: less_induct)
  case less
  show ?case
  proof (cases bs)
    case (Cons a r)
    with utf8_piece_valid [of a r] less.prems obtain n where n: "utf8_piece (a # r) = (True, Suc n)" "utf8_valid (drop n r)" by blast
    then have "from_utf8_lossy (drop n r) = drop n r" using Cons by (intro less.hyps) simp_all
    with n Cons show ?thesis by (subst from_utf8_lossy.simps) simp
  qed (simp add: from_utf8_lossy.simps)
qed

lemma two_list: "length l = 2 \<Longrightarrow> \<exists>x y. l = [x, y]"
  by (auto simp: numeral_2_eq_2 length_Suc_conv)

lemma u16_to_be_pair: obtains x y where "u16_to_be w = [x, y]" "from_be [x, y] = w"
  using two_list [OF length_int_bytes(5) [of w]] from_be_u16 [of w] that by metis

lemma announcement_decodes:
  assumes "valid_id MAX_SAE_ID_LEN (qa_sae_id a)" "str_ok (qa_sae_id a)" "valid_id MAX_KEY_ID_LEN (qa_key_id a)" "str_ok (qa_key_id a)"
  shows "\<exists>w. encode_key_announcement a = Ok w \<and> decode_key_announcement w = Ok a"
proof -
  obtain x y where xy: "u16_to_be (of_nat (length (qa_sae_id a))) = [x, y]" "from_be [x, y] = (of_nat (length (qa_sae_id a)) :: u16)"
    by (rule u16_to_be_pair)
  obtain u v where uv: "u16_to_be (of_nat (length (qa_key_id a))) = [u, v]" "from_be [u, v] = (of_nat (length (qa_key_id a)) :: u16)"
    by (rule u16_to_be_pair)
  let ?w = "[MSG_QKD_KEY_ANNOUNCE] @ u64_to_be (qa_daemon_id a) @ [x, y] @ [u, v] @ as_bytes (qa_sae_id a) @ as_bytes (qa_key_id a)"
  have enc: "encode_key_announcement a = Ok ?w" using assms by (simp add: encode_key_announcement_def xy uv)
  have bounds: "qa_sae_id a \<noteq> []" "length (qa_sae_id a) < MAX_SAE_ID_LEN" "qa_key_id a \<noteq> []" "length (qa_key_id a) < MAX_KEY_ID_LEN"
    using assms by (simp_all add: valid_id_def)
  have fields: "length ?w = 13 + length (qa_sae_id a) + length (qa_key_id a)" "?w ! 0 = MSG_QKD_KEY_ANNOUNCE"
    "take 8 (drop 1 ?w) = u64_to_be (qa_daemon_id a)" "[?w ! 9, ?w ! 10] = [x, y]" "[?w ! 11, ?w ! 12] = [u, v]"
    "take (length (qa_sae_id a)) (drop 13 ?w) = as_bytes (qa_sae_id a)"
    "drop (13 + length (qa_sae_id a)) ?w = as_bytes (qa_key_id a)"
    by (simp_all add: nth_append nth_Cons' drop_Cons')
  have lens: "unat (of_nat (length (qa_sae_id a)) :: u16) = length (qa_sae_id a)"
    "unat (of_nat (length (qa_key_id a)) :: u16) = length (qa_key_id a)"
    using valid_id_length [OF assms(1)] valid_id_length [OF assms(3)] by simp_all
  have "decode_key_announcement ?w = Ok a"
    unfolding decode_key_announcement_def fields xy(2) uv(2) lens Let_def using bounds assms(2,4) by simp
  with enc show ?thesis by blast
qed

lemma ack_decodes:
  assumes "valid_id MAX_KEY_ID_LEN kid" "str_ok kid"
  shows "\<exists>w. encode_key_ack kid = Ok w \<and> decode_key_ack w = Ok kid \<and> w \<noteq> [] \<and> w ! 0 = MSG_QKD_KEY_ACK"
proof -
  obtain x y where xy: "u16_to_be (of_nat (length kid)) = [x, y]" "from_be [x, y] = (of_nat (length kid) :: u16)"
    by (rule u16_to_be_pair)
  have "kid \<noteq> []" "length kid < MAX_KEY_ID_LEN" using assms(1) by (simp_all add: valid_id_def)
  then have "decode_key_ack ([MSG_QKD_KEY_ACK] @ [x, y] @ as_bytes kid) = Ok kid"
    using assms valid_id_length [OF assms(1)] by (simp add: decode_key_ack_def xy(2) Let_def)
  then show ?thesis using assms(1) by (simp add: encode_key_ack_def xy)
qed

lemma error_decodes:
  assumes "str_ok m" "length m \<le> 1024"
  shows "decode_key_ack (encode_key_error m) = Err (''remote QKD setup failed: '' @ m)"
proof -
  obtain x y where xy: "u16_to_be (of_nat (length m)) = [x, y]" "from_be [x, y] = (of_nat (length m) :: u16)"
    by (rule u16_to_be_pair)
  have "unat (of_nat (length m) :: u16) = length m" using assms(2) by (intro unat_of_nat16) simp
  then show ?thesis
    using assms by (simp add: decode_key_ack_def decode_key_error_def encode_key_error_def xy Let_def
        min_absorb1 from_utf8_lossy_valid str_ok_def)
qed

text \<open>C38: The key-exchange messages arrive as they were sent.  An announcement and an acknowledgement with valid
  identifiers decode to themselves, and an error text of at most 1024 bytes is reported verbatim at the other end
  and never taken for an acknowledgement.\<close>

theorem qkd_messages_round_trip:
  assumes "valid_id MAX_SAE_ID_LEN (qa_sae_id a)" "str_ok (qa_sae_id a)" "valid_id MAX_KEY_ID_LEN (qa_key_id a)"
    "str_ok (qa_key_id a)" "str_ok m" "length m \<le> 1024"
  shows "(\<exists>w. encode_key_announcement a = Ok w \<and> decode_key_announcement w = Ok a) \<and>
    (\<exists>w. encode_key_ack (qa_key_id a) = Ok w \<and> decode_key_ack w = Ok (qa_key_id a)) \<and>
    decode_key_ack (encode_key_error m) = Err (''remote QKD setup failed: '' @ m)"
  using announcement_decodes [OF assms(1-4)] ack_decodes [OF assms(3,4)] error_decodes [OF assms(5,6)] by blast

theorem qkd_messages_round_trip_witness:
  "(\<exists>w. encode_key_announcement \<lparr> qa_daemon_id = 7, qa_sae_id = ''sae-1'', qa_key_id = ''k1'' \<rparr> = Ok w \<and>
      decode_key_announcement w = Ok \<lparr> qa_daemon_id = 7, qa_sae_id = ''sae-1'', qa_key_id = ''k1'' \<rparr>) \<and>
   decode_key_ack (encode_key_error ''no key'') = Err ''remote QKD setup failed: no key''"
  using qkd_messages_round_trip [of "\<lparr> qa_daemon_id = 7, qa_sae_id = ''sae-1'', qa_key_id = ''k1'' \<rparr>" "''no key''"]
  by (simp add: valid_id_def is_ascii_control_def str_ok_def as_bytes_def)

subsection \<open>Sessions in the table\<close>

lemma session_index:
  assumes "find_for_daemon d False s = Some k" "store_ok s"
  obtains i where "i < MAX_QKD_SESSIONS" "session_entry d False s (ks_entries s ! i) = Some k"
    "\<And>j. j < MAX_QKD_SESSIONS \<Longrightarrow> j \<noteq> i \<Longrightarrow>
       qe_state (ks_entries s ! j) = 0 \<or> qe_remote_daemon_id (ks_entries s ! j) \<noteq> d"
proof -
  obtain e where "e \<in> set (ks_entries s)" "session_entry d False s e = Some k"
    using find_map_Some assms(1) unfolding find_for_daemon_def by fast
  then obtain i where i: "i < MAX_QKD_SESSIONS" "session_entry d False s (ks_entries s ! i) = Some k"
    using store_okD(1) [OF assms(2)] by (metis in_set_conv_nth)
  show thesis
    by (rule that [OF i]) (rule entry_unique [OF assms(2) i(1) session_entry_Some(1,2) [OF i(2)]])
qed

lemma find_active:
  assumes "store_ok s" "find_for_daemon d False s = Some k" "sk_active k"
  shows "find_for_daemon d True s = Some k"
proof -
  obtain i where i: "i < MAX_QKD_SESSIONS" "session_entry d False s (ks_entries s ! i) = Some k"
    and other: "\<And>j. j < MAX_QKD_SESSIONS \<Longrightarrow> j \<noteq> i \<Longrightarrow>
       qe_state (ks_entries s ! j) = 0 \<or> qe_remote_daemon_id (ks_entries s ! j) \<noteq> d"
    using session_index [OF assms(2,1)] by blast
  have "session_entry d True s (ks_entries s ! i) = Some k"
    using i(2) session_entry_Some(4) [OF i(2)] assms(3) by (simp add: session_entry_def split: if_splits)
  moreover have "find_for_daemon d True s = session_entry d True s (ks_entries s ! i)"
    unfolding find_for_daemon_def
    using i(1) other store_okD(1) [OF assms(1)] by (intro find_map_hit session_entry_other) simp_all
  ultimately show ?thesis by simp
qed

lemma find_tls:
  assumes "store_ok s" "find_for_daemon d False s = Some k"
    and fresh: "\<And>d' k'. d' \<noteq> d \<Longrightarrow> find_for_daemon d' False s = Some k' \<Longrightarrow> sk_key_id k' \<noteq> sk_key_id k"
  shows "find_by_key_id_for_tls (sk_key_id k) s = Some k"
proof -
  let ?f = "\<lambda>e. if qe_state e \<noteq> ENTRY_ACTIVE \<and> qe_state e \<noteq> ENTRY_PENDING then None
     else if entry_key_id e \<noteq> Some (sk_key_id k) then None else copy_entry s e (qe_state e = ENTRY_ACTIVE)"
  obtain i where i: "i < MAX_QKD_SESSIONS" "session_entry d False s (ks_entries s ! i) = Some k"
    and other: "\<And>j. j < MAX_QKD_SESSIONS \<Longrightarrow> j \<noteq> i \<Longrightarrow>
       qe_state (ks_entries s ! j) = 0 \<or> qe_remote_daemon_id (ks_entries s ! j) \<noteq> d"
    using session_index [OF assms(2,1)] by blast
  have "?f (ks_entries s ! j) = None" if "j < length (ks_entries s)" "j \<noteq> i" for j
  proof -
    let ?e = "ks_entries s ! j"
    have j: "j < MAX_QKD_SESSIONS" using that(1) store_okD(1) [OF assms(1)] by simp
    show ?thesis
    proof (cases "qe_state ?e = 0")
      case False
      with other [OF j that(2)] have ne: "qe_remote_daemon_id ?e \<noteq> d" by blast
      have "session_entry (qe_remote_daemon_id ?e) False s ?e \<noteq> None"
        using session_entry_None_iff [OF assms(1) store_okD(2) [OF assms(1) j]] False by blast
      then obtain k' where k': "session_entry (qe_remote_daemon_id ?e) False s ?e = Some k'" by blast
      then have "find_for_daemon (qe_remote_daemon_id ?e) False s = Some k'"
        using session_of_entry [OF assms(1) j False refl] by simp
      from fresh [OF ne this] session_entry_Some(3) [OF k'] show ?thesis by simp
    qed simp
  qed
  then have "find_map ?f (ks_entries s) = ?f (ks_entries s ! i)"
    using i(1) store_okD(1) [OF assms(1)] by (intro find_map_hit) simp_all
  moreover have "?f (ks_entries s ! i) = Some k"
    using i(2) session_entry_Some(3,5) [OF i(2)] by (auto simp: session_entry_def split: if_splits)
  ultimately show ?thesis by (simp add: find_by_key_id_for_tls_def)
qed

lemma prepare_outbound_fetches:
  assumes "store_ok s" "store_local_sae_id s = Some loc" "find_for_daemon d False s = None"
    "get_encryption_key api c sae k = (Ok m, k')" "str_ok sae" "str_ok (key_id m)"
  shows "\<exists>s'. prepare_outbound api c d sae (k, s) =
      (Ok \<lparr> sk_remote_daemon_id = d, sk_local_sae_id = loc, sk_remote_sae_id = sae, sk_key_id = key_id m,
            sk_key = key m, sk_active = False \<rparr>, k', s') \<and> s' = snd (store_put d sae m False s)"
proof -
  have v: "session_valid (sae, m, False)" using get_encryption_key_ok [OF assms(4)] assms(5,6) by (simp add: session_valid_def)
  note put = store_put_spec [OF assms(1) v assms(2), where d = d]
  obtain s' where "store_put d sae m False s = (Ok (), s')" using put(1) by (metis prod.collapse)
  with put(3) assms(3,4) show ?thesis by (simp add: prepare_outbound_def)
qed

lemma accept_inbound_fetches:
  assumes "store_ok s" "store_local_sae_id s = Some loc" "find_for_daemon d False s = None"
    "get_decryption_key api c sae kid k = (Ok m, k')" "str_ok sae" "str_ok kid"
  shows "accept_inbound api c d sae kid (k, s) = (Ok (), k', snd (store_put d sae m True s))"
proof -
  have v: "session_valid (sae, m, True)" using get_decryption_key_ok [OF assms(4)] assms(5,6) by (simp add: session_valid_def)
  note put = store_put_spec [OF assms(1) v assms(2), where d = d]
  obtain s' where "store_put d sae m True s = (Ok (), s')" using put(1) by (metis prod.collapse)
  with assms(3,4) show ?thesis by (simp add: accept_inbound_def)
qed

lemma activate_by_key_id:
  assumes "store_ok s" "find_for_daemon d False s = Some k"
    and fresh: "\<And>d' k'. d' \<noteq> d \<Longrightarrow> find_for_daemon d' False s = Some k' \<Longrightarrow> sk_key_id k' \<noteq> sk_key_id k"
  shows "\<exists>s'. activate_outbound_by_key_id (sk_key_id k) s = (Some d, s') \<and> store_ok s' \<and>
    find_for_daemon d True s' = Some (k\<lparr> sk_active := True \<rparr>)"
proof -
  note tls = find_tls [OF assms]
  obtain i where "session_entry d False s (ks_entries s ! i) = Some k" using session_index [OF assms(2,1)] by blast
  then have d: "sk_remote_daemon_id k = d"
    by (auto simp: session_entry_def copy_entry_def split: if_splits option.splits)
  obtain s' where act: "store_activate d (sk_key_id k) s = (True, s')" "store_ok s'"
    "find_for_daemon d False s' = Some (k\<lparr> sk_active := True \<rparr>)"
    using store_activate_hit [OF assms(1,2)] by blast
  show ?thesis
  proof (cases "sk_active k")
    case True
    with tls d find_active [OF assms(1,2)] assms(1) show ?thesis by (simp add: activate_outbound_by_key_id_def)
  next
    case False
    with tls d act find_active [OF act(2,3)] show ?thesis by (simp add: activate_outbound_by_key_id_def)
  qed
qed

subsection \<open>The exchange\<close>

text \<open>C7: The key exchange leaves both daemons with the same active key.  When the daemon with the smaller identity
  announces a key it got from the key manager, and the key manager gives the other daemon the same key for that identifier,
  the announcement, the acknowledgement it triggers and the activation it causes end with an active session at each
  daemon, for the other one, under the same identifier and with the same 32 bytes.\<close>

theorem qkd_handshake_agrees:
  assumes A: "store_ok sA" "store_local_sae_id sA = Some saeA" "find_for_daemon b False sA = None" "card (dom (session_of sA)) < MAX_QKD_SESSIONS"
    and B: "store_ok sB" "store_local_sae_id sB = Some saeB" "find_for_daemon a False sB = None"
    and ids: "a < b" "saeA \<noteq> saeB" "valid_id MAX_SAE_ID_LEN saeA" "str_ok saeA" "str_ok saeB" "str_ok (key_id m)"
    and enc: "get_encryption_key api cA saeB k = (Ok m, k1)"
    and dec: "get_decryption_key api cB saeA (key_id m) k1 = (Ok m', k2)" "key m' = key m"
    and fresh: "\<And>d x. find_for_daemon d False sA = Some x \<Longrightarrow> sk_key_id x \<noteq> key_id m"
  shows "\<exists>wire sA1 ack sB1 sA2 xA xB.
    start_exchange api cA a saeA b (Some saeB) (k, sA) = (Some wire, k1, sA1) \<and>
    on_qkd_control api render cB saeB wire (k1, sB) = (Some ack, Some a, k2, sB1) \<and>
    on_qkd_control api render cA saeA ack (k2, sA1) = (None, Some b, k2, sA2) \<and>
    find_for_daemon b True sA2 = Some xA \<and> find_for_daemon a True sB1 = Some xB \<and>
    sk_key xA = key m \<and> sk_key xB = key m \<and> sk_key_id xA = sk_key_id xB \<and>
    sk_remote_sae_id xA = saeB \<and> sk_remote_sae_id xB = saeA"
proof -
  note m = get_encryption_key_ok [OF enc] and m' = get_decryption_key_ok [OF dec(1)]
  have kid: "valid_id MAX_KEY_ID_LEN (key_id m)" using m by (simp add: material_ok_def)
  let ?ann = "\<lparr> qa_daemon_id = a, qa_sae_id = saeA, qa_key_id = key_id m \<rparr>"
  let ?x = "\<lparr> sk_remote_daemon_id = b, sk_local_sae_id = saeA, sk_remote_sae_id = saeB, sk_key_id = key_id m, sk_key = key m, sk_active = False \<rparr>"
  let ?y = "\<lparr> sk_remote_daemon_id = a, sk_local_sae_id = saeB, sk_remote_sae_id = saeA, sk_key_id = key_id m, sk_key = key m, sk_active = True \<rparr>"
  define sA1 where "sA1 = snd (store_put b saeB m False sA)"
  define sB1 where "sB1 = snd (store_put a saeA m' True sB)"
  have vA: "session_valid (saeB, m, False)" and vB: "session_valid (saeA, m', True)"
    using m m' ids by (simp_all add: session_valid_def)
  note putA = store_put_spec [OF A(1) vA A(2), where d = b, folded sA1_def]
  note putB = store_put_spec [OF B(1) vB B(2), where d = a, folded sB1_def]
  have room: "b \<in> dom (session_of sA) \<or> card (dom (session_of sA)) < MAX_QKD_SESSIONS" using A(4) by simp
  have xB: "find_for_daemon a True sB1 = Some ?y" using find_active [OF putB(2,3)] m' dec(2) by simp
  obtain wire where wire: "encode_key_announcement ?ann = Ok wire" "decode_key_announcement wire = Ok ?ann"
    using announcement_decodes [of ?ann] ids kid by auto
  have tag: "wire \<noteq> []" "wire ! 0 = MSG_QKD_KEY_ANNOUNCE"
    using wire(2) by (auto simp: decode_key_announcement_def split: if_splits)
  have "\<not> has_active_session b sA"
    using A(1,3) find_map_None [of "session_entry b False sA" "ks_entries sA"]
    by (auto simp: has_active_session_def find_for_daemon_def session_entry_def find_map_None dest!: find_map_Some split: if_splits)
  then have start: "start_exchange api cA a saeA b (Some saeB) (k, sA) = (Some wire, k1, sA1)"
    using prepare_outbound_fetches [OF A(1-3) enc ids(5,6)] ids(1) wire(1) by (auto simp: start_exchange_def sA1_def)
  obtain ack where ack: "encode_key_ack (key_id m) = Ok ack" "decode_key_ack ack = Ok (key_id m)" "ack \<noteq> []" "ack ! 0 = MSG_QKD_KEY_ACK"
    using ack_decodes [OF kid ids(6)] by blast
  have accept: "on_qkd_control api render cB saeB wire (k1, sB) = (Some ack, Some a, k2, sB1)"
    using accept_inbound_fetches [OF B(1-3) dec(1) ids(4,6)] wire(2) tag ids(2) ack(1) by (simp add: on_qkd_control_def sB1_def)
  obtain sA2 where act: "activate_outbound_by_key_id (key_id m) sA1 = (Some b, sA2)" "find_for_daemon b True sA2 = Some (?x\<lparr> sk_active := True \<rparr>)"
    using activate_by_key_id [OF putA(2,3)] putA(4) [OF _ room] fresh by auto
  have "on_qkd_control api render cA saeA ack (k2, sA1) = (None, Some b, k2, sA2)"
    using ack(2-4) act(1) by (simp add: on_qkd_control_def)
  with start accept act(2) xB show ?thesis
    by (intro exI [of _ wire] exI [of _ sA1] exI [of _ ack] exI [of _ sB1] exI [of _ sA2]
        exI [of _ "?x\<lparr> sk_active := True \<rparr>"] exI [of _ ?y]) simp
qed

text \<open>A key manager that hands out one key, and the two clients.\<close>

definition sample_kme :: "(string list, nat) kme" where
  "sample_kme = \<lparr> url_segments = (\<lambda>u s. Some (u @ s)), url_query = (\<lambda>u q. u),
     http_get = (\<lambda>k u. (KeyResponse [\<lparr> kr_key_id = ''k1'', kr_key = ''x'' \<rparr>], Suc k)),
     base64_decode = (\<lambda>_. Some (replicate 32 7)) \<rparr>"

abbreviation (input) sample_client :: "string list etsi_client" where
  "sample_client \<equiv> \<lparr> base_url = [], max_in_flight = 4 \<rparr>"

lemma sample_ids: "valid_id MAX_SAE_ID_LEN ''sae-1''" "valid_id MAX_SAE_ID_LEN ''sae-2''" "valid_id MAX_KEY_ID_LEN ''k1''"
  "str_ok ''sae-1''" "str_ok ''sae-2''" "str_ok ''k1''"
  by (simp_all add: valid_id_def is_ascii_control_def str_ok_def as_bytes_def)

lemma sample_keys:
  "get_encryption_key sample_kme sample_client ''sae-2'' 0 = (Ok \<lparr> key_id = ''k1'', key = replicate 32 7 \<rparr>, 1)"
  "get_decryption_key sample_kme sample_client ''sae-1'' ''k1'' 1 = (Ok \<lparr> key_id = ''k1'', key = replicate 32 7 \<rparr>, 2)"
  by (simp_all add: sample_kme_def get_encryption_key_def get_decryption_key_def operation_url_def key_request_def
      decode_single_key_def sample_ids numeral_2_eq_2)

lemma fresh_no_session:
  assumes "valid_id MAX_SAE_ID_LEN sae" "str_ok sae"
  shows "find_for_daemon d False (fresh_store pid sae) = None"
  using fresh_store_ok(2) [OF assms, of pid] by (simp add: session_of_def fun_eq_iff)

lemma fresh_local_sae:
  assumes "valid_id MAX_SAE_ID_LEN sae" "str_ok sae"
  shows "store_local_sae_id (fresh_store pid sae) = Some sae"
  using written_header [OF assms, of zero_store] by (simp add: fresh_store_def zero_store_def zero_header_def)

theorem qkd_handshake_agrees_witness:
  "\<exists>wire sA1 ack sB1 sA2 xA xB.
    start_exchange sample_kme sample_client 1 ''sae-1'' 2 (Some ''sae-2'') (0, fresh_store 9 ''sae-1'') = (Some wire, 1, sA1) \<and>
    on_qkd_control sample_kme (\<lambda>_. []) sample_client ''sae-2'' wire (1, fresh_store 8 ''sae-2'') = (Some ack, Some 1, 2, sB1) \<and>
    on_qkd_control sample_kme (\<lambda>_. []) sample_client ''sae-1'' ack (2, sA1) = (None, Some 2, 2, sA2) \<and>
    find_for_daemon 2 True sA2 = Some xA \<and> find_for_daemon 1 True sB1 = Some xB \<and> sk_key xA = sk_key xB"
proof -
  note fresh = fresh_store_ok [OF sample_ids(1,4)] fresh_store_ok [OF sample_ids(2,5)]
    fresh_local_sae [OF sample_ids(1,4)] fresh_local_sae [OF sample_ids(2,5)]
    fresh_no_session [OF sample_ids(1,4)] fresh_no_session [OF sample_ids(2,5)]
  have card: "card (dom (session_of (fresh_store 9 ''sae-1''))) < MAX_QKD_SESSIONS" by (simp add: fresh(2))
  have "\<exists>wire sA1 ack sB1 sA2 xA xB.
    start_exchange sample_kme sample_client 1 ''sae-1'' 2 (Some ''sae-2'') (0, fresh_store 9 ''sae-1'') = (Some wire, 1, sA1) \<and>
    on_qkd_control sample_kme (\<lambda>_. []) sample_client ''sae-2'' wire (1, fresh_store 8 ''sae-2'') = (Some ack, Some 1, 2, sB1) \<and>
    on_qkd_control sample_kme (\<lambda>_. []) sample_client ''sae-1'' ack (2, sA1) = (None, Some 2, 2, sA2) \<and>
    find_for_daemon 2 True sA2 = Some xA \<and> find_for_daemon 1 True sB1 = Some xB \<and>
    sk_key xA = key \<lparr> key_id = ''k1'', key = replicate 32 7 \<rparr> \<and> sk_key xB = key \<lparr> key_id = ''k1'', key = replicate 32 7 \<rparr> \<and>
    sk_key_id xA = sk_key_id xB \<and> sk_remote_sae_id xA = ''sae-2'' \<and> sk_remote_sae_id xB = ''sae-1''"
  proof (rule qkd_handshake_agrees [OF fresh(1,5,7) card fresh(3,6,8)])
    show "get_encryption_key sample_kme sample_client ''sae-2'' 0 = (Ok \<lparr> key_id = ''k1'', key = replicate 32 7 \<rparr>, 1)"
      by (rule sample_keys(1))
    show "get_decryption_key sample_kme sample_client ''sae-1'' (key_id \<lparr> key_id = ''k1'', key = replicate 32 7 \<rparr>) 1 =
        (Ok \<lparr> key_id = ''k1'', key = replicate 32 7 \<rparr>, 2)"
      unfolding qkd_key_material.simps by (rule sample_keys(2))
  qed (use sample_ids in \<open>auto simp: fresh(7)\<close>)
  then show ?thesis by metis
qed

subsection \<open>Repeated messages\<close>

lemma prepared_session:
  assumes "store_ok s" "str_ok sae" "prepare_outbound api c d sae (k, s) = (Ok x, k', s')"
    and "\<And>k m k'. get_encryption_key api c sae k = (Ok m, k') \<Longrightarrow> str_ok (key_id m)"
  shows "find_for_daemon d False s' = Some x \<and> sk_remote_sae_id x = sae"
proof (cases "\<exists>y. find_for_daemon d False s = Some y \<and> sk_remote_sae_id y = sae")
  case True
  with assms(3) show ?thesis by (auto simp: prepare_outbound_def)
next
  case False
  obtain loc where loc: "store_local_sae_id s = Some loc" using store_okD(4) [OF assms(1)] by blast
  from False have fetch: "prepare_outbound api c d sae (k, s) =
      (case get_encryption_key api c sae k of
         (Err e, k') \<Rightarrow> (Err e, k', s)
       | (Ok m, k') \<Rightarrow> (case store_put d sae m False s of
            (Err e, s') \<Rightarrow> (Err e, k', s')
          | (Ok _, s') \<Rightarrow> (case find_for_daemon d False s' of Some x \<Rightarrow> Ok x | None \<Rightarrow> Err KeyDisappeared, k', s')))"
    by (cases "find_for_daemon d False s") (auto simp: prepare_outbound_def Let_def)
  with assms(3) obtain m where m: "get_encryption_key api c sae k = (Ok m, k')"
    by (auto split: prod.splits sum.splits)
  have v: "session_valid (sae, m, False)"
    using get_encryption_key_ok [OF m] assms(2,4) m by (simp add: session_valid_def)
  obtain t where t: "store_put d sae m False s = (Ok (), t)"
    using store_put_spec(1) [OF assms(1) v loc, of d] by (metis prod.collapse)
  with store_put_spec(3) [OF assms(1) v loc, of d] assms(3) fetch m show ?thesis by auto
qed

lemma accepted_session:
  assumes "store_ok s" "str_ok sae" "str_ok kid" "accept_inbound api c d sae kid (k, s) = (Ok (), k', s')"
  shows "\<exists>y. find_for_daemon d False s' = Some y \<and> sk_remote_sae_id y = sae \<and> sk_key_id y = kid \<and> sk_active y"
proof (cases "\<exists>y. find_for_daemon d False s = Some y \<and> sk_remote_sae_id y = sae \<and> sk_key_id y = kid")
  case True
  then obtain y where y: "find_for_daemon d False s = Some y" "sk_remote_sae_id y = sae" "sk_key_id y = kid" by blast
  from store_activate_hit [OF assms(1) y(1)] y assms(4) show ?thesis
    by (cases "sk_active y") (auto simp: accept_inbound_def)
next
  case False
  obtain loc where loc: "store_local_sae_id s = Some loc" using store_okD(4) [OF assms(1)] by blast
  from False have fetch: "accept_inbound api c d sae kid (k, s) =
      (case get_decryption_key api c sae kid k of
         (Err e, k') \<Rightarrow> (Err e, k', s)
       | (Ok m, k') \<Rightarrow> (case store_put d sae m True s of (r, s') \<Rightarrow> (r, k', s')))"
    by (cases "find_for_daemon d False s") (auto simp: accept_inbound_def Let_def)
  with assms(4) obtain m where m: "get_decryption_key api c sae kid k = (Ok m, k')"
    by (auto split: prod.splits sum.splits)
  have v: "session_valid (sae, m, True)"
    using get_decryption_key_ok [OF m] assms(2,3) by (simp add: session_valid_def)
  obtain t where t: "store_put d sae m True s = (Ok (), t)"
    using store_put_spec(1) [OF assms(1) v loc, of d] by (metis prod.collapse)
  with store_put_spec(3) [OF assms(1) v loc, of d] assms(4) fetch m get_decryption_key_ok [OF m] show ?thesis by auto
qed

text \<open>C31: A session costs one key.  HELLOs repeat on every interface and every heartbeat, and so do announcements; once a
  key has been prepared for a daemon, or accepted from one, preparing or accepting it again answers the same
  without asking the key manager and without touching the table.\<close>

theorem session_key_fetched_once:
  assumes "store_ok s" "str_ok sae" "str_ok kid"
    and "\<And>k m k'. get_encryption_key api c sae k = (Ok m, k') \<Longrightarrow> str_ok (key_id m)"
  shows "(prepare_outbound api c d sae (k, s) = (Ok x, k', s') \<longrightarrow> prepare_outbound api c d sae (k', s') = (Ok x, k', s')) \<and>
    (accept_inbound api c d sae kid (k, s) = (Ok (), k', s') \<longrightarrow> accept_inbound api c d sae kid (k', s') = (Ok (), k', s'))"
proof (intro conjI impI)
  assume "prepare_outbound api c d sae (k, s) = (Ok x, k', s')"
  from prepared_session [OF assms(1,2) this assms(4)] show "prepare_outbound api c d sae (k', s') = (Ok x, k', s')"
    by (simp add: prepare_outbound_def)
next
  assume "accept_inbound api c d sae kid (k, s) = (Ok (), k', s')"
  from accepted_session [OF assms(1-3) this] show "accept_inbound api c d sae kid (k', s') = (Ok (), k', s')"
    by (auto simp: accept_inbound_def)
qed

theorem session_key_fetched_once_witness:
  "\<exists>s'. prepare_outbound sample_kme sample_client 2 ''sae-2'' (0, fresh_store 9 ''sae-1'') =
     (Ok \<lparr> sk_remote_daemon_id = 2, sk_local_sae_id = ''sae-1'', sk_remote_sae_id = ''sae-2'', sk_key_id = ''k1'',
           sk_key = replicate 32 7, sk_active = False \<rparr>, 1, s') \<and>
     fst (snd (prepare_outbound sample_kme sample_client 2 ''sae-2'' (1, s'))) = 1"
proof -
  let ?x = "\<lparr> sk_remote_daemon_id = 2, sk_local_sae_id = ''sae-1'', sk_remote_sae_id = ''sae-2'', sk_key_id = ''k1'',
     sk_key = replicate 32 7, sk_active = False \<rparr>"
  obtain s' where p: "prepare_outbound sample_kme sample_client 2 ''sae-2'' (0, fresh_store 9 ''sae-1'') = (Ok ?x, 1, s')"
    using prepare_outbound_fetches [OF fresh_store_ok(1) [OF sample_ids(1,4), of 9] fresh_local_sae [OF sample_ids(1,4)]
        fresh_no_session [OF sample_ids(1,4), of 2] sample_keys(1) sample_ids(5)] sample_ids(6) by auto
  have utf: "str_ok (key_id m)" if "get_encryption_key sample_kme sample_client ''sae-2'' k = (Ok m, k')" for k m k'
    using that sample_ids by (auto simp: sample_kme_def get_encryption_key_def operation_url_def key_request_def decode_single_key_def)
  have "(prepare_outbound sample_kme sample_client 2 ''sae-2'' (0, fresh_store 9 ''sae-1'') = (Ok ?x, 1, s') \<longrightarrow>
        prepare_outbound sample_kme sample_client 2 ''sae-2'' (1, s') = (Ok ?x, 1, s')) \<and>
      (accept_inbound sample_kme sample_client 2 ''sae-2'' ''k1'' (0, fresh_store 9 ''sae-1'') = (Ok (), 1, s') \<longrightarrow>
        accept_inbound sample_kme sample_client 2 ''sae-2'' ''k1'' (1, s') = (Ok (), 1, s'))"
    by (rule session_key_fetched_once [OF fresh_store_ok(1) [OF sample_ids(1,4)] sample_ids(5,6)]) (rule utf)
  with p have "prepare_outbound sample_kme sample_client 2 ''sae-2'' (1, s') = (Ok ?x, 1, s')" by blast
  with p show ?thesis by simp
qed

end
