(* ===== verification/Message_Crypto.thy ===== *)
theory Message_Crypto
  imports Qkd_Sessions
begin

text \<open>
  The protection of single messages with delivered keys (\<open>QkdMessageCrypto\<close> of
  \<^verbatim>\<open>security.rs\<close>): the envelope, key rotation, the cache of sealed publications, and opening with
  replay detection.

  \<open>message_crypto\<close> is the state of a process, with the replay set as a set; the first element of its iteration is the
  argument \<open>pick\<close>.  The cipher is the argument \<open>aead\<close>, the key manager that of \<open>Qkd_Config\<close>.  Waiting for another process
  consumes one element of \<open>env\<close>, what the other processes do to the key table meanwhile; when none is left, the
  call is still waiting.
\<close>

subsection \<open>Types\<close>

abbreviation (input) QKD_WIRE_MAGIC :: string where "QKD_WIRE_MAGIC \<equiv> ''AXQKD001''"
abbreviation (input) QKD_WIRE_HEADER_LEN :: nat where "QKD_WIRE_HEADER_LEN \<equiv> 36"
abbreviation (input) QKD_NONCE_BYTES :: nat where "QKD_NONCE_BYTES \<equiv> 12"
abbreviation (input) QKD_MAX_WIRE_FIELD :: nat where "QKD_MAX_WIRE_FIELD \<equiv> 192"
abbreviation (input) QKD_REPLAY_CACHE_SIZE :: nat where "QKD_REPLAY_CACHE_SIZE \<equiv> 4096"
abbreviation (input) QKD_TOPIC_SEAL_CACHE_SIZE :: nat where "QKD_TOPIC_SEAL_CACHE_SIZE \<equiv> 256"
abbreviation (input) QKD_MESSAGES_PER_KEY :: nat where "QKD_MESSAGES_PER_KEY \<equiv> 10"
abbreviation (input) TAG_LEN :: nat where "TAG_LEN \<equiv> 16"

datatype wire_kind = Topic_wire | ServiceRequest_wire | ServiceResponse_wire | Control_wire

fun kind_code :: "wire_kind \<Rightarrow> u8" where
  "kind_code Topic_wire = 1"
| "kind_code ServiceRequest_wire = 2"
| "kind_code ServiceResponse_wire = 3"
| "kind_code Control_wire = 4"

record wire_context =
  wc_kind :: wire_kind
  wc_topic_hash :: u64

definition topic_context :: "u64 \<Rightarrow> wire_context" where
  "topic_context h = \<lparr> wc_kind = Topic_wire, wc_topic_hash = h \<rparr>"

definition service_request_context :: "u64 \<Rightarrow> wire_context" where
  "service_request_context h = \<lparr> wc_kind = ServiceRequest_wire, wc_topic_hash = h \<rparr>"

definition service_response_context :: "u64 \<Rightarrow> wire_context" where
  "service_response_context h = \<lparr> wc_kind = ServiceResponse_wire, wc_topic_hash = h \<rparr>"

definition control_context :: "u64 \<Rightarrow> wire_context" where
  "control_context h = \<lparr> wc_kind = Control_wire, wc_topic_hash = h \<rparr>"

record opened_payload =
  op_data :: bytes
  op_qkd_reply :: "string option"

record cached_outbound_key =
  ck_material :: qkd_key_material
  ck_uses :: nat

type_synonym seal_key = "u64 \<times> u64 \<times> u64"

record message_crypto =
  mc_local_sae_id :: string
  mc_seen :: "bytes set"
  mc_seals :: "(seal_key \<times> bytes) list"
  mc_seal_order :: "seal_key list"
  mc_outbound :: "(string \<times> cached_outbound_key) list"

record aead =
  aead_seal :: "bytes \<Rightarrow> bytes \<Rightarrow> bytes \<Rightarrow> bytes \<Rightarrow> bytes option"
  aead_open :: "bytes \<Rightarrow> bytes \<Rightarrow> bytes \<Rightarrow> bytes \<Rightarrow> bytes option"

datatype wire_error =
    Truncated_envelope | Missing_envelope | Context_mismatch | Envelope_lengths | Sender_not_utf8 | Key_not_utf8
  | Store_unavailable | Already_used | Key_error qkd_error | Bad_key_material | Authentication_failed
  | Nonce_failed | Sender_length | Key_id_length | No_active_session u64 | Encryption_failed

definition crypto_new :: "string \<Rightarrow> message_crypto" where
  "crypto_new sae = \<lparr> mc_local_sae_id = sae, mc_seen = {}, mc_seals = [], mc_seal_order = [], mc_outbound = [] \<rparr>"

subsection \<open>Sealing\<close>

text \<open>\<open>encryption_key\<close>: the flag tells whether the key manager was asked.\<close>

definition encryption_key ::
  "('u, 'k) kme \<Rightarrow> 'u etsi_client \<Rightarrow> string \<Rightarrow> 'k \<times> message_crypto \<Rightarrow>
   (qkd_key_material \<times> bool, qkd_error) rust_result \<times> 'k \<times> message_crypto" where
  "encryption_key api c sae st =
     (let (k, cr) = st;
          fetch =
            (case get_encryption_key api c sae k of
               (Err e, k') \<Rightarrow> (Err e, k', cr)
             | (Ok m, k') \<Rightarrow>
                 (Ok (m, True), k', cr\<lparr> mc_outbound := insert_kv sae \<lparr> ck_material = m, ck_uses = 1 \<rparr> (mc_outbound cr) \<rparr>)) in
      case map_of (mc_outbound cr) sae of
        Some cached \<Rightarrow>
          if ck_uses cached < QKD_MESSAGES_PER_KEY
          then (Ok (ck_material cached, False), k,
                cr\<lparr> mc_outbound := adjust sae (\<lambda>x. x\<lparr> ck_uses := ck_uses x + 1 \<rparr>) (mc_outbound cr) \<rparr>)
          else fetch
      | None \<Rightarrow> fetch)"

definition context_aad :: "wire_context \<Rightarrow> string \<Rightarrow> string \<Rightarrow> bytes" where
  "context_aad ctx sender kid =
     [kind_code (wc_kind ctx)] @ u64_to_be (wc_topic_hash ctx) @ as_bytes sender @ as_bytes kid"

definition encode_header :: "wire_context \<Rightarrow> bytes \<Rightarrow> string \<Rightarrow> string \<Rightarrow> (bytes, wire_error) rust_result" where
  "encode_header ctx nonce sender kid =
     (if sender = [] \<or> QKD_MAX_WIRE_FIELD < length sender then Err Sender_length
      else if kid = [] \<or> QKD_MAX_WIRE_FIELD < length kid then Err Key_id_length
      else Ok (as_bytes QKD_WIRE_MAGIC @ [kind_code (wc_kind ctx)] @ [0, 0, 0] @ u64_to_be (wc_topic_hash ctx) @ nonce @
               u16_to_be (of_nat (length sender)) @ u16_to_be (of_nat (length kid)) @ as_bytes sender @ as_bytes kid))"

definition seal_with_material ::
  "aead \<Rightarrow> bytes option \<Rightarrow> string \<Rightarrow> wire_context \<Rightarrow> bytes \<Rightarrow> string \<Rightarrow> bytes \<Rightarrow> (bytes, wire_error) rust_result" where
  "seal_with_material cipher random sae ctx k kid payload =
     (case random of
        None \<Rightarrow> Err Nonce_failed
      | Some nonce \<Rightarrow>
          bind_ok (encode_header ctx nonce sae kid) (\<lambda>header.
          if length k \<noteq> QKD_KEY_BYTES then Err Bad_key_material
          else
            (case aead_seal cipher k nonce (context_aad ctx sae kid) payload of
               None \<Rightarrow> Err Encryption_failed
             | Some ct \<Rightarrow> Ok (header @ ct))))"

definition seal_with_key_for ::
  "('u, 'k) kme \<Rightarrow> 'u etsi_client \<Rightarrow> aead \<Rightarrow> bytes option \<Rightarrow> string \<Rightarrow> wire_context \<Rightarrow> bytes \<Rightarrow> 'k \<times> message_crypto \<Rightarrow>
   (bytes, wire_error) rust_result \<times> 'k \<times> message_crypto" where
  "seal_with_key_for api c cipher random sae ctx payload st =
     (case encryption_key api c sae st of
        (Err e, st') \<Rightarrow> (Err (Key_error e), st')
      | (Ok (m, fetched), st') \<Rightarrow>
          (seal_with_material cipher random (mc_local_sae_id (snd st')) ctx (key m) (key_id m) payload, st'))"

text \<open>\<open>store\<close> is the key table, when it can be opened.\<close>

definition seal_for_daemon ::
  "('u, 'k) kme \<Rightarrow> 'u etsi_client \<Rightarrow> aead \<Rightarrow> bytes option \<Rightarrow> key_store option \<Rightarrow> u64 \<Rightarrow> wire_context \<Rightarrow> bytes \<Rightarrow>
   'k \<times> message_crypto \<Rightarrow> (bytes, wire_error) rust_result \<times> 'k \<times> message_crypto" where
  "seal_for_daemon api c cipher random store d ctx payload st =
     (case store of
        None \<Rightarrow> (Err Store_unavailable, st)
      | Some s \<Rightarrow>
          (case find_for_daemon d True s of
             None \<Rightarrow> (Err (No_active_session d), st)
           | Some session \<Rightarrow> seal_with_key_for api c cipher random (sk_remote_sae_id session) ctx payload st))"

definition seal_for_reply ::
  "('u, 'k) kme \<Rightarrow> 'u etsi_client \<Rightarrow> aead \<Rightarrow> bytes option \<Rightarrow> string \<Rightarrow> wire_context \<Rightarrow> bytes \<Rightarrow>
   'k \<times> message_crypto \<Rightarrow> (bytes, wire_error) rust_result \<times> 'k \<times> message_crypto" where
  "seal_for_reply api c cipher random token ctx payload st = seal_with_key_for api c cipher random token ctx payload st"

text \<open>The loop that makes room for one more sealed publication, with the number of entries as fuel: each round removes
  the oldest key, or stops when the order is empty.\<close>

fun evict_seals :: "nat \<Rightarrow> message_crypto \<Rightarrow> message_crypto" where
  "evict_seals 0 cr = cr"
| "evict_seals (Suc n) cr =
     (if QKD_TOPIC_SEAL_CACHE_SIZE \<le> length (mc_seals cr) then
        (case mc_seal_order cr of
           [] \<Rightarrow> cr
         | oldest # rest \<Rightarrow> evict_seals n (cr\<lparr> mc_seals := remove_kv oldest (mc_seals cr), mc_seal_order := rest \<rparr>))
      else cr)"

text \<open>\<open>seal_topic_for_daemon\<close>: a cell that is filled at once, or removed again when sealing fails.\<close>

definition seal_topic_for_daemon ::
  "('u, 'k) kme \<Rightarrow> 'u etsi_client \<Rightarrow> aead \<Rightarrow> bytes option \<Rightarrow> key_store option \<Rightarrow> u64 \<Rightarrow> u64 \<Rightarrow> u64 \<Rightarrow> bytes \<Rightarrow>
   'k \<times> message_crypto \<Rightarrow> (bytes, wire_error) rust_result \<times> 'k \<times> message_crypto" where
  "seal_topic_for_daemon api c cipher random store d topic publication payload st =
     (let (k, cr) = st; ck = (d, topic, publication) in
      case map_of (mc_seals cr) ck of
        Some wire \<Rightarrow> (Ok wire, k, cr)
      | None \<Rightarrow>
          (let cr1 = evict_seals (length (mc_seal_order cr)) cr in
           case seal_for_daemon api c cipher random store d (topic_context topic) payload (k, cr1) of
             (Ok wire, k', cr2) \<Rightarrow>
               (Ok wire, k', cr2\<lparr> mc_seals := insert_kv ck wire (mc_seals cr2), mc_seal_order := mc_seal_order cr2 @ [ck] \<rparr>)
           | (Err e, k', cr2) \<Rightarrow>
               (Err e, k', cr2\<lparr> mc_seal_order := filter (\<lambda>x. x \<noteq> ck) (mc_seal_order cr2) \<rparr>)))"

subsection \<open>Opening\<close>

definition parse_envelope ::
  "wire_context \<Rightarrow> bytes \<Rightarrow> (string \<times> string \<times> bytes \<times> bytes, wire_error) rust_result" where
  "parse_envelope ctx wire =
     (if length wire < QKD_WIRE_HEADER_LEN + TAG_LEN then Err Truncated_envelope
      else if take 8 wire \<noteq> as_bytes QKD_WIRE_MAGIC then Err Missing_envelope
      else if wire ! 8 \<noteq> kind_code (wc_kind ctx) \<or> from_be (take 8 (drop 12 wire)) \<noteq> wc_topic_hash ctx then Err Context_mismatch
      else
        (let nonce = take 12 (drop 20 wire);
             sender_len = unat (from_be [wire ! 32, wire ! 33] :: u16);
             key_len = unat (from_be [wire ! 34, wire ! 35] :: u16);
             fields_end = QKD_WIRE_HEADER_LEN + sender_len + key_len in
         if sender_len = 0 \<or> QKD_MAX_WIRE_FIELD < sender_len \<or> key_len = 0 \<or> QKD_MAX_WIRE_FIELD < key_len \<or>
            length wire < fields_end
         then Err Envelope_lengths
         else
           (case from_utf8 (take sender_len (drop QKD_WIRE_HEADER_LEN wire)) of
              None \<Rightarrow> Err Sender_not_utf8
            | Some sender \<Rightarrow>
                (case from_utf8 (take key_len (drop (QKD_WIRE_HEADER_LEN + sender_len) wire)) of
                   None \<Rightarrow> Err Key_not_utf8
                 | Some kid \<Rightarrow> Ok (sender, kid, nonce, drop fields_end wire)))))"

definition replay_key :: "string \<Rightarrow> string \<Rightarrow> bytes \<Rightarrow> bytes" where
  "replay_key sender kid nonce = as_bytes sender @ [0] @ as_bytes kid @ [0] @ nonce"

definition remember :: "(bytes set \<Rightarrow> bytes) \<Rightarrow> bytes \<Rightarrow> bytes set \<Rightarrow> bytes set" where
  "remember pick rk seen = insert rk (if QKD_REPLAY_CACHE_SIZE \<le> card seen then seen - {pick seen} else seen)"

fun obtain_key ::
  "('u, 'k) kme \<Rightarrow> 'u etsi_client \<Rightarrow> (u32 \<Rightarrow> bool) \<Rightarrow> u32 \<Rightarrow> string \<Rightarrow> string \<Rightarrow> (key_store \<Rightarrow> key_store) list \<Rightarrow>
   'k \<times> key_store \<Rightarrow> ((qkd_key_material \<times> bool, qkd_error) rust_result \<times> 'k \<times> key_store) blocking" where
  "obtain_key api c alive me sender kid env (k, s) =
     (case claim_message_key alive me sender kid s of
        None \<Rightarrow> Blocks
      | Some (Err e, s') \<Rightarrow> Completes (Err e, k, s')
      | Some (Ok (Ready m), s') \<Rightarrow> Completes (Ok (m, False), k, s')
      | Some (Ok Claimed, s') \<Rightarrow>
          (case get_decryption_key api c sender kid k of
             (Ok m, k') \<Rightarrow> Completes (Ok (m, True), k', s')
           | (Err e, k') \<Rightarrow> Completes (Err e, k', abandon_message_key sender kid s'))
      | Some (Ok Awaiting, s') \<Rightarrow>
          (case env of [] \<Rightarrow> Blocks | f # env' \<Rightarrow> obtain_key api c alive me sender kid env' (k, f s')))"

definition open_wire ::
  "('u, 'k) kme \<Rightarrow> 'u etsi_client \<Rightarrow> aead \<Rightarrow> (bytes set \<Rightarrow> bytes) \<Rightarrow> (u32 \<Rightarrow> bool) \<Rightarrow> u32 \<Rightarrow> (key_store \<Rightarrow> key_store) list \<Rightarrow>
   bytes \<Rightarrow> wire_context \<Rightarrow> message_crypto \<Rightarrow> 'k \<Rightarrow> key_store option \<Rightarrow>
   ((opened_payload, wire_error) rust_result \<times> message_crypto \<times> 'k \<times> key_store option) blocking" where
  "open_wire api c cipher pick alive me env wire ctx cr k store =
     (case parse_envelope ctx wire of
        Err e \<Rightarrow> Completes (Err e, cr, k, store)
      | Ok (sender, kid, nonce, body) \<Rightarrow>
          (case store of
             None \<Rightarrow> Completes (Err Store_unavailable, cr, k, store)
           | Some s \<Rightarrow>
               (let rk = replay_key sender kid nonce;
                    cr1 = cr\<lparr> mc_seen := remember pick rk (mc_seen cr) \<rparr>;
                    forgotten = cr1\<lparr> mc_seen := mc_seen cr1 - {rk} \<rparr> in
                if rk \<in> mc_seen cr then Completes (Err Already_used, cr, k, store)
                else
                  (case obtain_key api c alive me sender kid env (k, s) of
                     Blocks \<Rightarrow> Blocks
                   | Completes (Err e, k', s') \<Rightarrow> Completes (Err (Key_error e), forgotten, k', Some s')
                   | Completes (Ok (m, fetched), k', s') \<Rightarrow>
                       if length (key m) \<noteq> QKD_KEY_BYTES then Completes (Err Bad_key_material, cr1, k', Some s')
                       else
                         (case aead_open cipher (key m) nonce (context_aad ctx sender kid) body of
                            None \<Rightarrow>
                              Completes (Err Authentication_failed, forgotten, k',
                                Some (if fetched then abandon_message_key sender kid s' else s'))
                          | Some plain \<Rightarrow>
                              (let ok = \<lparr> op_data = plain,
                                          op_qkd_reply = (if wc_kind ctx = ServiceRequest_wire then Some sender else None) \<rparr> in
                               if fetched then
                                 (case publish_message_key sender m s' of
                                    (Err e, s'') \<Rightarrow> Completes (Err (Key_error e), forgotten, k', Some s'')
                                  | (Ok _, s'') \<Rightarrow> Completes (Ok ok, cr1, k', Some s''))
                               else Completes (Ok ok, cr1, k', Some s')))))))"

subsection \<open>The envelope\<close>

text \<open>What the cipher promises: a tag of 16 bytes, and that opening gives back what was sealed.\<close>

definition aead_ok :: "aead \<Rightarrow> bool" where
  "aead_ok cipher \<longleftrightarrow> (\<forall>k n a p c. aead_seal cipher k n a p = Some c \<longrightarrow>
     length c = length p + TAG_LEN \<and> aead_open cipher k n a c = Some p)"

text \<open>That only sealing under the same key, nonce and data makes something that opens.\<close>

definition aead_authentic :: "aead \<Rightarrow> bool" where
  "aead_authentic cipher \<longleftrightarrow> (\<forall>k n a p c. aead_open cipher k n a c = Some p \<longrightarrow> aead_seal cipher k n a p = Some c)"

lemma kind_code_inject [simp]: "kind_code a = kind_code b \<longleftrightarrow> a = b"
  by (cases a; cases b) simp_all

lemma context_eq: "ctx' = ctx \<longleftrightarrow> wc_kind ctx' = wc_kind ctx \<and> wc_topic_hash ctx' = wc_topic_hash ctx"
  for ctx' ctx :: wire_context by (cases ctx; cases ctx') auto

lemma header_fields:
  assumes "length m = 8" "length z = 3" "length h = 8" "length n = 12" "length rest = r"
  shows "take 8 (m @ [k] @ z @ h @ n @ [a, b] @ [c, d] @ rest) = m" "(m @ [k] @ z @ h @ n @ [a, b] @ [c, d] @ rest) ! 8 = k"
    "take 8 (drop 12 (m @ [k] @ z @ h @ n @ [a, b] @ [c, d] @ rest)) = h"
    "take 12 (drop 20 (m @ [k] @ z @ h @ n @ [a, b] @ [c, d] @ rest)) = n"
    "(m @ [k] @ z @ h @ n @ [a, b] @ [c, d] @ rest) ! 32 = a" "(m @ [k] @ z @ h @ n @ [a, b] @ [c, d] @ rest) ! 33 = b"
    "(m @ [k] @ z @ h @ n @ [a, b] @ [c, d] @ rest) ! 34 = c" "(m @ [k] @ z @ h @ n @ [a, b] @ [c, d] @ rest) ! 35 = d"
    "drop 36 (m @ [k] @ z @ h @ n @ [a, b] @ [c, d] @ rest) = rest"
  using assms by (simp_all add: nth_append)

lemma parse_sealed:
  assumes "encode_header ctx nonce sender kid = Ok h" "length nonce = QKD_NONCE_BYTES" "str_ok sender" "str_ok kid"
    "TAG_LEN \<le> length ct"
  shows "parse_envelope ctx' (h @ ct) = (if ctx' = ctx then Ok (sender, kid, nonce, ct) else Err Context_mismatch)"
proof -
  let ?s = "of_nat (length sender) :: u16" and ?k = "of_nat (length kid) :: u16"
  obtain a b where ab: "u16_to_be ?s = [a, b]" using u16_to_be_pair by blast
  obtain c d where cd: "u16_to_be ?k = [c, d]" using u16_to_be_pair by blast
  have lens: "sender \<noteq> []" "length sender \<le> QKD_MAX_WIRE_FIELD" "kid \<noteq> []" "length kid \<le> QKD_MAX_WIRE_FIELD"
    using assms(1) by (auto simp: encode_header_def split: if_splits)
  define rest where "rest = as_bytes sender @ as_bytes kid @ ct"
  have w: "h @ ct = as_bytes QKD_WIRE_MAGIC @ [kind_code (wc_kind ctx)] @ [0, 0, 0] @ u64_to_be (wc_topic_hash ctx) @ nonce @
      [a, b] @ [c, d] @ rest"
    using assms(1) by (auto simp: encode_header_def rest_def ab cd split: if_splits)
  have ints: "unat (from_be [a, b] :: u16) = length sender" "unat (from_be [c, d] :: u16) = length kid"
    using lens by (simp_all add: ab [symmetric] cd [symmetric] unat_of_nat16)
  have size: "length (h @ ct) = 36 + length sender + length kid + length ct"
    using assms(2) by (simp only: w rest_def) simp
  note f = header_fields [of "as_bytes QKD_WIRE_MAGIC" "[0, 0, 0]" "u64_to_be (wc_topic_hash ctx)" nonce rest _
      "kind_code (wc_kind ctx)" a b c d, folded w, OF _ _ _ assms(2) refl]
  have pos: "0 < length sender" "0 < length kid" using lens by simp_all
  have "drop (36 + length sender) (h @ ct) = as_bytes kid @ ct" "drop (36 + length sender + length kid) (h @ ct) = ct"
    unfolding add.commute [of 36] drop_drop [symmetric] add.assoc using f(9)
    by (simp_all add: rest_def add.commute [of "length sender"] drop_drop [symmetric])
  with f size ints lens pos assms(3-5) show ?thesis
    by (simp add: parse_envelope_def Let_def context_eq rest_def)
qed

subsection \<open>Sealing and opening\<close>

lemma seal_with_material_Ok:
  assumes "seal_with_material cipher (Some nonce) sender ctx k kid payload = Ok wire"
  obtains h ct where "encode_header ctx nonce sender kid = Ok h" "length k = QKD_KEY_BYTES"
    "aead_seal cipher k nonce (context_aad ctx sender kid) payload = Some ct" "wire = h @ ct"
  using assms by (auto simp: seal_with_material_def bind_ok_eq_Ok split: if_splits option.splits)

lemma sealed_parses:
  assumes "aead_ok cipher" "seal_with_material cipher (Some nonce) sender ctx k kid payload = Ok wire"
    "length nonce = QKD_NONCE_BYTES" "str_ok sender" "str_ok kid"
  obtains ct where "length k = QKD_KEY_BYTES" "aead_open cipher k nonce (context_aad ctx sender kid) ct = Some payload"
    "\<And>ctx'. parse_envelope ctx' wire = (if ctx' = ctx then Ok (sender, kid, nonce, ct) else Err Context_mismatch)"
proof -
  obtain h ct where h: "encode_header ctx nonce sender kid = Ok h" "length k = QKD_KEY_BYTES"
    "aead_seal cipher k nonce (context_aad ctx sender kid) payload = Some ct" "wire = h @ ct"
    using seal_with_material_Ok [OF assms(2)] by blast
  with assms(1) have "aead_open cipher k nonce (context_aad ctx sender kid) ct = Some payload" "TAG_LEN \<le> length ct"
    by (auto simp: aead_ok_def)
  with that [of ct] parse_sealed [OF h(1) assms(3-5)] h(2,4) show thesis by blast
qed

definition opened :: "wire_context \<Rightarrow> string \<Rightarrow> bytes \<Rightarrow> opened_payload" where
  "opened ctx sender payload =
     \<lparr> op_data = payload, op_qkd_reply = (if wc_kind ctx = ServiceRequest_wire then Some sender else None) \<rparr>"

lemma seen_remember [simp]: "rk \<in> remember pick rk seen"
  by (simp add: remember_def)

lemma obtain_Claimed:
  assumes "claim_message_key alive me sender kid s = Some (Ok Claimed, s1)" "get_decryption_key api c sender kid k = (Ok m, k')"
  shows "obtain_key api c alive me sender kid env (k, s) = Completes (Ok (m, True), k', s1)"
  using assms by simp

lemma obtain_refused:
  assumes "claim_message_key alive me sender kid s = Some (Ok Claimed, s1)" "get_decryption_key api c sender kid k = (Err e, k')"
  shows "obtain_key api c alive me sender kid env (k, s) = Completes (Err e, k', abandon_message_key sender kid s1)"
  using assms by simp

lemma obtain_Ready:
  assumes "claim_message_key alive me sender kid s = Some (Ok (Ready m), s)"
  shows "obtain_key api c alive me sender kid env (k, s) = Completes (Ok (m, False), k, s)"
  using assms by simp

declare obtain_key.simps [simp del]

lemma open_claimed:
  assumes "parse_envelope ctx wire = Ok (sender, kid, nonce, ct)" "replay_key sender kid nonce \<notin> mc_seen cr"
    and "claim_message_key alive me sender kid s = Some (Ok Claimed, s1)" "get_decryption_key api c sender kid k = (Ok m, k')"
    and "aead_open cipher (key m) nonce (context_aad ctx sender kid) ct = Some payload"
    and "publish_message_key sender m s1 = (Ok (), s')"
  shows "open_wire api c cipher pick alive me env wire ctx cr k (Some s) =
    Completes (Ok (opened ctx sender payload), cr\<lparr> mc_seen := remember pick (replay_key sender kid nonce) (mc_seen cr) \<rparr>, k', Some s')"
  using assms get_decryption_key_ok [OF assms(4)]
  by (simp add: open_wire_def obtain_Claimed [OF assms(3,4)] opened_def Let_def material_ok_def)

text \<open>C3: A sealed message is delivered, once per process and with one key request per host.  The first process to open
  it fetches the key and gets the payload, with a reply address exactly for a service request; opening the same envelope
  there again is refused without touching anything; every other process of the host opens it with the shared key, without
  asking the key manager; and under another message kind or topic the envelope is refused.\<close>

theorem sealed_message_delivered:
  assumes "aead_ok cipher" "seal_with_material cipher (Some nonce) sender ctx (key m) (key_id m) payload = Ok wire"
    and "length nonce = QKD_NONCE_BYTES" "str_ok sender" "str_ok (key_id m)"
    and "valid_id MAX_SAE_ID_LEN sender" "valid_id MAX_KEY_ID_LEN (key_id m)" "messages_ok s"
    and "\<forall>e \<in> set (ks_messages s). \<not> pending_for sender (key_id m) e"
    and "claim_message_key alive me sender (key_id m) s = Some (Ok Claimed, s1)"
    and "get_decryption_key api c sender (key_id m) k = (Ok m, k')"
    and "replay_key sender (key_id m) nonce \<notin> mc_seen cr"
  shows "\<exists>cr' s'. open_wire api c cipher pick alive me env wire ctx cr k (Some s) =
           Completes (Ok (opened ctx sender payload), cr', k', Some s') \<and>
         open_wire api c cipher pick alive' me env wire ctx cr' l (Some t) = Completes (Err Already_used, cr', l, Some t) \<and>
         (replay_key sender (key_id m) nonce \<notin> mc_seen cr2 \<longrightarrow>
            (\<exists>cr2'. open_wire api c2 cipher pick alive' p env wire ctx cr2 l (Some s') =
               Completes (Ok (opened ctx sender payload), cr2', l, Some s'))) \<and>
         (ctx' \<noteq> ctx \<longrightarrow> open_wire api c cipher pick alive me env wire ctx' cr k store = Completes (Err Context_mismatch, cr, k, store))"
proof -
  obtain ct where ct: "length (key m) = QKD_KEY_BYTES"
    "aead_open cipher (key m) nonce (context_aad ctx sender (key_id m)) ct = Some payload"
    "\<And>ctx'. parse_envelope ctx' wire = (if ctx' = ctx then Ok (sender, key_id m, nonce, ct) else Err Context_mismatch)"
    using sealed_parses [OF assms(1-5)] by metis
  have m: "\<lparr> key_id = key_id m, key = key m \<rparr> = m" by simp
  obtain s' where s': "publish_message_key sender m s1 = (Ok (), s')"
    "claim_message_key alive' p sender (key_id m) s' = Some (Ok (Ready m), s')"
    using claimed_then_published [OF assms(8,6,7,4,5,9,10) ct(1)] unfolding m by blast
  let ?rk = "replay_key sender (key_id m) nonce"
  let ?cr' = "cr\<lparr> mc_seen := remember pick ?rk (mc_seen cr) \<rparr>"
  have "open_wire api c cipher pick alive me env wire ctx cr k (Some s) =
      Completes (Ok (opened ctx sender payload), ?cr', k', Some s')"
    by (rule open_claimed [OF _ assms(12,10,11) ct(2) s'(1)]) (simp add: ct(3))
  moreover have "open_wire api c cipher pick alive' me env wire ctx ?cr' l (Some t) = Completes (Err Already_used, ?cr', l, Some t)"
    using ct(3) by (simp add: open_wire_def Let_def)
  moreover have "\<exists>cr2'. open_wire api c2 cipher pick alive' p env wire ctx cr2 l (Some s') =
      Completes (Ok (opened ctx sender payload), cr2', l, Some s')" if "?rk \<notin> mc_seen cr2"
    using ct that by (simp add: open_wire_def obtain_Ready [OF s'(2)] opened_def Let_def)
  moreover have "open_wire api c cipher pick alive me env wire ctx' cr k store = Completes (Err Context_mismatch, cr, k, store)"
    if "ctx' \<noteq> ctx" using ct(3) [of ctx'] that by (simp add: open_wire_def)
  ultimately show ?thesis by blast
qed

definition sample_aead :: aead where
  "sample_aead = \<lparr> aead_seal = (\<lambda>k n a p. Some (p @ replicate 16 9)),
     aead_open = (\<lambda>k n a c. if 16 \<le> length c \<and> drop (length c - 16) c = replicate 16 9
                            then Some (take (length c - 16) c) else None) \<rparr>"

lemma sample_aead_laws: "aead_ok sample_aead" "aead_authentic sample_aead"
proof -
  show "aead_ok sample_aead" by (simp add: aead_ok_def sample_aead_def)
  have "take (length c - 16) c @ replicate 16 9 = c" if "drop (length c - 16) c = replicate 16 9" for c :: bytes
    using that by (metis append_take_drop_id)
  then show "aead_authentic sample_aead" by (auto simp: aead_authentic_def sample_aead_def)
qed

abbreviation (input) sample_material :: qkd_key_material where
  "sample_material \<equiv> \<lparr> key_id = ''k1'', key = replicate 32 7 \<rparr>"

lemma sample_claim:
  "\<exists>s1. claim_message_key alive me ''sae-1'' ''k1'' (fresh_store pid sae) = Some (Ok Claimed, s1)"
  "\<forall>e \<in> set (ks_messages (fresh_store pid sae)). \<not> pending_for ''sae-1'' ''k1'' e"
  using claim_at_start [OF sample_ids(1,3), of "fresh_store pid sae" alive me] fresh_messages_ok(4) [where pid = pid and sae = sae]
  by (auto simp: fresh_messages_ok)

lemma sample_seal:
  "\<exists>wire. seal_with_material sample_aead (Some (replicate 12 3)) ''sae-1'' ctx (replicate 32 7) ''k1'' p = Ok wire"
  by (simp add: seal_with_material_def encode_header_def sample_aead_def)

theorem sealed_message_delivered_witness:
  "\<exists>wire cr' s'. open_wire sample_kme sample_client sample_aead (\<lambda>_. []) (\<lambda>_. True) 5 [] wire (service_request_context 8)
     (crypto_new ''sae-2'') 1 (Some (fresh_store 9 ''sae-2'')) =
     Completes (Ok \<lparr> op_data = [1, 2], op_qkd_reply = Some ''sae-1'' \<rparr>, cr', 2, Some s')"
proof -
  obtain wire where w: "seal_with_material sample_aead (Some (replicate 12 3)) ''sae-1'' (service_request_context 8)
      (key sample_material) (key_id sample_material) [1, 2] = Ok wire"
    using sample_seal [of "service_request_context 8" "[1, 2]"] by auto
  obtain s1 where s1: "claim_message_key (\<lambda>_. True) 5 ''sae-1'' (key_id sample_material) (fresh_store 9 ''sae-2'') = Some (Ok Claimed, s1)"
    using sample_claim(1) [where pid = 9 and sae = "''sae-2''" and me = 5 and alive = "\<lambda>_. True"] by auto
  have "opened (service_request_context 8) ''sae-1'' [1, 2] = \<lparr> op_data = [1, 2], op_qkd_reply = Some ''sae-1'' \<rparr>"
    by (simp add: opened_def service_request_context_def)
  moreover have "replay_key ''sae-1'' (key_id sample_material) (replicate 12 3) \<notin> mc_seen (crypto_new ''sae-2'')"
    by (simp add: crypto_new_def)
  ultimately show ?thesis
    using sealed_message_delivered [OF sample_aead_laws(1) w _ sample_ids(4) _ sample_ids(1) _ fresh_messages_ok(1) _ s1,
        where api = sample_kme and c = sample_client and k = 1 and k' = 2 and cr = "crypto_new ''sae-2''" and pick = "\<lambda>_. []" and env = "[]"]
      sample_claim(2) sample_ids sample_keys(2) by (simp only: qkd_key_material.simps length_replicate simp_thms) blast
qed

subsection \<open>What an accepted message proves, and what a refused one leaves\<close>

lemma obtain_key_Ok:
  assumes "obtain_key api c alive me sender kid env (k, s) = Completes (Ok (m, fetched), k', s')"
  shows "if fetched then get_decryption_key api c sender kid k = (Ok m, k') else k' = k"
  using assms
proof (induction env arbitrary: s)
  case Nil
  then show ?case by (subst (asm) obtain_key.simps)
    (auto split: option.splits sum.splits message_key_lookup.splits prod.splits)
next
  case (Cons f env)
  then show ?case by (subst (asm) (2) obtain_key.simps)
    (auto split: option.splits sum.splits message_key_lookup.splits prod.splits)
qed





text \<open>Note: A forged envelope can cost the genuine message its key.  An envelope that names a sender and a key identifier
  but carries no valid ciphertext makes the receiver fetch that key and give up the claim without keeping the key.  When the
  key manager hands out a key once, the genuine message under that key is then refused.\<close>

theorem forged_envelope_burns_key:
  assumes "parse_envelope ctx forged = Ok (sender, kid, nonce, junk)"
    and "aead_open cipher (key m) nonce (context_aad ctx sender kid) junk = None"
    and "parse_envelope ctx wire = Ok (sender, kid, nonce', body)"
    and "messages_ok s" "str_ok sender" "str_ok kid" "valid_id MAX_SAE_ID_LEN sender" "valid_id MAX_KEY_ID_LEN kid"
    and "\<forall>e \<in> set (ks_messages s). \<not> pending_for sender kid e"
    and "claim_message_key alive me sender kid s = Some (Ok Claimed, s1)"
    and "get_decryption_key api c sender kid k = (Ok m, k1)" "get_decryption_key api c sender kid k1 = (Err e, k2)"
    and "replay_key sender kid nonce \<notin> mc_seen cr" "replay_key sender kid nonce' \<notin> mc_seen cr"
  shows "\<exists>cr' s'. open_wire api c cipher pick alive me env forged ctx cr k (Some s) =
           Completes (Err Authentication_failed, cr', k1, Some s') \<and>
         (\<exists>cr'' s''. open_wire api c cipher pick alive me env wire ctx cr' k1 (Some s') =
           Completes (Err (Key_error e), cr'', k2, Some s''))"
proof -
  obtain s3 where s3: "claim_message_key alive me sender kid (abandon_message_key sender kid s1) = Some (Ok Claimed, s3)"
    using claimed_then_abandoned [OF assms(4,7,8,5,6,9,10)] by blast
  have size: "length (key m) = QKD_KEY_BYTES" using get_decryption_key_ok [OF assms(11)] by (simp add: material_ok_def)
  let ?cr1 = "cr\<lparr> mc_seen := remember pick (replay_key sender kid nonce) (mc_seen cr) - {replay_key sender kid nonce} \<rparr>"
  have "open_wire api c cipher pick alive me env forged ctx cr k (Some s) =
      Completes (Err Authentication_failed, ?cr1, k1, Some (abandon_message_key sender kid s1))"
    using assms(1,2,13) size by (simp add: open_wire_def obtain_Claimed [OF assms(10,11)] Let_def)
  moreover have "replay_key sender kid nonce' \<notin> mc_seen ?cr1" using assms(14) by (auto simp: remember_def)
  then have "\<exists>cr'' s''. open_wire api c cipher pick alive me env wire ctx ?cr1 k1 (Some (abandon_message_key sender kid s1)) =
      Completes (Err (Key_error e), cr'', k2, Some s'')"
    using assms(3) by (simp add: open_wire_def Let_def obtain_refused [OF s3 assms(12)])
  ultimately show ?thesis by blast
qed

text \<open>A key manager that hands out its key once.\<close>

definition once_kme :: "(string list, nat) kme" where
  "once_kme = sample_kme\<lparr> http_get := (\<lambda>k u. (if k = 0 then KeyResponse [\<lparr> kr_key_id = ''k1'', kr_key = ''x'' \<rparr>] else StatusError, Suc k)) \<rparr>"

lemma once_keys:
  "get_decryption_key once_kme sample_client ''sae-1'' ''k1'' 0 = (Ok sample_material, 1)"
  "get_decryption_key once_kme sample_client ''sae-1'' ''k1'' 1 = (Err RequestRejected, 2)"
  by (simp_all add: once_kme_def sample_kme_def get_decryption_key_def operation_url_def key_request_def
      decode_single_key_def sample_ids numeral_2_eq_2)

theorem forged_envelope_burns_key_witness:
  "\<exists>forged wire cr' s' cr'' s''.
     open_wire once_kme sample_client sample_aead (\<lambda>_. []) (\<lambda>_. True) 5 [] forged (topic_context 8)
       (crypto_new ''sae-2'') 0 (Some (fresh_store 9 ''sae-2'')) = Completes (Err Authentication_failed, cr', 1, Some s') \<and>
     open_wire once_kme sample_client sample_aead (\<lambda>_. []) (\<lambda>_. True) 5 [] wire (topic_context 8) cr' 1 (Some s') =
       Completes (Err (Key_error RequestRejected), cr'', 2, Some s'')"
proof -
  obtain h where h: "encode_header (topic_context 8) (replicate 12 3) ''sae-1'' ''k1'' = Ok h"
    by (simp add: encode_header_def)
  let ?forged = "h @ replicate 16 4" and ?wire = "h @ [1, 2] @ replicate 16 9"
  have p: "parse_envelope (topic_context 8) ?forged = Ok (''sae-1'', ''k1'', replicate 12 3, replicate 16 4)"
    "parse_envelope (topic_context 8) ?wire = Ok (''sae-1'', ''k1'', replicate 12 3, [1, 2] @ replicate 16 9)"
    using parse_sealed [OF h _ sample_ids(4,6)] by simp_all
  have bad: "aead_open sample_aead (key sample_material) (replicate 12 3) (context_aad (topic_context 8) ''sae-1'' ''k1'') (replicate 16 4) = None"
    by (simp add: sample_aead_def)
  have new: "replay_key ''sae-1'' ''k1'' (replicate 12 3) \<notin> mc_seen (crypto_new ''sae-2'')" by (simp add: crypto_new_def)
  obtain s1 where s1: "claim_message_key (\<lambda>_. True) 5 ''sae-1'' ''k1'' (fresh_store 9 ''sae-2'') = Some (Ok Claimed, s1)"
    using sample_claim(1) [where pid = 9 and sae = "''sae-2''" and me = 5 and alive = "\<lambda>_. True"] by auto
  show ?thesis
    using forged_envelope_burns_key [OF p(1) bad p(2) fresh_messages_ok(1) sample_ids(4,6,1,3) sample_claim(2) s1 once_keys new new,
        of "\<lambda>_. []" "[]"] by blast
qed

end
