(* ===== verification/Key_Rotation.thy ===== *)
theory Key_Rotation
  imports Message_Crypto
begin

text \<open>
  The outgoing keys of \<open>QkdMessageCrypto\<close> over a sequence of messages (\<open>encryption_key\<close> of \<^verbatim>\<open>security.rs\<close>), and the
  cache of sealed publications (\<open>seal_topic_for_daemon\<close>).
\<close>

subsection \<open>Key rotation\<close>

text \<open>A sequence of key requests, one per sealed message.\<close>

fun draw_keys ::
  "('u, 'k) kme \<Rightarrow> 'u etsi_client \<Rightarrow> string list \<Rightarrow> 'k \<times> message_crypto \<Rightarrow>
   ((qkd_key_material \<times> bool) list, qkd_error) rust_result \<times> 'k \<times> message_crypto" where
  "draw_keys api c [] st = (Ok [], st)"
| "draw_keys api c (sae # saes) st =
     (case encryption_key api c sae st of
        (Err e, st') \<Rightarrow> (Err e, st')
      | (Ok r, st') \<Rightarrow>
          (case draw_keys api c saes st' of (Err e, st'') \<Rightarrow> (Err e, st'') | (Ok rs, st'') \<Rightarrow> (Ok (r # rs), st'')))"

lemma draw_keys_snoc:
  "draw_keys api c (saes @ [sae]) st =
     (case draw_keys api c saes st of
        (Err e, st') \<Rightarrow> (Err e, st')
      | (Ok rs, st') \<Rightarrow>
          (case encryption_key api c sae st' of (Err e, st'') \<Rightarrow> (Err e, st'') | (Ok r, st'') \<Rightarrow> (Ok (rs @ [r]), st'')))"
proof (induction saes arbitrary: st)
  case (Cons x saes)
  show ?case
  proof (cases "encryption_key api c x st")
    case (fields r k' cr')
    with Cons [of "(k', cr')"] show ?thesis by (cases r; cases "draw_keys api c saes (k', cr')") (simp_all split: prod.split sum.split)
  qed
qed (auto split: prod.split sum.split)

text \<open>What the cache holds after the requests \<open>saes\<close> were answered by \<open>rs\<close>: for every peer that was asked for, the key of
  its last fetch \<open>j\<close> and how often it was used.\<close>

definition drawn :: "string list \<Rightarrow> (qkd_key_material \<times> bool) list \<Rightarrow> string \<Rightarrow> cached_outbound_key \<Rightarrow> bool" where
  "drawn saes rs sae x \<longleftrightarrow> (\<exists>j < length saes. saes ! j = sae \<and> snd (rs ! j) \<and> ck_material x = fst (rs ! j) \<and>
     1 \<le> ck_uses x \<and> ck_uses x \<le> QKD_MESSAGES_PER_KEY \<and> count_list (take j saes) sae + ck_uses x = count_list saes sae \<and>
     count_list (take j saes) sae mod QKD_MESSAGES_PER_KEY = 0)"

definition rotation :: "string list \<Rightarrow> (qkd_key_material \<times> bool) list \<Rightarrow> message_crypto \<Rightarrow> bool" where
  "rotation saes rs cr \<longleftrightarrow> length rs = length saes \<and>
     (\<forall>sae. case map_of (mc_outbound cr) sae of None \<Rightarrow> sae \<notin> set saes | Some x \<Rightarrow> drawn saes rs sae x)"

lemma drawnE:
  assumes "drawn saes rs s x"
  obtains j where "j < length saes" "saes ! j = s" "snd (rs ! j)" "ck_material x = fst (rs ! j)" "1 \<le> ck_uses x"
    "ck_uses x \<le> QKD_MESSAGES_PER_KEY" "count_list (take j saes) s + ck_uses x = count_list saes s"
    "count_list (take j saes) s mod QKD_MESSAGES_PER_KEY = 0"
  using assms unfolding drawn_def by (elim exE conjE) (rule that)

lemma drawnI:
  assumes "j < length saes" "saes ! j = s" "snd (rs ! j)" "ck_material x = fst (rs ! j)" "1 \<le> ck_uses x"
    "ck_uses x \<le> QKD_MESSAGES_PER_KEY" "count_list (take j saes) s + ck_uses x = count_list saes s"
    "count_list (take j saes) s mod QKD_MESSAGES_PER_KEY = 0"
  shows "drawn saes rs s x"
  unfolding drawn_def by (intro exI [of _ j] conjI) (fact assms)+

lemma drawn_extend:
  assumes "drawn saes rs s x" "length rs = length saes" "ck_material y = ck_material x" "ck_uses y \<le> QKD_MESSAGES_PER_KEY"
    "ck_uses y = ck_uses x + (if sae = s then 1 else 0)"
  shows "drawn (saes @ [sae]) (rs @ [r]) s y"
  using assms(1)
proof (rule drawnE)
  fix j assume j: "j < length saes" "saes ! j = s" "snd (rs ! j)" "ck_material x = fst (rs ! j)" "1 \<le> ck_uses x"
    "ck_uses x \<le> QKD_MESSAGES_PER_KEY" "count_list (take j saes) s + ck_uses x = count_list saes s"
    "count_list (take j saes) s mod QKD_MESSAGES_PER_KEY = 0"
  have nth: "(saes @ [sae]) ! j = saes ! j" "(rs @ [r]) ! j = rs ! j" "take j (saes @ [sae]) = take j saes"
    using j(1) assms(2) by (simp_all add: nth_append)
  have cnt: "count_list (saes @ [sae]) s = count_list saes s + (if sae = s then 1 else 0)" by simp
  show ?thesis
  proof (rule drawnI [of j])
    show "count_list (take j (saes @ [sae])) s + ck_uses y = count_list (saes @ [sae]) s"
      unfolding nth cnt assms(5) using j(7) by linarith
    show "1 \<le> ck_uses y" using j(5) assms(5) by linarith
  qed (unfold nth assms(3), use j assms(4) in auto)
qed

lemma drawn_count:
  assumes "drawn saes rs sae x"
  shows "count_list saes sae mod QKD_MESSAGES_PER_KEY = ck_uses x mod QKD_MESSAGES_PER_KEY" "1 \<le> ck_uses x"
    "ck_uses x \<le> QKD_MESSAGES_PER_KEY"
proof -
  obtain j where n: "count_list (take j saes) sae + ck_uses x = count_list saes sae"
    "count_list (take j saes) sae mod QKD_MESSAGES_PER_KEY = 0" "1 \<le> ck_uses x" "ck_uses x \<le> QKD_MESSAGES_PER_KEY"
    by (rule drawnE [OF assms]) (rule that)
  have "(a + b) mod 10 = b mod 10" if "a mod 10 = 0" for a b :: nat using that mod_add_left_eq [of a 10 b] by simp
  from this [OF n(2), of "ck_uses x"] n show "count_list saes sae mod QKD_MESSAGES_PER_KEY = ck_uses x mod QKD_MESSAGES_PER_KEY" "1 \<le> ck_uses x"
    "ck_uses x \<le> QKD_MESSAGES_PER_KEY" by (simp_all only:)
qed

lemma drawn_new:
  assumes "length rs = length saes" "count_list saes sae mod QKD_MESSAGES_PER_KEY = 0"
  shows "drawn (saes @ [sae]) (rs @ [(m, True)]) sae \<lparr> ck_material = m, ck_uses = 1 \<rparr>"
proof -
  have "(rs @ [(m, True)]) ! length saes = (m, True)" by (simp add: assms(1) [symmetric])
  with assms(2) show ?thesis by (intro drawnI [of "length saes"]) simp_all
qed

lemma rotation_step:
  assumes "rotation saes rs cr" "encryption_key api c sae (k, cr) = (Ok r, k', cr')"
  shows "rotation (saes @ [sae]) (rs @ [r]) cr' \<and> drawn (saes @ [sae]) (rs @ [r]) sae (the (map_of (mc_outbound cr') sae)) \<and>
    ck_material (the (map_of (mc_outbound cr') sae)) = fst r \<and> (snd r \<longleftrightarrow> count_list saes sae mod QKD_MESSAGES_PER_KEY = 0)"
proof -
  have len: "length rs = length saes" using assms(1) by (simp add: rotation_def)
  have old: "case map_of (mc_outbound cr) s of None \<Rightarrow> s \<notin> set saes | Some x \<Rightarrow> drawn saes rs s x" for s
    using assms(1) unfolding rotation_def by blast
  have others: "case map_of (mc_outbound cr) s of None \<Rightarrow> s \<notin> set (saes @ [sae]) | Some x \<Rightarrow> drawn (saes @ [sae]) (rs @ [r]) s x"
    if "s \<noteq> sae" for s using old [of s] that drawn_extend [OF _ len, where r = r and sae = sae and s = s] drawn_count(3) by (auto split: option.splits)
  have rot: ?thesis if x: "map_of (mc_outbound cr') = (map_of (mc_outbound cr))(sae \<mapsto> x)" "drawn (saes @ [sae]) (rs @ [r]) sae x"
    "ck_material x = fst r" "snd r \<longleftrightarrow> count_list saes sae mod QKD_MESSAGES_PER_KEY = 0" for x
    using x others len by (simp add: rotation_def)
  show ?thesis
  proof (cases "\<exists>x. map_of (mc_outbound cr) sae = Some x \<and> ck_uses x < QKD_MESSAGES_PER_KEY")
    case True
    then obtain x where x: "map_of (mc_outbound cr) sae = Some x" "ck_uses x < QKD_MESSAGES_PER_KEY" by blast
    with old [of sae] have d: "drawn saes rs sae x" by simp
    let ?y = "x\<lparr> ck_uses := ck_uses x + 1 \<rparr>"
    from x assms(2) have r: "r = (ck_material x, False)" "map_of (mc_outbound cr') = (map_of (mc_outbound cr))(sae \<mapsto> ?y)"
      by (auto simp: encryption_key_def)
    have "count_list saes sae mod QKD_MESSAGES_PER_KEY = ck_uses x" "1 \<le> ck_uses x"
      using drawn_count [OF d] x(2) by simp_all
    then have "snd r \<longleftrightarrow> count_list saes sae mod QKD_MESSAGES_PER_KEY = 0" by (simp add: r(1))
    moreover have "drawn (saes @ [sae]) (rs @ [r]) sae ?y" by (rule drawn_extend [OF d len]) (use x(2) in simp_all)
    ultimately show ?thesis using rot [OF r(2)] by (simp add: r(1))
  next
    case False
    then obtain m where r: "r = (m, True)" "map_of (mc_outbound cr') = (map_of (mc_outbound cr))(sae \<mapsto> \<lparr> ck_material = m, ck_uses = 1 \<rparr>)"
      using assms(2) by (auto simp: encryption_key_def Let_def split: option.splits if_splits sum.splits prod.splits)
    have "count_list saes sae mod QKD_MESSAGES_PER_KEY = 0"
    proof (cases "map_of (mc_outbound cr) sae")
      case None
      with old [of sae] show ?thesis by (simp add: count_list_0_iff)
    next
      case (Some x)
      with old [of sae] False have "drawn saes rs sae x" "\<not> ck_uses x < QKD_MESSAGES_PER_KEY" by auto
      with drawn_count [OF this(1)] show ?thesis by simp
    qed
    with rot [OF r(2)] drawn_new [OF len this, of m] show ?thesis by (simp add: r(1))
  qed
qed

definition draw_ok :: "string list \<Rightarrow> (qkd_key_material \<times> bool) list \<Rightarrow> nat \<Rightarrow> bool" where
  "draw_ok saes rs i \<longleftrightarrow>
    (snd (rs ! i) \<longleftrightarrow> count_list (take i saes) (saes ! i) mod QKD_MESSAGES_PER_KEY = 0) \<and>
    (\<exists>j \<le> i. saes ! j = saes ! i \<and> snd (rs ! j) \<and> fst (rs ! i) = fst (rs ! j) \<and>
       count_list (take i saes) (saes ! i) < count_list (take j saes) (saes ! i) + QKD_MESSAGES_PER_KEY)"

lemma draw_ok_earlier:
  assumes "i < length saes" "length rs = length saes"
  shows "draw_ok (saes @ [sae]) (rs @ [r]) i = draw_ok saes rs i"
proof -
  have "(saes @ [sae]) ! j = saes ! j" "(rs @ [r]) ! j = rs ! j" "take j (saes @ [sae]) = take j saes" if "j \<le> i" for j
    using that assms by (simp_all add: nth_append)
  then show ?thesis unfolding draw_ok_def by (metis (no_types, lifting) order_refl)
qed

lemma draw_ok_last:
  assumes "drawn (saes @ [sae]) (rs @ [r]) sae x" "ck_material x = fst r" "length rs = length saes"
    "snd r \<longleftrightarrow> count_list saes sae mod QKD_MESSAGES_PER_KEY = 0"
  shows "draw_ok (saes @ [sae]) (rs @ [r]) (length saes)"
  using assms(1)
proof (rule drawnE)
  fix j assume j: "j < length (saes @ [sae])" "(saes @ [sae]) ! j = sae" "snd ((rs @ [r]) ! j)" "ck_material x = fst ((rs @ [r]) ! j)"
    "ck_uses x \<le> QKD_MESSAGES_PER_KEY" "count_list (take j (saes @ [sae])) sae + ck_uses x = count_list (saes @ [sae]) sae"
  have last: "(rs @ [r]) ! length saes = r" "(saes @ [sae]) ! length saes = sae" "take (length saes) (saes @ [sae]) = saes"
    using nth_append_length [of rs r "[]"] by (simp_all add: assms(3))
  have "count_list (saes @ [sae]) sae = count_list saes sae + 1" by simp
  with j(5,6) have "count_list saes sae < count_list (take j (saes @ [sae])) sae + QKD_MESSAGES_PER_KEY" by linarith
  then show ?thesis unfolding draw_ok_def last using j(1-4) assms(2,4)
    by (intro conjI exI [of _ j]) simp_all
qed

lemma draws_rotate:
  assumes "draw_keys api c saes (k, crypto_new me) = (Ok rs, k', cr')"
  shows "rotation saes rs cr' \<and> (\<forall>i < length saes. draw_ok saes rs i)"
  using assms
proof (induction saes arbitrary: rs k' cr' rule: rev_induct)
  case Nil
  then show ?case by (auto simp: rotation_def crypto_new_def)
next
  case (snoc sae saes)
  obtain rs0 k0 cr0 where d0: "draw_keys api c saes (k, crypto_new me) = (Ok rs0, k0, cr0)"
    using snoc.prems unfolding draw_keys_snoc by (cases "draw_keys api c saes (k, crypto_new me)") (auto split: sum.splits)
  obtain r where r: "encryption_key api c sae (k0, cr0) = (Ok r, k', cr')" "rs = rs0 @ [r]"
    using snoc.prems unfolding draw_keys_snoc d0 by (cases "encryption_key api c sae (k0, cr0)") (auto split: sum.splits)
  note IH = snoc.IH [OF d0]
  then have len: "length rs0 = length saes" by (simp add: rotation_def)
  note step = rotation_step [OF IH [THEN conjunct1] r(1)]
  then have last: "draw_ok (saes @ [sae]) (rs0 @ [r]) (length saes)" by (elim conjE) (rule draw_ok_last [OF _ _ len])
  have "draw_ok (saes @ [sae]) (rs0 @ [r]) i" if "i < length (saes @ [sae])" for i
    using last IH that draw_ok_earlier [OF _ len, of i sae r] by (cases "i = length saes") simp_all
  with step show ?case unfolding r(2) by blast
qed

text \<open>C16: Keys rotate.  Over any sequence of messages to any mix of peers, the key manager is asked exactly for the first
  message to a peer and then for every tenth one; every other message uses the key of the latest request for its peer, and no
  key protects more than ten messages.\<close>

theorem key_rotation:
  assumes "draw_keys api c saes (k, crypto_new me) = (Ok rs, k', cr')"
  shows "length rs = length saes \<and> (\<forall>i < length saes.
    (snd (rs ! i) \<longleftrightarrow> count_list (take i saes) (saes ! i) mod QKD_MESSAGES_PER_KEY = 0) \<and>
    (\<exists>j \<le> i. saes ! j = saes ! i \<and> snd (rs ! j) \<and> fst (rs ! i) = fst (rs ! j) \<and>
       count_list (take i saes) (saes ! i) < count_list (take j saes) (saes ! i) + QKD_MESSAGES_PER_KEY))"
  using draws_rotate [OF assms, THEN conjunct1, unfolded rotation_def, THEN conjunct1]
    draws_rotate [OF assms, THEN conjunct2, unfolded draw_ok_def] by (rule conjI)

theorem key_rotation_witness:
  "\<exists>rs k' cr'. draw_keys sample_kme sample_client [''sae-2'', ''sae-2''] (0, crypto_new ''sae-1'') = (Ok rs, k', cr') \<and>
     snd (rs ! 0) \<and> \<not> snd (rs ! 1)"
proof -
  obtain rs k' cr' where d: "draw_keys sample_kme sample_client [''sae-2'', ''sae-2''] (0, crypto_new ''sae-1'') = (Ok rs, k', cr')"
    using sample_keys(1) by (simp add: encryption_key_def crypto_new_def insert_kv_def)
  note at = key_rotation [OF d, THEN conjunct2, THEN spec, THEN mp, THEN conjunct1]
  have "snd (rs ! 0)" "\<not> snd (rs ! 1)" using at [of 0] at [of 1] by simp_all
  with d show ?thesis by blast
qed

subsection \<open>Sealed publications\<close>

definition seals_ok :: "message_crypto \<Rightarrow> bool" where
  "seals_ok cr \<longleftrightarrow> map fst (mc_seals cr) = mc_seal_order cr \<and> distinct (mc_seal_order cr) \<and>
     length (mc_seal_order cr) \<le> QKD_TOPIC_SEAL_CACHE_SIZE"

lemma seals_ok_length: "seals_ok cr \<Longrightarrow> length (mc_seals cr) \<le> QKD_TOPIC_SEAL_CACHE_SIZE"
  unfolding seals_ok_def by (metis length_map)

lemma seals_ok_new: "seals_ok (crypto_new sae)"
  by (simp add: seals_ok_def crypto_new_def)

lemma remove_kv_first: "distinct (map fst (x # xs)) \<Longrightarrow> remove_kv (fst x) (x # xs) = xs"
  by (auto simp: remove_kv_def image_iff intro!: filter_True)

lemma evict_seals_ok:
  assumes "seals_ok cr" "n = length (mc_seal_order cr)"
  shows "seals_ok (evict_seals n cr) \<and> length (mc_seals (evict_seals n cr)) < QKD_TOPIC_SEAL_CACHE_SIZE \<and>
    (map_of (mc_seals cr) k = None \<longrightarrow> map_of (mc_seals (evict_seals n cr)) k = None)"
  using assms
proof (induction n arbitrary: cr)
  case 0
  then show ?case by (auto simp: seals_ok_def)
next
  case (Suc n)
  then obtain x xs where x: "mc_seals cr = x # xs" "mc_seal_order cr = fst x # map fst xs"
    by (cases "mc_seals cr") (auto simp: seals_ok_def)
  let ?cr = "cr\<lparr> mc_seals := remove_kv (fst x) (mc_seals cr), mc_seal_order := map fst xs \<rparr>"
  have rm: "remove_kv (fst x) (mc_seals cr) = xs" using Suc.prems(1) x remove_kv_first [of x xs] by (simp add: seals_ok_def)
  then have "seals_ok ?cr" "n = length (mc_seal_order ?cr)" using Suc.prems x by (auto simp: seals_ok_def)
  note IH = Suc.IH [OF this]
  show ?case
  proof (cases "QKD_TOPIC_SEAL_CACHE_SIZE \<le> length (mc_seals cr)")
    case True
    then have "evict_seals (Suc n) cr = evict_seals n ?cr" using x by simp
    with IH rm x show ?thesis by (auto split: if_splits)
  next
    case False
    with Suc.prems(1) show ?thesis by simp
  qed
qed

lemma encryption_key_seals:
  assumes "encryption_key api c sae (k, cr) = (r, k', cr')"
  shows "mc_seals cr' = mc_seals cr" "mc_seal_order cr' = mc_seal_order cr"
  using assms by (auto simp: encryption_key_def Let_def split: option.splits if_splits prod.splits sum.splits)

lemma seal_for_daemon_seals:
  assumes "seal_for_daemon api c cipher random store d ctx payload (k, cr) = (r, k', cr')"
  shows "mc_seals cr' = mc_seals cr" "mc_seal_order cr' = mc_seal_order cr"
  using assms
  by (auto simp: seal_for_daemon_def seal_with_key_for_def split: option.splits sum.splits prod.splits dest: encryption_key_seals)



end
