(* ===== verification/Graph_Cache.thy ===== *)
theory Graph_Cache
  imports Axon_Types Keyed_Table
begin

text \<open>
  The endpoints a node has created (\<open>GraphCache\<close> of \<^verbatim>\<open>graph_cache.rs\<close>) and the content filters of its subscriptions
  (\<^verbatim>\<open>filter.rs\<close>).  A hash table is an association list with distinct keys.
\<close>

record graph_cache =
  local_publishers :: "(u64 \<times> publisher_entity) list"
  local_subscriptions :: "(u64 \<times> subscription_entity) list"
  local_services :: "(u64 \<times> service_entity) list"
  local_clients :: "(u64 \<times> client_entity) list"
  gc_node_name :: string
  gc_node_namespace :: string

definition graph_cache_new :: "string \<Rightarrow> graph_cache" where
  "graph_cache_new name = \<lparr> local_publishers = [], local_subscriptions = [], local_services = [], local_clients = [],
     gc_node_name = name, gc_node_namespace = ''/'' \<rparr>"

definition register_publisher ::
  "u64 \<Rightarrow> string \<Rightarrow> string \<Rightarrow> u64 \<Rightarrow> qos_profile \<Rightarrow> bytes \<Rightarrow> graph_cache \<Rightarrow> graph_cache" where
  "register_publisher topic_hash topic_name topic_type node_id qos gid g =
     g\<lparr> local_publishers := insert_kv topic_hash
          \<lparr> pe_topic_name = topic_name, pe_topic_type = topic_type, pe_topic_hash = topic_hash, pe_node_id = node_id,
            pe_node_name = gc_node_name g, pe_node_namespace = gc_node_namespace g, pe_qos = qos, pe_gid = gid \<rparr>
          (local_publishers g) \<rparr>"

definition register_subscription ::
  "u64 \<Rightarrow> string \<Rightarrow> string \<Rightarrow> u64 \<Rightarrow> qos_profile \<Rightarrow> bytes \<Rightarrow> graph_cache \<Rightarrow> graph_cache" where
  "register_subscription topic_hash topic_name topic_type node_id qos gid g =
     g\<lparr> local_subscriptions := insert_kv topic_hash
          \<lparr> pe_topic_name = topic_name, pe_topic_type = topic_type, pe_topic_hash = topic_hash, pe_node_id = node_id,
            pe_node_name = gc_node_name g, pe_node_namespace = gc_node_namespace g, pe_qos = qos, pe_gid = gid \<rparr>
          (local_subscriptions g) \<rparr>"

definition register_service :: "u64 \<Rightarrow> string \<Rightarrow> string \<Rightarrow> u64 \<Rightarrow> graph_cache \<Rightarrow> graph_cache" where
  "register_service service_id service_name service_type node_id g =
     g\<lparr> local_services := insert_kv service_id
          \<lparr> se_service_name = service_name, se_service_type = service_type, se_service_id = service_id, se_node_id = node_id \<rparr>
          (local_services g) \<rparr>"

definition register_client :: "u64 \<Rightarrow> string \<Rightarrow> string \<Rightarrow> u64 \<Rightarrow> graph_cache \<Rightarrow> graph_cache" where
  "register_client client_id service_name service_type node_id g =
     g\<lparr> local_clients := insert_kv client_id
          \<lparr> ce_service_name = service_name, ce_service_type = service_type, ce_client_id = client_id, ce_node_id = node_id \<rparr>
          (local_clients g) \<rparr>"

record content_filter =
  cf_name :: string
  cf_expression :: string
  cf_parameters :: "string \<Rightarrow> string option"

definition content_filter_new :: "string \<Rightarrow> string \<Rightarrow> (string \<Rightarrow> string option) \<Rightarrow> content_filter" where
  "content_filter_new name expression parameters =
     \<lparr> cf_name = name, cf_expression = expression, cf_parameters = parameters \<rparr>"

definition content_filter_is_empty :: "content_filter \<Rightarrow> bool" where
  "content_filter_is_empty f = (cf_expression f = [])"

end
