(* ===== verification/Access_Control.thy ===== *)
theory Access_Control
  imports Axon_Types Security_Mode Message_Crypto
begin

text \<open>
  Authorization and audit (\<open>AclEngine\<close>, \<open>AuditLog\<close> and \<open>validate_runtime\<close> of \<^verbatim>\<open>security.rs\<close>).

  The pattern library is a parameter: \<open>compile\<close> is \<open>glob::Pattern::new\<close> and \<open>matches\<close> is \<open>Pattern::matches\<close>.
  The time stamp of an audit entry, which nothing reads, is left out.
\<close>

subsection \<open>Access control\<close>

record 'p acl_engine =
  allow_publish :: "'p list"
  allow_subscribe :: "'p list"

definition acl_new :: "'p acl_engine" where
  "acl_new = \<lparr> allow_publish = [], allow_subscribe = [] \<rparr>"

definition add_rule ::
  "(string \<Rightarrow> 'p option) \<Rightarrow> acl_direction \<Rightarrow> string \<Rightarrow> 'p acl_engine \<Rightarrow> bool \<times> 'p acl_engine" where
  "add_rule compile dir pattern e =
     (case compile pattern of
        None \<Rightarrow> (False, e)
      | Some p \<Rightarrow>
          (True,
           (case dir of
              Publish \<Rightarrow> e\<lparr> allow_publish := allow_publish e @ [p] \<rparr>
            | Subscribe \<Rightarrow> e\<lparr> allow_subscribe := allow_subscribe e @ [p] \<rparr>)))"

definition acl_rules :: "string \<Rightarrow> string list" where
  "acl_rules rules = filter (\<lambda>v. v \<noteq> []) (map trim (split_on (CHR '','') rules))"

definition acl_from_env :: "(string \<Rightarrow> 'p option) \<Rightarrow> environment \<Rightarrow> 'p acl_engine" where
  "acl_from_env compile env =
     foldl (\<lambda>e (var, dir).
        (case env_var env var of
           None \<Rightarrow> e
         | Some rules \<Rightarrow> foldl (\<lambda>e pattern. snd (add_rule compile dir pattern e)) e (acl_rules rules)))
       acl_new [(''AXON_ACL_PUBLISH'', Publish), (''AXON_ACL_SUBSCRIBE'', Subscribe)]"

definition acl_check :: "('p \<Rightarrow> string \<Rightarrow> bool) \<Rightarrow> acl_direction \<Rightarrow> string \<Rightarrow> 'p acl_engine \<Rightarrow> bool" where
  "acl_check matches dir topic e =
     (let patterns = (case dir of Publish \<Rightarrow> allow_publish e | Subscribe \<Rightarrow> allow_subscribe e) in
      patterns = [] \<or> list_ex (\<lambda>p. matches p topic) patterns)"

subsection \<open>The audit log\<close>

datatype audit_direction = Send | Recv

record audit_log =
  al_entries :: "(audit_direction \<times> string \<times> nat) list"
  al_max_entries :: nat

definition audit_new :: "nat \<Rightarrow> audit_log" where
  "audit_new n = \<lparr> al_entries = [], al_max_entries = n \<rparr>"

definition audit :: "audit_direction \<Rightarrow> string \<Rightarrow> nat \<Rightarrow> audit_log \<Rightarrow> audit_log" where
  "audit dir topic n l =
     (let kept = (if al_max_entries l \<le> length (al_entries l) then tl (al_entries l) else al_entries l) in
      l\<lparr> al_entries := kept @ [(dir, topic, n)] \<rparr>)"

definition recent :: "audit_log \<Rightarrow> (audit_direction \<times> string \<times> nat) list" where
  "recent l = al_entries l"

subsection \<open>Start-up checks and payloads outside key distribution\<close>

datatype runtime_error = Mode_invalid string | Cipher_invalid string | Qkd_invalid qkd_error | Obsolete string

definition OBSOLETE_VARIABLES :: "string list" where
  "OBSOLETE_VARIABLES = [''AXON_SECURITY_PROFILE'', ''AXON_ENCRYPTION_MODE'', ''AXON_ENCRYPTION_KEY'']"

definition mode_from_env :: "environment \<Rightarrow> (security_mode, string) rust_result" where
  "mode_from_env env = mode_from_value (env_var env ''AXON_SECURITY_MODE'')"

definition cipher_from_env :: "environment \<Rightarrow> (quic_cipher, string) rust_result" where
  "cipher_from_env env = cipher_from_value (env_var env ''AXON_QUIC_CIPHER'')"

definition map_err :: "('e \<Rightarrow> 'f) \<Rightarrow> ('a, 'e) rust_result \<Rightarrow> ('a, 'f) rust_result" where
  "map_err f r = (case r of Err e \<Rightarrow> Err (f e) | Ok x \<Rightarrow> Ok x)"

definition validate_runtime ::
  "(string \<Rightarrow> 'u option) \<Rightarrow> ('u \<Rightarrow> string) \<Rightarrow> (path \<Rightarrow> string option) \<Rightarrow> (path \<Rightarrow> bool) \<Rightarrow> path option \<Rightarrow>
   environment \<Rightarrow> (security_mode \<times> quic_cipher, runtime_error) rust_result" where
  "validate_runtime parse_url scheme read_text is_file current_exe env =
     bind_ok (map_err Mode_invalid (mode_from_env env)) (\<lambda>mode.
     bind_ok (map_err Cipher_invalid (cipher_from_env env)) (\<lambda>cipher.
     bind_ok
       (if mode = Qkd
        then bind_ok (map_err Qkd_invalid (qkd_config_from_env parse_url scheme read_text is_file current_exe env)) (\<lambda>_. Ok ())
        else Ok ()) (\<lambda>_.
     case find (\<lambda>v. env v \<noteq> None) OBSOLETE_VARIABLES of
       Some v \<Rightarrow> Err (Obsolete v)
     | None \<Rightarrow> Ok (mode, cipher))))"

text \<open>\<open>seal_for_daemon\<close>, \<open>seal_for_reply\<close> and \<open>open_wire\<close> of the classic mode, where the transport encrypts.\<close>

definition classic_seal :: "wire_context \<Rightarrow> bytes \<Rightarrow> (bytes, wire_error) rust_result" where
  "classic_seal ctx payload = Ok payload"

definition classic_seal_reply :: "string \<Rightarrow> wire_context \<Rightarrow> bytes \<Rightarrow> (bytes, wire_error) rust_result" where
  "classic_seal_reply token ctx payload = Ok payload"

definition classic_open :: "bytes \<Rightarrow> wire_context \<Rightarrow> (opened_payload, wire_error) rust_result" where
  "classic_open wire ctx = Ok \<lparr> op_data = wire, op_qkd_reply = None \<rparr>"

subsection \<open>Results\<close>

definition configured :: "environment \<Rightarrow> acl_direction \<Rightarrow> string list" where
  "configured env dir =
     (case env_var env (case dir of Publish \<Rightarrow> ''AXON_ACL_PUBLISH'' | Subscribe \<Rightarrow> ''AXON_ACL_SUBSCRIBE'') of
        None \<Rightarrow> [] | Some rules \<Rightarrow> acl_rules rules)"

lemma add_rules:
  "foldl (\<lambda>e pattern. snd (add_rule compile Publish pattern e)) e ps =
     e\<lparr> allow_publish := allow_publish e @ List.map_filter compile ps \<rparr>"
  "foldl (\<lambda>e pattern. snd (add_rule compile Subscribe pattern e)) e ps =
     e\<lparr> allow_subscribe := allow_subscribe e @ List.map_filter compile ps \<rparr>"
  by (induction ps arbitrary: e) (auto simp: add_rule_def map_filter_simps split: option.splits)

text \<open>Note: Which topics may be used.  An engine built from the environment allows a topic when one of the patterns configured
  for that direction matches it; patterns that do not compile are skipped, and with no usable pattern every topic is
  allowed, so a setting that consists only of malformed patterns switches the check off.\<close>

theorem acl_decides:
  "acl_check matches dir topic (acl_from_env compile env) \<longleftrightarrow>
     (let ps = List.map_filter compile (configured env dir) in ps = [] \<or> (\<exists>p. p \<in> set ps \<and> matches p topic))"
  by (cases dir) (auto simp: acl_from_env_def acl_check_def acl_new_def configured_def add_rules list_ex_iff Let_def
      map_filter_simps split: option.splits)

text \<open>Note: The audit log keeps the most recent entries.  After any sequence of entries it holds exactly the last ones, in order, as
  many as its capacity allows; a capacity of 0 still keeps one entry.\<close>

theorem audit_keeps_recent:
  "recent (foldl (\<lambda>l (dir, topic, m). audit dir topic m l) (audit_new n) xs) = drop (length xs - max 1 n) xs"
proof -
  have "al_entries (foldl (\<lambda>l (dir, topic, m). audit dir topic m l) (audit_new n) xs) = drop (length xs - max 1 n) xs \<and>
      al_max_entries (foldl (\<lambda>l (dir, topic, m). audit dir topic m l) (audit_new n) xs) = n"
  proof (induction xs rule: rev_induct)
    case (snoc x xs)
    then show ?case
      by (cases x) (auto simp: audit_def Let_def drop_Suc [symmetric] tl_drop drop_tl Suc_diff_le max_def split: if_splits)
  qed (simp add: audit_new_def)
  then show ?thesis by (simp add: recent_def)
qed

text \<open>Note: What a daemon checks before it starts.  It starts only with a known mode and cipher, with none of the retired
  settings present, and in key distribution mode only with a complete configuration of the key manager.\<close>

theorem runtime_validated:
  "validate_runtime parse_url scheme read_text is_file current_exe env = Ok (mode, cipher) \<longleftrightarrow>
     mode_from_env env = Ok mode \<and> cipher_from_env env = Ok cipher \<and>
     (mode = Qkd \<longrightarrow> (\<exists>cfg. qkd_config_from_env parse_url scheme read_text is_file current_exe env = Ok cfg)) \<and>
     env ''AXON_SECURITY_PROFILE'' = None \<and> env ''AXON_ENCRYPTION_MODE'' = None \<and> env ''AXON_ENCRYPTION_KEY'' = None"
proof -
  have "find (\<lambda>v. env v \<noteq> None) OBSOLETE_VARIABLES = None \<longleftrightarrow>
     env ''AXON_SECURITY_PROFILE'' = None \<and> env ''AXON_ENCRYPTION_MODE'' = None \<and> env ''AXON_ENCRYPTION_KEY'' = None"
    by (simp add: OBSOLETE_VARIABLES_def find_None_iff)
  then show ?thesis
    by (auto simp: validate_runtime_def bind_ok_eq_Ok map_err_def split: option.splits sum.splits if_splits)
qed

theorem runtime_validated_witness:
  "validate_runtime (\<lambda>s. Some s) (\<lambda>u. u) (\<lambda>_. None) (\<lambda>_. False) None (\<lambda>_. None) = Ok (Classic, ChaCha20Poly1305)"
proof -
  have "mode_from_env (\<lambda>_. None) = Ok Classic" "cipher_from_env (\<lambda>_. None) = Ok ChaCha20Poly1305"
    by (simp_all add: mode_from_env_def cipher_from_env_def env_var_def mode_from_value_def cipher_from_value_def normalize_value_def)
  then show ?thesis by (simp add: runtime_validated)
qed

end
