(* ===== verification/Session_State.thy ===== *)
theory Session_State
  imports Graph_Cache Ring_Segment Local_PubSub Events Resource_Bucket Subscriber_Queue Discovery_Shm Access_Control
begin

text \<open>
  The state of a session (\<open>Session\<close> of \<^verbatim>\<open>session/mod.rs\<close>) and what all its operations use.

  A session holds reference-counted channel objects, several of which may be mapped to one shared segment, and two
  of its tables may hold the same object.  So \<open>host\<close> keeps the objects in a list, a session refers to them by position, and
  the contents of a ring are those of its inode in the kernel's table (\<open>pubsub_at\<close>, \<open>put_pubsub\<close>).  The discovery
  table is part of \<open>host\<close>; a session that is registered with a daemon has a slot of it.  Calls of the network
  transport are recorded in the session in the order they are made.  \<open>runtime\<close> holds what the system answers during one
  operation: system calls, new event descriptors, the clock.
\<close>

subsection \<open>Channels of a host\<close>

record pubsub_object =
  po_ino :: nat
  po_lp :: local_pubsub

record host =
  h_shm :: shm_world
  h_objects :: "pubsub_object list"
  h_counters :: "int \<Rightarrow> nat"
  h_table :: shm_discovery

record runtime =
  rt_os :: shm_os
  rt_others :: "nat \<Rightarrow> shm_world \<Rightarrow> shm_world"
  rt_time :: nat
  rt_eventfd :: "string \<Rightarrow> (int, io_error) rust_result"
  rt_cross_fd :: "string \<Rightarrow> int"
  rt_now :: nat
  rt_now_ms :: u64
  rt_signal_ok :: "int \<Rightarrow> bool"
  rt_env :: environment

definition ring_at :: "nat \<Rightarrow> host \<Rightarrow> ring_shm" where
  "ring_at ino h = (case shm_inodes (h_shm h) ino of Some seg \<Rightarrow> seg_ring seg | None \<Rightarrow> zero_ring)"

definition pubsub_at :: "nat \<Rightarrow> host \<Rightarrow> local_pubsub" where
  "pubsub_at oid h = (po_lp (h_objects h ! oid))\<lparr> lp_shm := ring_at (po_ino (h_objects h ! oid)) h, lp_counters := h_counters h \<rparr>"

definition put_pubsub :: "nat \<Rightarrow> local_pubsub \<Rightarrow> host \<Rightarrow> host" where
  "put_pubsub oid lp h =
     (let ino = po_ino (h_objects h ! oid) in
      h\<lparr> h_objects := (h_objects h)[oid := \<lparr> po_ino = ino, po_lp = lp \<rparr>],
         h_shm := (h_shm h)\<lparr> shm_inodes := (shm_inodes (h_shm h))
           (ino := map_option (\<lambda>seg. seg\<lparr> seg_ring := lp_shm lp \<rparr>) (shm_inodes (h_shm h) ino)) \<rparr>,
         h_counters := lp_counters lp \<rparr>)"

text \<open>\<open>LocalPubSub::create_or_open\<close>: the ring, an event descriptor, and the descriptor another process offers for the
  same name, or \<open>-1\<close>.\<close>

definition pubsub_create_or_open ::
  "runtime \<Rightarrow> string \<Rightarrow> u32 \<Rightarrow> u32 \<Rightarrow> host \<Rightarrow> (nat, io_error) rust_result \<times> host" where
  "pubsub_create_or_open rt name depth bytes_per_slot h =
     (case create_or_open (rt_os rt) (rt_others rt) (rt_time rt) name depth bytes_per_slot (h_shm h) of
        (w, Err e) \<Rightarrow> (Err e, h\<lparr> h_shm := w \<rparr>)
      | (w, Ok (ino, rb)) \<Rightarrow>
          (case rt_eventfd rt name of
             Err e \<Rightarrow> (Err e, h\<lparr> h_shm := w \<rparr>)
           | Ok fd \<Rightarrow>
               (Ok (length (h_objects h)),
                h\<lparr> h_shm := w,
                   h_objects := h_objects h @
                     [\<lparr> po_ino = ino,
                        po_lp = \<lparr> lp_ring = rb, lp_shm = zero_ring, lp_eventfd = fd, lp_cross_fd = rt_cross_fd rt name,
                                  lp_counters = (\<lambda>_. 0), lp_timestamps = (\<lambda>_. None), lp_publisher_gids = (\<lambda>_. None),
                                  lp_loaned = (\<lambda>_. None) \<rparr> \<rparr>] \<rparr>)))"

subsection \<open>Sessions\<close>

type_synonym sock_addr = "bytes \<times> u16"

datatype transport_call =
    Register_recv u64 nat
  | Remove_recv u64
  | Register_service_handler u64
  | Remove_service_handler u64
  | Remove_pending_responses u64
  | Send_message u64 u64 bytes u64 "nat option"
  | Send_retained u64 u64 "(u64 \<times> bytes) list"
  | Service_call u64 u64 bytes "sock_addr option"
  | Push_pending_response u64 bytes u64
  | Complete_response u64 bytes u64 bytes
  | Set_peer_daemon u64 u64
  | Set_peer_addrs u64 "sock_addr list"
  | Connect_async u64 sock_addr
  | Transport_shutdown

record 'p session =
  s_node_id :: u64
  s_domain_id :: u32
  s_publishers :: "u64 \<Rightarrow> nat option"
  s_publisher_counts :: "u64 \<Rightarrow> nat option"
  s_subscriptions :: "u64 \<Rightarrow> nat option"
  s_subscription_counts :: "u64 \<Rightarrow> nat option"
  s_transport :: "transport_call list option"
  s_remote_routes :: "u64 \<Rightarrow> sock_addr list option"
  s_request_subs :: "u64 \<Rightarrow> nat option"
  s_server_counts :: "u64 \<Rightarrow> nat option"
  s_response_pubs :: "u64 \<Rightarrow> nat option"
  s_request_pubs :: "u64 \<Rightarrow> nat option"
  s_client_counts :: "u64 \<Rightarrow> nat option"
  s_response_subs :: "u64 \<Rightarrow> nat option"
  s_request_sequence :: u64
  s_budgets :: "u64 \<Rightarrow> bucket option"
  s_acl :: "'p acl_engine"
  s_graph :: graph_cache
  s_node_name_shared :: string
  s_known_addrs :: "(u64 \<times> sock_addr) list"
  s_published_topics :: "u64 list"
  s_subscribed_topics :: "u64 list"
  s_topic_names :: "u64 \<Rightarrow> string option"
  s_topic_types :: "u64 \<Rightarrow> string option"
  s_topic_qos :: "u64 \<times> u64 \<Rightarrow> remote_qos option"
  s_graph_fds :: "int list"
  s_monitor :: "event_monitor option"
  s_timestamps :: "u64 \<times> u64 \<Rightarrow> nat option"
  s_filters :: "u64 \<Rightarrow> content_filter option"
  s_recv_queues :: "u64 \<Rightarrow> subscriber_queue option"
  s_retained :: "(u64 \<times> (u64 \<times> bytes) list) list"
  s_retained_peers :: "(u64 \<times> u64 list) list"
  s_retained_pending :: "(u64 \<times> u64 list) list"
  s_retained_retry :: bool
  s_daemon_slot :: "nat option"
  s_last_response_gen :: u64
  s_shutdown :: bool

definition session_new :: "u64 \<Rightarrow> u32 \<Rightarrow> 'p acl_engine \<Rightarrow> event_monitor option \<Rightarrow> 'p session" where
  "session_new node_id domain_id acl monitor =
     (let name = ''node_'' @ show_nat (unat node_id) in
      \<lparr> s_node_id = node_id, s_domain_id = domain_id, s_publishers = (\<lambda>_. None), s_publisher_counts = (\<lambda>_. None),
        s_subscriptions = (\<lambda>_. None), s_subscription_counts = (\<lambda>_. None), s_transport = None,
        s_remote_routes = (\<lambda>_. None), s_request_subs = (\<lambda>_. None), s_server_counts = (\<lambda>_. None),
        s_response_pubs = (\<lambda>_. None), s_request_pubs = (\<lambda>_. None), s_client_counts = (\<lambda>_. None),
        s_response_subs = (\<lambda>_. None), s_request_sequence = 1, s_budgets = (\<lambda>_. None), s_acl = acl,
        s_graph = graph_cache_new name, s_node_name_shared = name, s_known_addrs = [], s_published_topics = [],
        s_subscribed_topics = [], s_topic_names = (\<lambda>_. None), s_topic_types = (\<lambda>_. None), s_topic_qos = (\<lambda>_. None),
        s_graph_fds = [], s_monitor = monitor, s_timestamps = (\<lambda>_. None), s_filters = (\<lambda>_. None),
        s_recv_queues = (\<lambda>_. None), s_retained = [], s_retained_peers = [], s_retained_pending = [],
        s_retained_retry = False, s_daemon_slot = None, s_last_response_gen = 0, s_shutdown = False \<rparr>)"

text \<open>A call of the transport, if the session has one.\<close>

definition call_transport :: "transport_call \<Rightarrow> 'p session \<Rightarrow> 'p session" where
  "call_transport c s = s\<lparr> s_transport := map_option (\<lambda>cs. cs @ [c]) (s_transport s) \<rparr>"

definition request_shutdown :: "'p session \<Rightarrow> 'p session" where
  "request_shutdown s =
     (if s_shutdown s then s else call_transport Transport_shutdown (s\<lparr> s_shutdown := True \<rparr>))"

definition session_assert_liveliness :: "nat \<Rightarrow> 'p session \<Rightarrow> 'p session" where
  "session_assert_liveliness now s = s\<lparr> s_monitor := map_option (assert_liveliness now (s_node_id s)) (s_monitor s) \<rparr>"

text \<open>A descriptor whose write fails for good is dropped.\<close>

definition signal_graph_eventfds :: "runtime \<Rightarrow> 'p session \<Rightarrow> 'p session" where
  "signal_graph_eventfds rt s = s\<lparr> s_graph_fds := filter (rt_signal_ok rt) (s_graph_fds s) \<rparr>"

subsection \<open>Topics\<close>

definition SERVICE_REQUEST_PREFIX :: string where "SERVICE_REQUEST_PREFIX = ''__axon_service_request:''"
definition SERVICE_RESPONSE_PREFIX :: string where "SERVICE_RESPONSE_PREFIX = ''__axon_service_response:''"

definition starts_with :: "string \<Rightarrow> string \<Rightarrow> bool" where
  "starts_with p s \<longleftrightarrow> take (length p) s = p"

definition is_service_topic_metadata :: "string \<Rightarrow> bool" where
  "is_service_topic_metadata name \<longleftrightarrow> starts_with SERVICE_REQUEST_PREFIX name \<or> starts_with SERVICE_RESPONSE_PREFIX name"

definition type_capacity :: "string \<Rightarrow> nat option" where
  "type_capacity t =
     map_of [(''sensor_msgs/msg/Image'', 8 * 1024 * 1024), (''sensor_msgs/msg/CompressedImage'', 4 * 1024 * 1024),
       (''sensor_msgs/msg/PointCloud2'', 16 * 1024 * 1024), (''nav_msgs/msg/OccupancyGrid'', 4 * 1024 * 1024),
       (''nav2_msgs/msg/Costmap'', 16 * 1024 * 1024), (''nav2_msgs/msg/VoxelGrid'', 16 * 1024 * 1024),
       (''map_msgs/msg/OccupancyGridUpdate'', 4 * 1024 * 1024), (''octomap_msgs/msg/Octomap'', 16 * 1024 * 1024),
       (''rtabmap_msgs/msg/MapData'', 64 * 1024 * 1024), (''rtabmap_msgs/msg/SensorData'', 64 * 1024 * 1024),
       (''rtabmap_msgs/msg/RGBDImage'', 64 * 1024 * 1024), (''rtabmap_msgs/msg/Info'', 8 * 1024 * 1024),
       (''rtabmap_msgs/msg/OdomInfo'', 8 * 1024 * 1024), (''rtabmap_msgs/msg/MapGraph'', 4 * 1024 * 1024)] t"

definition topic_message_capacity :: "environment \<Rightarrow> string \<Rightarrow> nat \<Rightarrow> nat" where
  "topic_message_capacity env topic_type requested =
     max (case Option.bind (env_var env ''AXON_MAX_MESSAGE_SIZE'') (parse_unsigned 64) of
            Some n \<Rightarrow> n
          | None \<Rightarrow> (case type_capacity topic_type of Some n \<Rightarrow> n | None \<Rightarrow> requested))
       requested"

definition topic_ring_depth :: "string \<Rightarrow> string \<Rightarrow> qos_profile \<Rightarrow> nat" where
  "topic_ring_depth topic_name topic_type qos =
     (case history qos of
        KeepAll \<Rightarrow> 256
      | KeepLast depth \<Rightarrow>
          (let min_depth =
             (if topic_name = ''/clock'' \<or> topic_type = ''rosgraph_msgs/msg/Clock'' then 64
              else if topic_type = ''sensor_msgs/msg/PointCloud2'' then 8 else 2) in
           clamp (unat depth) min_depth 4096))"

definition topic_slot_size :: "environment \<Rightarrow> string \<Rightarrow> qos_profile \<Rightarrow> u32" where
  "topic_slot_size env topic_type qos =
     of_nat (min (topic_message_capacity env topic_type (unat (max_message_size qos))) (2 ^ 32 - 1))"

definition local_channel_name :: "u32 \<Rightarrow> u64 \<Rightarrow> string" where
  "local_channel_name domain_id topic_hash =
     ''domain_'' @ show_nat (unat domain_id) @ ''_topic_'' @ show_nat (unat topic_hash)"

definition add_published_topic :: "u64 \<Rightarrow> 'p session \<Rightarrow> 'p session" where
  "add_published_topic t s =
     (if t \<in> set (s_published_topics s) then s else s\<lparr> s_published_topics := s_published_topics s @ [t] \<rparr>)"

definition add_subscribed_topic :: "u64 \<Rightarrow> 'p session \<Rightarrow> 'p session" where
  "add_subscribed_topic t s =
     (if t \<in> set (s_subscribed_topics s) then s else s\<lparr> s_subscribed_topics := s_subscribed_topics s @ [t] \<rparr>)"

text \<open>\<open>*map.entry(k).or_default() += 1\<close>.\<close>

definition count_up :: "u64 \<Rightarrow> (u64 \<Rightarrow> nat option) \<Rightarrow> (u64 \<Rightarrow> nat option)" where
  "count_up k m = m(k \<mapsto> (case m k of Some n \<Rightarrow> n + 1 | None \<Rightarrow> 1))"

subsection \<open>Access\<close>

definition strip_prefix :: "string \<Rightarrow> string \<Rightarrow> string option" where
  "strip_prefix p s = (if starts_with p s then Some (drop (length p) s) else None)"

definition topic_label :: "string \<Rightarrow> string" where
  "topic_label name =
     (case strip_prefix SERVICE_REQUEST_PREFIX name of
        Some l \<Rightarrow> l
      | None \<Rightarrow> (case strip_prefix SERVICE_RESPONSE_PREFIX name of Some l \<Rightarrow> l | None \<Rightarrow> name))"

definition acl_allows :: "('p \<Rightarrow> string \<Rightarrow> bool) \<Rightarrow> acl_direction \<Rightarrow> u64 \<Rightarrow> 'p session \<Rightarrow> bool" where
  "acl_allows matches dir topic s \<longleftrightarrow>
     (case s_topic_names s topic of Some name \<Rightarrow> acl_check matches dir (topic_label name) (s_acl s) | None \<Rightarrow> False) \<or>
     acl_check matches dir (hex topic) (s_acl s)"

definition add_acl :: "(string \<Rightarrow> 'p option) \<Rightarrow> acl_direction \<Rightarrow> string \<Rightarrow> bool \<Rightarrow> 'p session \<Rightarrow> bool \<times> 'p session" where
  "add_acl compile dir pattern allowed s =
     (let (b, e) = add_rule compile dir pattern (s_acl s) in (b, s\<lparr> s_acl := e \<rparr>))"

subsection \<open>Routes set by hand\<close>

definition add_remote_route :: "u64 \<Rightarrow> sock_addr \<Rightarrow> 'p session \<Rightarrow> 'p session" where
  "add_remote_route topic addr s =
     (let addrs = (case s_remote_routes s topic of Some a \<Rightarrow> a | None \<Rightarrow> []) in
      s\<lparr> s_remote_routes := (s_remote_routes s)(topic \<mapsto> if addr \<in> set addrs then addrs else addrs @ [addr]) \<rparr>)"

definition set_node_addr :: "u64 \<Rightarrow> sock_addr \<Rightarrow> 'p session \<Rightarrow> 'p session" where
  "set_node_addr node addr s = s\<lparr> s_known_addrs := insert_kv node addr (s_known_addrs s) \<rparr>"

definition add_remote_service_route :: "u64 \<Rightarrow> u64 \<Rightarrow> 'p session \<Rightarrow> 'p session" where
  "add_remote_service_route service_id node s =
     (case map_of (s_known_addrs s) node of
        None \<Rightarrow> s
      | Some addr \<Rightarrow>
          (let push = (\<lambda>t m. m(t \<mapsto> (case m t of Some a \<Rightarrow> a | None \<Rightarrow> []) @ [addr])) in
           s\<lparr> s_remote_routes :=
                push (service_response_topic service_id) (push (service_request_topic service_id) (s_remote_routes s)) \<rparr>))"

subsection \<open>Registration with the daemon\<close>

definition fixed_bytes :: "string \<Rightarrow> bytes" where
  "fixed_bytes s = (let bs = take (MAX_NAME_LEN - 1) (as_bytes s) in bs @ replicate (MAX_NAME_LEN - length bs) 0)"

definition topic_entry_for :: "u64 \<Rightarrow> string \<Rightarrow> string \<Rightarrow> qos_profile \<Rightarrow> 'p session \<Rightarrow> topic_entry" where
  "topic_entry_for topic_hash topic_name topic_type qos s =
     \<lparr> te_hash = topic_hash, te_type_hash = 0, te_qos = qos_to_entry_fields qos,
       te_topic_name = fixed_bytes topic_name, te_topic_type = fixed_bytes topic_type,
       te_node_name = fixed_bytes (gc_node_name (s_graph s)), te_node_namespace = fixed_bytes (gc_node_namespace (s_graph s)) \<rparr>"

definition change_entry :: "nat \<Rightarrow> (node_table_entry \<Rightarrow> node_table_entry) \<Rightarrow> host \<Rightarrow> host" where
  "change_entry slot f h =
     h\<lparr> h_table := (h_table h)\<lparr>
          node_table := (node_table (h_table h))[slot := f (node_table (h_table h) ! slot)],
          sd_header := (sd_header (h_table h))\<lparr> sh_generation := sh_generation (sd_header (h_table h)) + 1 \<rparr> \<rparr> \<rparr>"

definition register_published_topic_with_daemon ::
  "u64 \<Rightarrow> string \<Rightarrow> string \<Rightarrow> qos_profile \<Rightarrow> 'p session \<Rightarrow> host \<Rightarrow> host" where
  "register_published_topic_with_daemon topic_hash topic_name topic_type qos s h =
     (case s_daemon_slot s of
        None \<Rightarrow> h
      | Some slot \<Rightarrow>
          (let count = unat (ne_pub_count (node_table (h_table h) ! slot)) in
           if count < MAX_TOPICS_PER_NODE
           then change_entry slot (\<lambda>e. e\<lparr>
                  ne_published := (ne_published e)[count := topic_entry_for topic_hash topic_name topic_type qos s],
                  ne_pub_count := of_nat (count + 1) \<rparr>) h
           else h))"

definition register_subscribed_topic_with_daemon ::
  "u64 \<Rightarrow> string \<Rightarrow> string \<Rightarrow> qos_profile \<Rightarrow> 'p session \<Rightarrow> host \<Rightarrow> host" where
  "register_subscribed_topic_with_daemon topic_hash topic_name topic_type qos s h =
     (case s_daemon_slot s of
        None \<Rightarrow> h
      | Some slot \<Rightarrow>
          (let count = unat (ne_sub_count (node_table (h_table h) ! slot)) in
           if count < MAX_TOPICS_PER_NODE
           then change_entry slot (\<lambda>e. e\<lparr>
                  ne_subscribed := (ne_subscribed e)[count := topic_entry_for topic_hash topic_name topic_type qos s],
                  ne_sub_count := of_nat (count + 1) \<rparr>) h
           else h))"

definition unregister_from_daemon :: "'p session \<Rightarrow> host \<Rightarrow> host" where
  "unregister_from_daemon s h =
     (case s_daemon_slot s of
        None \<Rightarrow> h
      | Some slot \<Rightarrow> change_entry slot (\<lambda>e. e\<lparr> ne_state := slot_code Leaving \<rparr>) h)"

text \<open>\<open>ns.trim_end_matches('/')\<close>.\<close>

definition trim_end_slashes :: "string \<Rightarrow> string" where
  "trim_end_slashes s = rev (dropWhile (\<lambda>c. c = CHR ''/'') (rev s))"

definition set_node_name :: "runtime \<Rightarrow> string \<Rightarrow> string \<Rightarrow> 'p session \<times> host \<Rightarrow> 'p session \<times> host" where
  "set_node_name rt name given_ns sh =
     (let (s, h) = sh;
          ns = (if given_ns = [] then ''/'' else given_ns);
          full_name = (if ns = ''/'' then name else trim_end_slashes ns @ ''/'' @ name);
          s' = s\<lparr> s_graph := (s_graph s)\<lparr> gc_node_name := name, gc_node_namespace := ns \<rparr>, s_node_name_shared := full_name \<rparr> in
      (signal_graph_eventfds rt s',
       (case s_daemon_slot s of
          None \<Rightarrow> h
        | Some slot \<Rightarrow> change_entry slot (\<lambda>e. e\<lparr> ne_node_name := fixed_bytes name, ne_node_namespace := fixed_bytes ns \<rparr>) h)))"

definition set_daemon_slot :: "nat \<Rightarrow> 'p session \<Rightarrow> 'p session" where
  "set_daemon_slot slot s = s\<lparr> s_daemon_slot := Some slot \<rparr>"

end
