(* ===== verification/Session_Endpoints.thy ===== *)
theory Session_Endpoints
  imports Session_State
begin

text \<open>
  Creating and destroying endpoints: publishers (\<^verbatim>\<open>session/publish.rs\<close>), subscriptions
  (\<^verbatim>\<open>session/subscribe.rs\<close>), services and clients (\<^verbatim>\<open>session/service.rs\<close>).  Every handler is a function on the
  session and its host, with all its changes in program order.  The lemmas show that the reference counts and the channel tables
  stay consistent over any sequence of calls, and what a destroyed endpoint leaves behind.
\<close>

datatype session_error =
    Access_denied | Budget_exceeded | Endpoint_not_found string | Create_failed string io_error | Channel_error ring_error
  | Qos_incompatible | Message_expired | Buffer_too_small | Unexpected_envelope | No_data

subsection \<open>Helpers\<close>

text \<open>Use the channel the session already has, if its slots are large enough, or open the segment.\<close>

definition channel_for ::
  "runtime \<Rightarrow> nat option \<Rightarrow> string \<Rightarrow> nat \<Rightarrow> u32 \<Rightarrow> host \<Rightarrow> (nat, io_error) rust_result \<times> host" where
  "channel_for rt existing name depth slot_bytes h =
     (case existing of
        Some oid \<Rightarrow>
          if unat slot_bytes \<le> lp_payload_capacity (pubsub_at oid h) then (Ok oid, h)
          else pubsub_create_or_open rt name (of_nat depth) slot_bytes h
      | None \<Rightarrow> pubsub_create_or_open rt name (of_nat depth) slot_bytes h)"

definition or_else :: "'a option \<Rightarrow> 'a option \<Rightarrow> 'a option" where
  "or_else a b = (case a of Some x \<Rightarrow> Some x | None \<Rightarrow> b)"

definition cache_topic :: "u64 \<Rightarrow> string \<Rightarrow> string \<Rightarrow> qos_profile \<Rightarrow> 'p session \<Rightarrow> 'p session" where
  "cache_topic topic name typ qos s =
     s\<lparr> s_topic_names := (s_topic_names s)(topic \<mapsto> name), s_topic_types := (s_topic_types s)(topic \<mapsto> typ),
        s_topic_qos := (s_topic_qos s)((s_node_id s, topic) \<mapsto> remote_from_qos_profile qos) \<rparr>"

definition forget_topic :: "u64 \<Rightarrow> 'p session \<Rightarrow> 'p session" where
  "forget_topic topic s =
     s\<lparr> s_topic_names := (s_topic_names s)(topic := None), s_topic_types := (s_topic_types s)(topic := None),
        s_topic_qos := (s_topic_qos s)((s_node_id s, topic) := None) \<rparr>"

definition monitor_deadline :: "nat \<Rightarrow> u64 \<Rightarrow> u64 \<Rightarrow> duration option \<Rightarrow> event_monitor option \<Rightarrow> event_monitor option" where
  "monitor_deadline now topic gid limit em =
     (case (em, limit) of
        (Some m, Some d) \<Rightarrow>
          if d = dur_zero then em
          else (let (handle, m') = create_event now DeadlineMissed m in
                Some (register_deadline_monitor now handle topic gid (dur_ns d) m'))
      | _ \<Rightarrow> em)"

definition monitor_lease :: "nat \<Rightarrow> u64 \<Rightarrow> duration option \<Rightarrow> event_monitor option \<Rightarrow> event_monitor option" where
  "monitor_lease now node lease em =
     (case (em, lease) of
        (Some m, Some d) \<Rightarrow>
          if d = dur_zero then em
          else (let (handle, m') = create_event now LivelinessLost m in
                Some (register_liveliness_monitor now handle node (dur_ns d) m'))
      | _ \<Rightarrow> em)"

subsection \<open>Publishers\<close>

definition start_retaining :: "u64 \<Rightarrow> 'p session \<Rightarrow> 'p session" where
  "start_retaining topic s =
     s\<lparr> s_retained := insert_kv topic [] (s_retained s), s_retained_peers := remove_kv topic (s_retained_peers s),
        s_retained_pending := remove_kv topic (s_retained_pending s) \<rparr>"

definition limit_bandwidth :: "u64 \<Rightarrow> u64 option \<Rightarrow> 'p session \<Rightarrow> 'p session" where
  "limit_bandwidth topic limit s =
     (case limit of
        Some l \<Rightarrow> s\<lparr> s_budgets := (s_budgets s)(topic \<mapsto> bucket_new l) \<rparr>
      | None \<Rightarrow> s)"

text \<open>An endpoint of the other direction shares the channel.\<close>

definition share_with_subscription :: "u64 \<Rightarrow> nat \<Rightarrow> 'p session \<Rightarrow> 'p session" where
  "share_with_subscription topic oid s =
     (if s_subscription_counts s topic \<noteq> None then s\<lparr> s_subscriptions := (s_subscriptions s)(topic \<mapsto> oid) \<rparr> else s)"

definition share_with_publisher :: "u64 \<Rightarrow> nat \<Rightarrow> 'p session \<Rightarrow> 'p session" where
  "share_with_publisher topic oid s =
     (if s_publisher_counts s topic \<noteq> None then s\<lparr> s_publishers := (s_publishers s)(topic \<mapsto> oid) \<rparr> else s)"

definition create_publisher ::
  "runtime \<Rightarrow> string \<Rightarrow> string \<Rightarrow> u64 \<Rightarrow> qos_profile \<Rightarrow> 'p session \<times> host \<Rightarrow>
   (unit, session_error) rust_result \<times> 'p session \<times> host" where
  "create_publisher rt topic_name topic_type topic qos sh =
     (let (s, h) = sh; is_first_publisher = (s_publishers s topic = None) in
      case channel_for rt (or_else (s_publishers s topic) (s_subscriptions s topic)) (local_channel_name (s_domain_id s) topic)
             (topic_ring_depth topic_name topic_type qos) (topic_slot_size (rt_env rt) topic_type qos) h of
        (Err e, h1) \<Rightarrow> (Err (Create_failed ''publisher'' e), s, h1)
      | (Ok oid, h1) \<Rightarrow>
          (let h2 = (if is_first_publisher
                     then (let lp = pubsub_at oid h1 in put_pubsub oid (lp\<lparr> lp_shm := mark_generation (lp_shm lp) \<rparr>) h1)
                     else h1);
               s1 = share_with_subscription topic oid s;
               s2 = s1\<lparr> s_publishers := (s_publishers s1)(topic \<mapsto> oid),
                        s_publisher_counts := count_up topic (s_publisher_counts s1) \<rparr>;
               gid = make_gid ''pub'' (s_node_id s) topic;
               s3 = s2\<lparr> s_graph := register_publisher topic topic_name topic_type (s_node_id s) qos gid (s_graph s2) \<rparr>;
               s4 = add_published_topic topic s3;
               h3 = register_published_topic_with_daemon topic topic_name topic_type qos s4 h2;
               s5 = cache_topic topic topic_name topic_type qos s4;
               s6 = (if durability qos = TransientLocal \<and> is_first_publisher then start_retaining topic s5 else s5);
               s7 = limit_bandwidth topic (bandwidth_limit qos) s6;
               s8 = s7\<lparr> s_monitor := monitor_deadline (rt_now rt) topic (from_le (take 8 gid)) (deadline qos) (s_monitor s7) \<rparr> in
           (Ok (), signal_graph_eventfds rt s8, h3)))"

definition destroy_publisher ::
  "runtime \<Rightarrow> u64 \<Rightarrow> 'p session \<Rightarrow> (unit, session_error) rust_result \<times> 'p session" where
  "destroy_publisher rt topic s =
     (case s_publisher_counts s topic of
        None \<Rightarrow> (Err (Endpoint_not_found ''publisher''), s)
      | Some n \<Rightarrow>
          if 0 < n - 1 then (Ok (), s\<lparr> s_publisher_counts := (s_publisher_counts s)(topic \<mapsto> n - 1) \<rparr>)
          else
            (let s1 = s\<lparr> s_publisher_counts := (s_publisher_counts s)(topic := None),
                         s_publishers := (s_publishers s)(topic := None), s_budgets := (s_budgets s)(topic := None),
                         s_retained := remove_kv topic (s_retained s), s_retained_peers := remove_kv topic (s_retained_peers s),
                         s_retained_pending := remove_kv topic (s_retained_pending s),
                         s_graph := (s_graph s)\<lparr> local_publishers := remove_kv topic (local_publishers (s_graph s)) \<rparr>,
                         s_published_topics := filter (\<lambda>t. t \<noteq> topic) (s_published_topics s) \<rparr>;
                 s2 = (if s_subscription_counts s1 topic = None then forget_topic topic s1 else s1) in
             (Ok (), signal_graph_eventfds rt s2)))"

subsection \<open>Subscriptions\<close>

record subscription_handle =
  sub_topic_hash :: u64
  sub_shm_path :: string
  sub_eventfd :: int
  sub_initial_seq :: u64

definition initial_sequence :: "qos_profile \<Rightarrow> local_pubsub \<Rightarrow> u64" where
  "initial_sequence qos lp =
     (if durability qos = TransientLocal
      then max (oldest_available_seq (lp_ring lp) (lp_shm lp)) (generation_start (lp_shm lp))
      else current_seq (lp_shm lp))"

text \<open>One receive queue per topic, shared by all subscriptions of the session.\<close>

definition start_receiving :: "u64 \<Rightarrow> nat \<Rightarrow> nat \<Rightarrow> u64 \<Rightarrow> bool \<Rightarrow> 'p session \<Rightarrow> 'p session" where
  "start_receiving topic oid depth initial_seq keep_all s =
     (if s_transport s \<noteq> None \<and> s_recv_queues s topic = None
      then call_transport (Register_recv topic oid)
             (s\<lparr> s_recv_queues := (s_recv_queues s)(topic \<mapsto> with_seq_and_mode depth initial_seq keep_all) \<rparr>)
      else s)"

definition create_subscription ::
  "('p \<Rightarrow> string \<Rightarrow> bool) \<Rightarrow> runtime \<Rightarrow> string \<Rightarrow> string \<Rightarrow> u64 \<Rightarrow> qos_profile \<Rightarrow> 'p session \<times> host \<Rightarrow>
   (subscription_handle, session_error) rust_result \<times> 'p session \<times> host" where
  "create_subscription matches rt topic_name topic_type topic qos sh =
     (let (s, h) = sh; name = local_channel_name (s_domain_id s) topic; depth = topic_ring_depth topic_name topic_type qos in
      if \<not> acl_check matches Subscribe topic_name (s_acl s) \<and> \<not> acl_check matches Subscribe (hex topic) (s_acl s)
      then (Err Access_denied, s, h)
      else
      case channel_for rt (or_else (s_subscriptions s topic) (s_publishers s topic)) name depth
             (topic_slot_size (rt_env rt) topic_type qos) h of
        (Err e, h1) \<Rightarrow> (Err (Create_failed ''subscription'' e), s, h1)
      | (Ok oid, h1) \<Rightarrow>
          (let lp = pubsub_at oid h1;
               s1 = share_with_publisher topic oid s;
               s2 = s1\<lparr> s_graph := register_subscription topic topic_name topic_type (s_node_id s) qos
                          (make_gid ''sub'' (s_node_id s) topic) (s_graph s1) \<rparr>;
               initial_seq = initial_sequence qos lp;
               s3 = start_receiving topic oid depth initial_seq (history qos = KeepAll) s2;
               s4 = add_subscribed_topic topic
                      (s3\<lparr> s_subscriptions := (s_subscriptions s3)(topic \<mapsto> oid),
                           s_subscription_counts := count_up topic (s_subscription_counts s3) \<rparr>);
               h2 = register_subscribed_topic_with_daemon topic topic_name topic_type qos s4 h1;
               s5 = signal_graph_eventfds rt (cache_topic topic topic_name topic_type qos s4);
               s6 = s5\<lparr> s_monitor := monitor_lease (rt_now rt) (s_node_id s) (liveliness_lease_duration qos)
                                       (monitor_deadline (rt_now rt) topic 0 (deadline qos) (s_monitor s5)) \<rparr> in
           (Ok \<lparr> sub_topic_hash = topic, sub_shm_path = ''/dev/shm/axon_'' @ name, sub_eventfd = lp_event_fd lp,
                 sub_initial_seq = initial_seq \<rparr>, s6, h2)))"

definition destroy_subscription ::
  "runtime \<Rightarrow> u64 \<Rightarrow> 'p session \<Rightarrow> (unit, session_error) rust_result \<times> 'p session" where
  "destroy_subscription rt topic s =
     (case s_subscription_counts s topic of
        None \<Rightarrow> (Err (Endpoint_not_found ''subscription''), s)
      | Some n \<Rightarrow>
          if 0 < n - 1 then (Ok (), s\<lparr> s_subscription_counts := (s_subscription_counts s)(topic \<mapsto> n - 1) \<rparr>)
          else
            (let s1 = call_transport (Remove_recv topic)
                        (s\<lparr> s_subscription_counts := (s_subscription_counts s)(topic := None),
                            s_recv_queues := (s_recv_queues s)(topic := None) \<rparr>);
                 s2 = s1\<lparr> s_subscriptions := (s_subscriptions s1)(topic := None),
                          s_graph := (s_graph s1)\<lparr> local_subscriptions := remove_kv topic (local_subscriptions (s_graph s1)) \<rparr>,
                          s_subscribed_topics := filter (\<lambda>t. t \<noteq> topic) (s_subscribed_topics s1) \<rparr>;
                 s3 = (if s_publisher_counts s2 topic = None then forget_topic topic s2 else s2) in
             (Ok (), signal_graph_eventfds rt s3)))"

subsection \<open>Services and clients\<close>

definition service_ring_depth :: "qos_profile \<Rightarrow> u32" where
  "service_ring_depth qos =
     (case history qos of KeepLast depth \<Rightarrow> of_nat (clamp (unat (ucast depth :: u32)) 2 16) | KeepAll \<Rightarrow> 16)"

definition SERVICE_ENVELOPE_HEADER_LEN :: nat where "SERVICE_ENVELOPE_HEADER_LEN = 40"

definition service_slot_size :: "qos_profile \<Rightarrow> u32" where
  "service_slot_size qos = of_nat (min (unat (max_message_size qos) + SERVICE_ENVELOPE_HEADER_LEN) (2 ^ 32 - 1))"

text \<open>The peer's channel of the same service if this session has it, or the segment.\<close>

definition service_channel ::
  "runtime \<Rightarrow> nat option \<Rightarrow> u64 \<Rightarrow> qos_profile \<Rightarrow> 'p session \<Rightarrow> host \<Rightarrow> (nat, io_error) rust_result \<times> host" where
  "service_channel rt existing topic qos s h =
     (case existing of
        Some oid \<Rightarrow> (Ok oid, h)
      | None \<Rightarrow> pubsub_create_or_open rt (local_channel_name (s_domain_id s) topic) (service_ring_depth qos)
                  (service_slot_size qos) h)"

text \<open>The entries both ends of a service make for its two topics: \<open>out_t\<close> is the topic this end writes.\<close>

definition cache_service :: "u64 \<Rightarrow> string \<Rightarrow> string \<Rightarrow> qos_profile \<Rightarrow> 'p session \<Rightarrow> 'p session" where
  "cache_service service_id name typ qos s =
     (let req = service_request_topic service_id; res = service_response_topic service_id; rq = remote_from_qos_profile qos in
      s\<lparr> s_topic_names := (s_topic_names s)(req \<mapsto> SERVICE_REQUEST_PREFIX @ name, res \<mapsto> SERVICE_RESPONSE_PREFIX @ name),
         s_topic_types := (s_topic_types s)(req \<mapsto> typ, res \<mapsto> typ),
         s_topic_qos := (s_topic_qos s)((s_node_id s, req) \<mapsto> rq, (s_node_id s, res) \<mapsto> rq) \<rparr>)"

definition register_ends :: "u64 \<Rightarrow> u64 \<Rightarrow> qos_profile \<Rightarrow> 'p session \<Rightarrow> 'p session" where
  "register_ends out_t in_t qos s =
     (let node = s_node_id s in
      s\<lparr> s_graph := register_subscription in_t (hex in_t) [] node qos (make_gid ''sub'' node in_t)
           (register_publisher out_t (hex out_t) [] node qos (make_gid ''pub'' node out_t) (s_graph s)) \<rparr>)"

definition create_named_service ::
  "runtime \<Rightarrow> u64 \<Rightarrow> string \<Rightarrow> string \<Rightarrow> qos_profile \<Rightarrow> 'p session \<times> host \<Rightarrow>
   (unit, session_error) rust_result \<times> 'p session \<times> host" where
  "create_named_service rt service_id name typ qos sh =
     (let (s, h) = sh; req = service_request_topic service_id; res = service_response_topic service_id in
      case service_channel rt (s_request_pubs s service_id) req qos s h of
        (Err e, h1) \<Rightarrow> (Err (Create_failed ''service request sub'' e), s, h1)
      | (Ok req_sub, h1) \<Rightarrow>
          (let s1 = s\<lparr> s_request_subs := (s_request_subs s)(service_id \<mapsto> req_sub),
                       s_server_counts := count_up service_id (s_server_counts s) \<rparr> in
           case service_channel rt (s_response_subs s1 service_id) res qos s1 h1 of
             (Err e, h2) \<Rightarrow> (Err (Create_failed ''service response pub'' e), s1, h2)
           | (Ok res_pub, h2) \<Rightarrow>
               (let s2 = add_subscribed_topic req (add_published_topic res
                           (s1\<lparr> s_response_pubs := (s_response_pubs s1)(service_id \<mapsto> res_pub) \<rparr>));
                    s3 = cache_service service_id name typ qos s2;
                    s4 = register_ends res req qos
                           (s3\<lparr> s_graph := register_service service_id name typ (s_node_id s) (s_graph s3) \<rparr>);
                    h3 = register_published_topic_with_daemon res (SERVICE_RESPONSE_PREFIX @ name) typ qos s4 h2;
                    h4 = register_subscribed_topic_with_daemon req (SERVICE_REQUEST_PREFIX @ name) typ qos s4 h3;
                    s5 = signal_graph_eventfds rt s4 in
                (Ok (), call_transport (Register_service_handler req) s5, h4))))"

definition create_service ::
  "runtime \<Rightarrow> u64 \<Rightarrow> string \<Rightarrow> qos_profile \<Rightarrow> 'p session \<times> host \<Rightarrow>
   (unit, session_error) rust_result \<times> 'p session \<times> host" where
  "create_service rt service_id typ qos = create_named_service rt service_id (hex service_id) typ qos"

definition create_named_client ::
  "runtime \<Rightarrow> u64 \<Rightarrow> string \<Rightarrow> string \<Rightarrow> qos_profile \<Rightarrow> 'p session \<times> host \<Rightarrow>
   (unit, session_error) rust_result \<times> 'p session \<times> host" where
  "create_named_client rt service_id name typ qos sh =
     (let (s, h) = sh; req = service_request_topic service_id; res = service_response_topic service_id in
      case service_channel rt (s_request_subs s service_id) req qos s h of
        (Err e, h1) \<Rightarrow> (Err (Create_failed ''service request pub'' e), s, h1)
      | (Ok req_pub, h1) \<Rightarrow>
          (case service_channel rt (s_response_pubs s service_id) res qos s h1 of
             (Err e, h2) \<Rightarrow> (Err (Create_failed ''service response sub'' e), s, h2)
           | (Ok res_sub, h2) \<Rightarrow>
               (let s1 = s\<lparr> s_request_pubs := (s_request_pubs s)(service_id \<mapsto> req_pub),
                            s_response_subs := (s_response_subs s)(service_id \<mapsto> res_sub),
                            s_client_counts := count_up service_id (s_client_counts s) \<rparr>;
                    s2 = add_subscribed_topic res (add_published_topic req s1);
                    s3 = cache_service service_id name typ qos s2;
                    s4 = register_ends req res qos
                           (s3\<lparr> s_graph := register_client service_id name typ (s_node_id s) (s_graph s3) \<rparr>);
                    h3 = register_published_topic_with_daemon req (SERVICE_REQUEST_PREFIX @ name) typ qos s4 h2;
                    h4 = register_subscribed_topic_with_daemon res (SERVICE_RESPONSE_PREFIX @ name) typ qos s4 h3 in
                (Ok (), signal_graph_eventfds rt s4, h4))))"

definition create_client ::
  "runtime \<Rightarrow> u64 \<Rightarrow> string \<Rightarrow> qos_profile \<Rightarrow> 'p session \<times> host \<Rightarrow>
   (unit, session_error) rust_result \<times> 'p session \<times> host" where
  "create_client rt service_id typ qos = create_named_client rt service_id (hex service_id) typ qos"

text \<open>What the last end of a kind removes: its writer and reader in the graph, and its topics.\<close>

definition drop_ends :: "u64 \<Rightarrow> u64 \<Rightarrow> 'p session \<Rightarrow> 'p session" where
  "drop_ends out_t in_t s =
     s\<lparr> s_graph := (s_graph s)\<lparr> local_publishers := remove_kv out_t (local_publishers (s_graph s)),
                                local_subscriptions := remove_kv in_t (local_subscriptions (s_graph s)) \<rparr>,
        s_published_topics := filter (\<lambda>t. t \<noteq> out_t) (s_published_topics s),
        s_subscribed_topics := filter (\<lambda>t. t \<noteq> in_t) (s_subscribed_topics s) \<rparr>"

definition destroy_service ::
  "runtime \<Rightarrow> u64 \<Rightarrow> 'p session \<Rightarrow> (unit, session_error) rust_result \<times> 'p session" where
  "destroy_service rt service_id s =
     (let req = service_request_topic service_id; res = service_response_topic service_id in
      case s_server_counts s service_id of
        None \<Rightarrow> (Err (Endpoint_not_found ''service server''), s)
      | Some n \<Rightarrow>
          if 0 < n - 1 then (Ok (), s\<lparr> s_server_counts := (s_server_counts s)(service_id \<mapsto> n - 1) \<rparr>)
          else
            (let s1 = drop_ends res req
                        (s\<lparr> s_server_counts := (s_server_counts s)(service_id := None),
                            s_request_subs := (s_request_subs s)(service_id := None),
                            s_response_pubs := (s_response_pubs s)(service_id := None),
                            s_graph := (s_graph s)\<lparr> local_services := remove_kv service_id (local_services (s_graph s)) \<rparr> \<rparr>);
                 s2 = (if map_of (local_clients (s_graph s1)) service_id = None
                       then forget_topic res (forget_topic req s1) else s1);
                 s3 = call_transport (Remove_pending_responses res) (call_transport (Remove_service_handler req) s2) in
             (Ok (), signal_graph_eventfds rt s3)))"

definition destroy_client ::
  "runtime \<Rightarrow> u64 \<Rightarrow> 'p session \<Rightarrow> (unit, session_error) rust_result \<times> 'p session" where
  "destroy_client rt service_id s =
     (let req = service_request_topic service_id; res = service_response_topic service_id in
      case s_client_counts s service_id of
        None \<Rightarrow> (Err (Endpoint_not_found ''service client''), s)
      | Some n \<Rightarrow>
          if 0 < n - 1 then (Ok (), s\<lparr> s_client_counts := (s_client_counts s)(service_id \<mapsto> n - 1) \<rparr>)
          else
            (let s1 = drop_ends req res
                        (s\<lparr> s_client_counts := (s_client_counts s)(service_id := None),
                            s_response_subs := (s_response_subs s)(service_id := None),
                            s_request_pubs := (s_request_pubs s)(service_id := None),
                            s_graph := (s_graph s)\<lparr> local_clients := remove_kv service_id (local_clients (s_graph s)) \<rparr> \<rparr>);
                 s2 = (if map_of (local_services (s_graph s1)) service_id = None
                       then forget_topic res (forget_topic req s1) else s1) in
             (Ok (), signal_graph_eventfds rt s2)))"

subsection \<open>Sequences of calls\<close>

datatype endpoint_op =
    Create_publisher runtime string string u64 qos_profile | Destroy_publisher runtime u64
  | Create_subscription runtime string string u64 qos_profile | Destroy_subscription runtime u64
  | Create_service runtime u64 string string qos_profile | Destroy_service runtime u64
  | Create_client runtime u64 string string qos_profile | Destroy_client runtime u64

definition succeeded :: "('a, 'e) rust_result \<Rightarrow> bool" where
  "succeeded r \<longleftrightarrow> (case r of Ok _ \<Rightarrow> True | Err _ \<Rightarrow> False)"

text \<open>Whether the call succeeded, and the new state.\<close>

fun endpoint_step :: "('p \<Rightarrow> string \<Rightarrow> bool) \<Rightarrow> endpoint_op \<Rightarrow> 'p session \<times> host \<Rightarrow> bool \<times> 'p session \<times> host" where
  "endpoint_step mt (Create_publisher rt n t k q) sh = (let (r, sh') = create_publisher rt n t k q sh in (succeeded r, sh'))"
| "endpoint_step mt (Destroy_publisher rt k) (s, h) = (let (r, s') = destroy_publisher rt k s in (succeeded r, s', h))"
| "endpoint_step mt (Create_subscription rt n t k q) sh = (let (r, sh') = create_subscription mt rt n t k q sh in (succeeded r, sh'))"
| "endpoint_step mt (Destroy_subscription rt k) (s, h) = (let (r, s') = destroy_subscription rt k s in (succeeded r, s', h))"
| "endpoint_step mt (Create_service rt k n t q) sh = (let (r, sh') = create_named_service rt k n t q sh in (succeeded r, sh'))"
| "endpoint_step mt (Destroy_service rt k) (s, h) = (let (r, s') = destroy_service rt k s in (succeeded r, s', h))"
| "endpoint_step mt (Create_client rt k n t q) sh = (let (r, sh') = create_named_client rt k n t q sh in (succeeded r, sh'))"
| "endpoint_step mt (Destroy_client rt k) (s, h) = (let (r, s') = destroy_client rt k s in (succeeded r, s', h))"

fun endpoint_run ::
  "('p \<Rightarrow> string \<Rightarrow> bool) \<Rightarrow> endpoint_op list \<Rightarrow> 'p session \<times> host \<Rightarrow> bool list \<times> 'p session \<times> host" where
  "endpoint_run mt [] sh = ([], sh)"
| "endpoint_run mt (x # xs) sh =
     (let (b, sh1) = endpoint_step mt x sh; (bs, sh2) = endpoint_run mt xs sh1 in (b # bs, sh2))"

subsection \<open>What the calls keep\<close>

lemma signal_graph_keeps [simp]:
  "s_publisher_counts (signal_graph_eventfds rt s) = s_publisher_counts s"
  "s_subscription_counts (signal_graph_eventfds rt s) = s_subscription_counts s"
  "s_server_counts (signal_graph_eventfds rt s) = s_server_counts s"
  "s_client_counts (signal_graph_eventfds rt s) = s_client_counts s"
  "s_publishers (signal_graph_eventfds rt s) = s_publishers s"
  "s_subscriptions (signal_graph_eventfds rt s) = s_subscriptions s"
  "s_request_pubs (signal_graph_eventfds rt s) = s_request_pubs s"
  "s_response_subs (signal_graph_eventfds rt s) = s_response_subs s"
  "s_request_subs (signal_graph_eventfds rt s) = s_request_subs s"
  "s_response_pubs (signal_graph_eventfds rt s) = s_response_pubs s"
  "s_daemon_slot (signal_graph_eventfds rt s) = s_daemon_slot s"
  by (simp_all add: signal_graph_eventfds_def)

lemma transport_keeps [simp]:
  "s_publisher_counts (call_transport c s) = s_publisher_counts s"
  "s_subscription_counts (call_transport c s) = s_subscription_counts s"
  "s_server_counts (call_transport c s) = s_server_counts s"
  "s_client_counts (call_transport c s) = s_client_counts s"
  "s_publishers (call_transport c s) = s_publishers s"
  "s_subscriptions (call_transport c s) = s_subscriptions s"
  "s_request_pubs (call_transport c s) = s_request_pubs s"
  "s_response_subs (call_transport c s) = s_response_subs s"
  "s_request_subs (call_transport c s) = s_request_subs s"
  "s_response_pubs (call_transport c s) = s_response_pubs s"
  "s_daemon_slot (call_transport c s) = s_daemon_slot s"
  by (simp_all add: call_transport_def)

lemma cache_topic_keeps [simp]:
  "s_publisher_counts (cache_topic k n t q s) = s_publisher_counts s"
  "s_subscription_counts (cache_topic k n t q s) = s_subscription_counts s"
  "s_server_counts (cache_topic k n t q s) = s_server_counts s"
  "s_client_counts (cache_topic k n t q s) = s_client_counts s"
  "s_publishers (cache_topic k n t q s) = s_publishers s"
  "s_subscriptions (cache_topic k n t q s) = s_subscriptions s"
  "s_request_pubs (cache_topic k n t q s) = s_request_pubs s"
  "s_response_subs (cache_topic k n t q s) = s_response_subs s"
  "s_request_subs (cache_topic k n t q s) = s_request_subs s"
  "s_response_pubs (cache_topic k n t q s) = s_response_pubs s"
  "s_daemon_slot (cache_topic k n t q s) = s_daemon_slot s"
  by (simp_all add: cache_topic_def)

lemma forget_topic_keeps [simp]:
  "s_publisher_counts (forget_topic k s) = s_publisher_counts s"
  "s_subscription_counts (forget_topic k s) = s_subscription_counts s"
  "s_server_counts (forget_topic k s) = s_server_counts s"
  "s_client_counts (forget_topic k s) = s_client_counts s"
  "s_publishers (forget_topic k s) = s_publishers s"
  "s_subscriptions (forget_topic k s) = s_subscriptions s"
  "s_request_pubs (forget_topic k s) = s_request_pubs s"
  "s_response_subs (forget_topic k s) = s_response_subs s"
  "s_request_subs (forget_topic k s) = s_request_subs s"
  "s_response_pubs (forget_topic k s) = s_response_pubs s"
  "s_daemon_slot (forget_topic k s) = s_daemon_slot s"
  by (simp_all add: forget_topic_def)

lemma cache_service_keeps [simp]:
  "s_publisher_counts (cache_service k n t q s) = s_publisher_counts s"
  "s_subscription_counts (cache_service k n t q s) = s_subscription_counts s"
  "s_server_counts (cache_service k n t q s) = s_server_counts s"
  "s_client_counts (cache_service k n t q s) = s_client_counts s"
  "s_publishers (cache_service k n t q s) = s_publishers s"
  "s_subscriptions (cache_service k n t q s) = s_subscriptions s"
  "s_request_pubs (cache_service k n t q s) = s_request_pubs s"
  "s_response_subs (cache_service k n t q s) = s_response_subs s"
  "s_request_subs (cache_service k n t q s) = s_request_subs s"
  "s_response_pubs (cache_service k n t q s) = s_response_pubs s"
  "s_daemon_slot (cache_service k n t q s) = s_daemon_slot s"
  by (simp_all add: cache_service_def Let_def)

lemma register_ends_keeps [simp]:
  "s_publisher_counts (register_ends a b q s) = s_publisher_counts s"
  "s_subscription_counts (register_ends a b q s) = s_subscription_counts s"
  "s_server_counts (register_ends a b q s) = s_server_counts s"
  "s_client_counts (register_ends a b q s) = s_client_counts s"
  "s_publishers (register_ends a b q s) = s_publishers s"
  "s_subscriptions (register_ends a b q s) = s_subscriptions s"
  "s_request_pubs (register_ends a b q s) = s_request_pubs s"
  "s_response_subs (register_ends a b q s) = s_response_subs s"
  "s_request_subs (register_ends a b q s) = s_request_subs s"
  "s_response_pubs (register_ends a b q s) = s_response_pubs s"
  "s_daemon_slot (register_ends a b q s) = s_daemon_slot s"
  by (simp_all add: register_ends_def Let_def)

lemma drop_ends_keeps [simp]:
  "s_publisher_counts (drop_ends a b s) = s_publisher_counts s"
  "s_subscription_counts (drop_ends a b s) = s_subscription_counts s"
  "s_server_counts (drop_ends a b s) = s_server_counts s"
  "s_client_counts (drop_ends a b s) = s_client_counts s"
  "s_publishers (drop_ends a b s) = s_publishers s"
  "s_subscriptions (drop_ends a b s) = s_subscriptions s"
  "s_request_pubs (drop_ends a b s) = s_request_pubs s"
  "s_response_subs (drop_ends a b s) = s_response_subs s"
  "s_request_subs (drop_ends a b s) = s_request_subs s"
  "s_response_pubs (drop_ends a b s) = s_response_pubs s"
  "s_daemon_slot (drop_ends a b s) = s_daemon_slot s"
  by (simp_all add: drop_ends_def)

lemma add_published_keeps [simp]:
  "s_publisher_counts (add_published_topic k s) = s_publisher_counts s"
  "s_subscription_counts (add_published_topic k s) = s_subscription_counts s"
  "s_server_counts (add_published_topic k s) = s_server_counts s"
  "s_client_counts (add_published_topic k s) = s_client_counts s"
  "s_publishers (add_published_topic k s) = s_publishers s"
  "s_subscriptions (add_published_topic k s) = s_subscriptions s"
  "s_request_pubs (add_published_topic k s) = s_request_pubs s"
  "s_response_subs (add_published_topic k s) = s_response_subs s"
  "s_request_subs (add_published_topic k s) = s_request_subs s"
  "s_response_pubs (add_published_topic k s) = s_response_pubs s"
  "s_daemon_slot (add_published_topic k s) = s_daemon_slot s"
  by (simp_all add: add_published_topic_def)

lemma add_subscribed_keeps [simp]:
  "s_publisher_counts (add_subscribed_topic k s) = s_publisher_counts s"
  "s_subscription_counts (add_subscribed_topic k s) = s_subscription_counts s"
  "s_server_counts (add_subscribed_topic k s) = s_server_counts s"
  "s_client_counts (add_subscribed_topic k s) = s_client_counts s"
  "s_publishers (add_subscribed_topic k s) = s_publishers s"
  "s_subscriptions (add_subscribed_topic k s) = s_subscriptions s"
  "s_request_pubs (add_subscribed_topic k s) = s_request_pubs s"
  "s_response_subs (add_subscribed_topic k s) = s_response_subs s"
  "s_request_subs (add_subscribed_topic k s) = s_request_subs s"
  "s_response_pubs (add_subscribed_topic k s) = s_response_pubs s"
  "s_daemon_slot (add_subscribed_topic k s) = s_daemon_slot s"
  by (simp_all add: add_subscribed_topic_def)

lemma start_retaining_keeps [simp]:
  "s_publisher_counts (start_retaining k s) = s_publisher_counts s"
  "s_subscription_counts (start_retaining k s) = s_subscription_counts s"
  "s_server_counts (start_retaining k s) = s_server_counts s"
  "s_client_counts (start_retaining k s) = s_client_counts s"
  "s_publishers (start_retaining k s) = s_publishers s"
  "s_subscriptions (start_retaining k s) = s_subscriptions s"
  "s_request_pubs (start_retaining k s) = s_request_pubs s"
  "s_response_subs (start_retaining k s) = s_response_subs s"
  "s_request_subs (start_retaining k s) = s_request_subs s"
  "s_response_pubs (start_retaining k s) = s_response_pubs s"
  "s_daemon_slot (start_retaining k s) = s_daemon_slot s"
  by (simp_all add: start_retaining_def)

lemma limit_bandwidth_keeps [simp]:
  "s_publisher_counts (limit_bandwidth k l s) = s_publisher_counts s"
  "s_subscription_counts (limit_bandwidth k l s) = s_subscription_counts s"
  "s_server_counts (limit_bandwidth k l s) = s_server_counts s"
  "s_client_counts (limit_bandwidth k l s) = s_client_counts s"
  "s_publishers (limit_bandwidth k l s) = s_publishers s"
  "s_subscriptions (limit_bandwidth k l s) = s_subscriptions s"
  "s_request_pubs (limit_bandwidth k l s) = s_request_pubs s"
  "s_response_subs (limit_bandwidth k l s) = s_response_subs s"
  "s_request_subs (limit_bandwidth k l s) = s_request_subs s"
  "s_response_pubs (limit_bandwidth k l s) = s_response_pubs s"
  "s_daemon_slot (limit_bandwidth k l s) = s_daemon_slot s"
  by (simp_all add: limit_bandwidth_def split: option.splits)

lemma start_receiving_keeps [simp]:
  "s_publisher_counts (start_receiving k i d c b s) = s_publisher_counts s"
  "s_subscription_counts (start_receiving k i d c b s) = s_subscription_counts s"
  "s_server_counts (start_receiving k i d c b s) = s_server_counts s"
  "s_client_counts (start_receiving k i d c b s) = s_client_counts s"
  "s_publishers (start_receiving k i d c b s) = s_publishers s"
  "s_subscriptions (start_receiving k i d c b s) = s_subscriptions s"
  "s_request_pubs (start_receiving k i d c b s) = s_request_pubs s"
  "s_response_subs (start_receiving k i d c b s) = s_response_subs s"
  "s_request_subs (start_receiving k i d c b s) = s_request_subs s"
  "s_response_pubs (start_receiving k i d c b s) = s_response_pubs s"
  "s_daemon_slot (start_receiving k i d c b s) = s_daemon_slot s"
  by (simp_all add: start_receiving_def)

lemma share_subscription_keeps [simp]:
  "s_publisher_counts (share_with_subscription k i s) = s_publisher_counts s"
  "s_subscription_counts (share_with_subscription k i s) = s_subscription_counts s"
  "s_server_counts (share_with_subscription k i s) = s_server_counts s"
  "s_client_counts (share_with_subscription k i s) = s_client_counts s"
  "s_publishers (share_with_subscription k i s) = s_publishers s"
  "s_request_pubs (share_with_subscription k i s) = s_request_pubs s"
  "s_response_subs (share_with_subscription k i s) = s_response_subs s"
  "s_request_subs (share_with_subscription k i s) = s_request_subs s"
  "s_response_pubs (share_with_subscription k i s) = s_response_pubs s"
  "s_daemon_slot (share_with_subscription k i s) = s_daemon_slot s"
  by (simp_all add: share_with_subscription_def)

lemma share_publisher_keeps [simp]:
  "s_publisher_counts (share_with_publisher k i s) = s_publisher_counts s"
  "s_subscription_counts (share_with_publisher k i s) = s_subscription_counts s"
  "s_server_counts (share_with_publisher k i s) = s_server_counts s"
  "s_client_counts (share_with_publisher k i s) = s_client_counts s"
  "s_subscriptions (share_with_publisher k i s) = s_subscriptions s"
  "s_request_pubs (share_with_publisher k i s) = s_request_pubs s"
  "s_response_subs (share_with_publisher k i s) = s_response_subs s"
  "s_request_subs (share_with_publisher k i s) = s_request_subs s"
  "s_response_pubs (share_with_publisher k i s) = s_response_pubs s"
  "s_daemon_slot (share_with_publisher k i s) = s_daemon_slot s"
  by (simp_all add: share_with_publisher_def)

lemma share_channels:
  "s_subscriptions (share_with_subscription k i s) =
     (if s_subscription_counts s k \<noteq> None then (s_subscriptions s)(k \<mapsto> i) else s_subscriptions s)"
  "s_publishers (share_with_publisher k i s) =
     (if s_publisher_counts s k \<noteq> None then (s_publishers s)(k \<mapsto> i) else s_publishers s)"
  by (simp_all add: share_with_subscription_def share_with_publisher_def)

text \<open>The endpoints of a session, by kind and identifier: how often each is open, and whether its channels are there.\<close>

datatype end_kind = Publisher | Subscription | Server | Client

definition end_count :: "'p session \<Rightarrow> end_kind \<Rightarrow> u64 \<Rightarrow> nat option" where
  "end_count s kind = (case kind of
     Publisher \<Rightarrow> s_publisher_counts s | Subscription \<Rightarrow> s_subscription_counts s
   | Server \<Rightarrow> s_server_counts s | Client \<Rightarrow> s_client_counts s)"

definition has_channels :: "'p session \<Rightarrow> end_kind \<Rightarrow> u64 \<Rightarrow> bool" where
  "has_channels s kind k = (case kind of
     Publisher \<Rightarrow> s_publishers s k \<noteq> None | Subscription \<Rightarrow> s_subscriptions s k \<noteq> None
   | Server \<Rightarrow> s_request_subs s k \<noteq> None \<and> s_response_pubs s k \<noteq> None
   | Client \<Rightarrow> s_request_pubs s k \<noteq> None \<and> s_response_subs s k \<noteq> None)"

fun opens :: "endpoint_op \<Rightarrow> (end_kind \<times> u64) option" where
  "opens (Create_publisher rt n t k q) = Some (Publisher, k)"
| "opens (Create_subscription rt n t k q) = Some (Subscription, k)"
| "opens (Create_service rt k n t q) = Some (Server, k)"
| "opens (Create_client rt k n t q) = Some (Client, k)"
| "opens _ = None"

fun closes :: "endpoint_op \<Rightarrow> (end_kind \<times> u64) option" where
  "closes (Destroy_publisher rt k) = Some (Publisher, k)"
| "closes (Destroy_subscription rt k) = Some (Subscription, k)"
| "closes (Destroy_service rt k) = Some (Server, k)"
| "closes (Destroy_client rt k) = Some (Client, k)"
| "closes _ = None"

definition count_down :: "u64 \<Rightarrow> (u64 \<Rightarrow> nat option) \<Rightarrow> (u64 \<Rightarrow> nat option)" where
  "count_down k m = (case m k of Some n \<Rightarrow> if 0 < n - 1 then m(k \<mapsto> n - 1) else m(k := None) | None \<Rightarrow> m)"

text \<open>The effect of one call on the counts.\<close>

lemma create_publisher_ends:
  "create_publisher rt n t k q (s, h) = (r, s', h') \<Longrightarrow>
   end_count s' kind = (if kind = Publisher \<and> succeeded r then count_up k (end_count s kind) else end_count s kind)"
  by (auto simp: create_publisher_def Let_def end_count_def succeeded_def split: prod.splits sum.splits end_kind.splits)

lemma create_subscription_ends:
  "create_subscription mt rt n t k q (s, h) = (r, s', h') \<Longrightarrow>
   end_count s' kind = (if kind = Subscription \<and> succeeded r then count_up k (end_count s kind) else end_count s kind)"
  by (auto simp: create_subscription_def Let_def end_count_def succeeded_def split: prod.splits sum.splits if_splits end_kind.splits)

lemma create_client_ends:
  "create_named_client rt k n t q (s, h) = (r, s', h') \<Longrightarrow>
   end_count s' kind = (if kind = Client \<and> succeeded r then count_up k (end_count s kind) else end_count s kind)"
  by (auto simp: create_named_client_def Let_def end_count_def succeeded_def split: prod.splits sum.splits end_kind.splits)

lemma create_service_ends:
  "create_named_service rt k n t q (s, h) = (r, s', h') \<Longrightarrow> kind = Server \<Longrightarrow> succeeded r \<Longrightarrow>
   end_count s' kind = count_up k (end_count s kind)"
  "create_named_service rt k n t q (s, h) = (r, s', h') \<Longrightarrow> kind \<noteq> Server \<Longrightarrow> end_count s' kind = end_count s kind"
  by (auto simp: create_named_service_def Let_def end_count_def succeeded_def split: prod.splits sum.splits end_kind.splits)

lemmas destroy_defs = destroy_publisher_def destroy_subscription_def destroy_service_def destroy_client_def

lemma destroy_ends:
  "destroy_publisher rt k s = (r, s') \<Longrightarrow> end_count s' kind = (if kind = Publisher then count_down k (end_count s kind) else end_count s kind)"
  "destroy_subscription rt k s = (r, s') \<Longrightarrow> end_count s' kind = (if kind = Subscription then count_down k (end_count s kind) else end_count s kind)"
  "destroy_service rt k s = (r, s') \<Longrightarrow> end_count s' kind = (if kind = Server then count_down k (end_count s kind) else end_count s kind)"
  "destroy_client rt k s = (r, s') \<Longrightarrow> end_count s' kind = (if kind = Client then count_down k (end_count s kind) else end_count s kind)"
  by (auto simp: destroy_defs Let_def end_count_def count_down_def split: option.splits if_splits end_kind.splits)

lemma destroy_succeeds:
  "destroy_publisher rt k s = (r, s') \<Longrightarrow> succeeded r = (end_count s Publisher k \<noteq> None)"
  "destroy_subscription rt k s = (r, s') \<Longrightarrow> succeeded r = (end_count s Subscription k \<noteq> None)"
  "destroy_service rt k s = (r, s') \<Longrightarrow> succeeded r = (end_count s Server k \<noteq> None)"
  "destroy_client rt k s = (r, s') \<Longrightarrow> succeeded r = (end_count s Client k \<noteq> None)"
  by (auto simp: destroy_defs Let_def end_count_def succeeded_def split: option.splits if_splits)

subsection \<open>Counts and channels\<close>

text \<open>The specification: a count per endpoint.  Opening adds one, closing takes one away and is refused at zero.\<close>

type_synonym ends = "end_kind \<Rightarrow> u64 \<Rightarrow> nat"

definition spec_step :: "endpoint_op \<Rightarrow> bool \<Rightarrow> ends \<Rightarrow> ends" where
  "spec_step x b a =
     (case (opens x, closes x) of
        (Some (kind, k), _) \<Rightarrow> if b then a(kind := (a kind)(k := a kind k + 1)) else a
      | (None, Some (kind, k)) \<Rightarrow> a(kind := (a kind)(k := a kind k - 1))
      | _ \<Rightarrow> a)"

definition spec_allows :: "endpoint_op \<Rightarrow> bool \<Rightarrow> end_kind \<Rightarrow> ends \<Rightarrow> bool" where
  "spec_allows x b kind a = (case closes x of Some (kind', k) \<Rightarrow> kind' = kind \<longrightarrow> b = (0 < a kind k) | None \<Rightarrow> True)"

fun spec_run :: "endpoint_op list \<Rightarrow> bool list \<Rightarrow> end_kind \<Rightarrow> ends \<Rightarrow> ends option" where
  "spec_run (x # xs) (b # bs) kind a = (if spec_allows x b kind a then spec_run xs bs kind (spec_step x b a) else None)"
| "spec_run _ _ kind a = Some a"

definition consistent :: "'p session \<Rightarrow> end_kind \<Rightarrow> bool" where
  "consistent s kind \<longleftrightarrow> (\<forall>k. has_channels s kind k = (end_count s kind k \<noteq> None))"

definition counts_agree :: "ends \<Rightarrow> 'p session \<Rightarrow> end_kind \<Rightarrow> bool" where
  "counts_agree a s kind \<longleftrightarrow> end_count s kind = (\<lambda>k. if a kind k = 0 then None else Some (a kind k))"

text \<open>A call of \<open>create_named_service\<close> that reports an error.\<close>

definition failed_service :: "endpoint_op \<Rightarrow> bool \<Rightarrow> bool" where
  "failed_service x b \<longleftrightarrow> \<not> b \<and> (case opens x of Some (kind, k) \<Rightarrow> kind = Server | None \<Rightarrow> False)"

lemma agree_up: "m = (\<lambda>k. if f k = 0 then None else Some (f k)) \<Longrightarrow>
    count_up k m = (\<lambda>i. if (f(k := f k + 1)) i = 0 then None else Some ((f(k := f k + 1)) i))" for f :: "u64 \<Rightarrow> nat"
  by (auto simp: count_up_def fun_eq_iff)

lemma agree_down: "m = (\<lambda>k. if f k = 0 then None else Some (f k)) \<Longrightarrow>
    count_down k m = (\<lambda>i. if (f(k := f k - 1)) i = 0 then None else Some ((f(k := f k - 1)) i))" for f :: "u64 \<Rightarrow> nat"
  by (auto simp: count_down_def fun_eq_iff)

text \<open>One call against the specification.\<close>

lemma step_counts:
  assumes "endpoint_step mt x (s, h) = (b, s', h')" "counts_agree a s kind" "kind = Server \<Longrightarrow> \<not> failed_service x b"
  shows "spec_allows x b kind a \<and> counts_agree (spec_step x b a) s' kind"
proof (cases x)
  case (Create_publisher rt n t k q)
  then show ?thesis using assms create_publisher_ends [of rt n t k q s h _ s' h' kind]
    by (auto simp: counts_agree_def spec_step_def spec_allows_def agree_up split: prod.splits)
next
  case (Create_subscription rt n t k q)
  then show ?thesis using assms create_subscription_ends [of mt rt n t k q s h _ s' h' kind]
    by (auto simp: counts_agree_def spec_step_def spec_allows_def agree_up split: prod.splits)
next
  case (Create_client rt k n t q)
  then show ?thesis using assms create_client_ends [of rt k n t q s h _ s' h' kind]
    by (auto simp: counts_agree_def spec_step_def spec_allows_def agree_up split: prod.splits)
next
  case (Create_service rt k n t q)
  then show ?thesis using assms create_service_ends [of rt k n t q s h _ s' h' kind]
    by (auto simp: counts_agree_def spec_step_def spec_allows_def agree_up failed_service_def split: prod.splits)
next
  case (Destroy_publisher rt k)
  then show ?thesis using assms destroy_ends(1) [of rt k s _ s' kind] destroy_succeeds(1) [of rt k s _ s']
    by (auto simp: counts_agree_def spec_step_def spec_allows_def agree_down split: prod.splits if_splits)
next
  case (Destroy_subscription rt k)
  then show ?thesis using assms destroy_ends(2) [of rt k s _ s' kind] destroy_succeeds(2) [of rt k s _ s']
    by (auto simp: counts_agree_def spec_step_def spec_allows_def agree_down split: prod.splits if_splits)
next
  case (Destroy_service rt k)
  then show ?thesis using assms destroy_ends(3) [of rt k s _ s' kind] destroy_succeeds(3) [of rt k s _ s']
    by (auto simp: counts_agree_def spec_step_def spec_allows_def agree_down split: prod.splits if_splits)
next
  case (Destroy_client rt k)
  then show ?thesis using assms destroy_ends(4) [of rt k s _ s' kind] destroy_succeeds(4) [of rt k s _ s']
    by (auto simp: counts_agree_def spec_step_def spec_allows_def agree_down split: prod.splits if_splits)
qed

text \<open>The effect of one call on the channels.\<close>

lemma count_up_None [simp]: "count_up k m i = None \<longleftrightarrow> i \<noteq> k \<and> m i = None"
  by (simp add: count_up_def)

lemma count_down_None: "count_down k m i = None \<longleftrightarrow> m i = None \<or> i = k \<and> (\<exists>n\<le>1. m i = Some n)"
  by (auto simp: count_down_def split: option.splits)

lemma create_publisher_channels:
  assumes "create_publisher rt n t k q (s, h) = (r, s', h')" "consistent s Subscription"
  shows "has_channels s' kind i = (has_channels s kind i \<or> succeeded r \<and> kind = Publisher \<and> i = k)"
  using assms(1) assms(2) [unfolded consistent_def, rule_format, of k]
  by (cases kind) (auto simp: create_publisher_def Let_def has_channels_def end_count_def succeeded_def share_channels
      simp del: not_None_eq split: prod.splits sum.splits if_splits)

lemma create_subscription_channels:
  assumes "create_subscription mt rt n t k q (s, h) = (r, s', h')" "consistent s Publisher"
  shows "has_channels s' kind i = (has_channels s kind i \<or> succeeded r \<and> kind = Subscription \<and> i = k)"
  using assms(1) assms(2) [unfolded consistent_def, rule_format, of k]
  by (cases kind) (auto simp: create_subscription_def Let_def has_channels_def end_count_def succeeded_def share_channels
      simp del: not_None_eq split: prod.splits sum.splits if_splits)

lemma create_client_channels:
  assumes "create_named_client rt k n t q (s, h) = (r, s', h')"
  shows "has_channels s' kind i = (has_channels s kind i \<or> succeeded r \<and> kind = Client \<and> i = k)"
  using assms by (cases kind) (auto simp: create_named_client_def Let_def has_channels_def succeeded_def
      simp del: not_None_eq split: prod.splits sum.splits if_splits)

lemma create_service_channels:
  assumes "create_named_service rt k n t q (s, h) = (r, s', h')" "kind = Server \<Longrightarrow> succeeded r"
  shows "has_channels s' kind i = (has_channels s kind i \<or> kind = Server \<and> i = k)"
  using assms by (cases kind) (auto simp: create_named_service_def Let_def has_channels_def succeeded_def
      simp del: not_None_eq split: prod.splits sum.splits if_splits)

lemma destroy_publisher_channels:
  assumes "consistent s kind"
  shows "consistent (snd (destroy_publisher rt k s)) kind"
  using assms by (cases kind; cases "s_publisher_counts s k")
    (simp_all add: destroy_publisher_def Let_def consistent_def has_channels_def end_count_def del: not_None_eq)

lemma destroy_subscription_channels:
  assumes "consistent s kind"
  shows "consistent (snd (destroy_subscription rt k s)) kind"
  using assms by (cases kind; cases "s_subscription_counts s k")
    (simp_all add: destroy_subscription_def Let_def consistent_def has_channels_def end_count_def del: not_None_eq)

lemma destroy_service_channels:
  assumes "consistent s kind"
  shows "consistent (snd (destroy_service rt k s)) kind"
  using assms by (cases kind; cases "s_server_counts s k")
    (simp_all add: destroy_service_def Let_def consistent_def has_channels_def end_count_def del: not_None_eq)

lemma destroy_client_channels:
  assumes "consistent s kind"
  shows "consistent (snd (destroy_client rt k s)) kind"
  using assms by (cases kind; cases "s_client_counts s k")
    (simp_all add: destroy_client_def Let_def consistent_def has_channels_def end_count_def del: not_None_eq)

lemmas destroy_channels =
  destroy_publisher_channels destroy_subscription_channels destroy_service_channels destroy_client_channels

lemma step_consistent:
  assumes "endpoint_step mt x (s, h) = (b, s', h')" "consistent s Publisher" "consistent s Subscription" "consistent s kind"
    and "kind = Server \<Longrightarrow> \<not> failed_service x b"
  shows "consistent s' kind"
proof (cases x)
  case (Create_publisher rt n t k q)
  then show ?thesis
    using assms create_publisher_channels [of rt n t k q s h _ s' h' kind] create_publisher_ends [of rt n t k q s h _ s' h' kind]
    by (auto simp: consistent_def simp del: not_None_eq split: prod.splits)
next
  case (Create_subscription rt n t k q)
  then show ?thesis
    using assms create_subscription_channels [of mt rt n t k q s h _ s' h' kind] create_subscription_ends [of mt rt n t k q s h _ s' h' kind]
    by (auto simp: consistent_def simp del: not_None_eq split: prod.splits)
next
  case (Create_client rt k n t q)
  then show ?thesis
    using assms create_client_channels [of rt k n t q s h _ s' h' kind] create_client_ends [of rt k n t q s h _ s' h' kind]
    by (auto simp: consistent_def simp del: not_None_eq split: prod.splits)
next
  case (Create_service rt k n t q)
  then show ?thesis
    using assms create_service_channels [of rt k n t q s h _ s' h' kind] create_service_ends [of rt k n t q s h _ s' h' kind]
    by (cases "kind = Server") (auto simp: consistent_def failed_service_def simp del: not_None_eq split: prod.splits)
qed (use assms destroy_channels [OF assms(4)] in \<open>auto simp: split_beta Let_def\<close>)

lemma run_agrees:
  assumes "endpoint_run mt xs (s, h) = (bs, s', h')" "consistent s Publisher" "consistent s Subscription" "consistent s kind"
    and "counts_agree a s kind" "kind = Server \<Longrightarrow> list_all2 (\<lambda>x b. \<not> failed_service x b) xs bs"
  shows "\<exists>a'. spec_run xs bs kind a = Some a' \<and> counts_agree a' s' kind \<and> consistent s' kind"
  using assms
proof (induction xs arbitrary: s h a bs)
  case (Cons x xs)
  obtain b s1 h1 where st: "endpoint_step mt x (s, h) = (b, s1, h1)" by (metis prod_cases3)
  then obtain bs1 where r: "endpoint_run mt xs (s1, h1) = (bs1, s', h')" and bs: "bs = b # bs1"
    using Cons.prems(1) by (auto split: prod.splits)
  have nf: "kind = Server \<Longrightarrow> \<not> failed_service x b" "kind = Server \<Longrightarrow> list_all2 (\<lambda>x b. \<not> failed_service x b) xs bs1"
    using Cons.prems(6) bs by auto
  note c = step_counts [OF st Cons.prems(5) nf(1)]
  have "consistent s1 Publisher" by (rule step_consistent [OF st Cons.prems(2,3) Cons.prems(2)]) simp
  moreover have "consistent s1 Subscription" by (rule step_consistent [OF st Cons.prems(2,3) Cons.prems(3)]) simp
  moreover have "consistent s1 kind" by (rule step_consistent [OF st Cons.prems(2-4) nf(1)])
  ultimately have "consistent s1 Publisher" "consistent s1 Subscription" "consistent s1 kind" by simp_all
  from Cons.IH [OF r this] c nf(2) show ?case by (simp add: bs)
qed auto

lemma new_agrees:
  "consistent (session_new node domain acl mon) kind" "counts_agree (\<lambda>_ _. 0) (session_new node domain acl mon) kind"
  by (cases kind; simp add: consistent_def has_channels_def end_count_def counts_agree_def session_new_def Let_def)+

subsection \<open>Entries of the discovery table\<close>

definition published_entries :: "nat \<Rightarrow> shm_discovery \<Rightarrow> nat" where
  "published_entries slot d = unat (ne_pub_count (node_table d ! slot))"

definition table_ok :: "nat \<Rightarrow> shm_discovery \<Rightarrow> bool" where
  "table_ok slot d \<longleftrightarrow> slot < length (node_table d) \<and> published_entries slot d \<le> MAX_TOPICS_PER_NODE"

definition registers :: "endpoint_op \<Rightarrow> bool \<Rightarrow> bool" where
  "registers x b \<longleftrightarrow> b \<and> (case opens x of Some (kind, k) \<Rightarrow> kind \<noteq> Subscription | None \<Rightarrow> False)"

lemma channel_keeps_table: "pubsub_create_or_open rt name d b h = (r, h') \<Longrightarrow> h_table h' = h_table h"
  by (auto simp: pubsub_create_or_open_def split: prod.splits sum.splits)

lemma channel_for_table: "channel_for rt e name d b h = (r, h') \<Longrightarrow> h_table h' = h_table h"
  by (auto simp: channel_for_def channel_keeps_table split: option.splits if_splits)

lemma service_channel_table: "service_channel rt e k q s h = (r, h') \<Longrightarrow> h_table h' = h_table h"
  by (auto simp: service_channel_def channel_keeps_table split: option.splits)

lemma put_pubsub_table [simp]: "h_table (put_pubsub oid lp h) = h_table h"
  by (simp add: put_pubsub_def Let_def)

lemma unat_Suc_small: "unat (w :: u32) < 256 \<Longrightarrow> unat (1 + w) = Suc (unat w)"
  by (simp add: unat_word_ariths)

lemma register_published_entries [simp]:
  assumes "s_daemon_slot s = Some slot" "table_ok slot (h_table h)"
  shows "table_ok slot (h_table (register_published_topic_with_daemon k n t q s h))"
    "published_entries slot (h_table (register_published_topic_with_daemon k n t q s h)) =
       min MAX_TOPICS_PER_NODE (published_entries slot (h_table h) + 1)"
  using assms
  by (auto simp: table_ok_def published_entries_def register_published_topic_with_daemon_def change_entry_def Let_def
      unat_Suc_small)

lemma register_subscribed_entries [simp]:
  assumes "s_daemon_slot s = Some slot" "table_ok slot (h_table h)"
  shows "table_ok slot (h_table (register_subscribed_topic_with_daemon k n t q s h))"
    "published_entries slot (h_table (register_subscribed_topic_with_daemon k n t q s h)) = published_entries slot (h_table h)"
  using assms
  by (auto simp: table_ok_def published_entries_def register_subscribed_topic_with_daemon_def change_entry_def Let_def)

definition entries_after :: "endpoint_op \<Rightarrow> bool \<Rightarrow> nat \<Rightarrow> nat" where
  "entries_after x b n = (if registers x b then min MAX_TOPICS_PER_NODE (n + 1) else n)"

lemmas entry_defs = entries_after_def registers_def succeeded_def

lemma create_publisher_entries:
  assumes "create_publisher rt n t k q (s, h) = (r, s', h')" "s_daemon_slot s = Some slot" "table_ok slot (h_table h)"
  shows "s_daemon_slot s' = Some slot \<and> table_ok slot (h_table h') \<and>
    published_entries slot (h_table h') = entries_after (Create_publisher rt n t k q) (succeeded r) (published_entries slot (h_table h))"
  using assms by (auto simp: create_publisher_def Let_def entry_defs dest!: channel_for_table split: prod.splits sum.splits)

lemma create_subscription_entries:
  assumes "create_subscription mt rt n t k q (s, h) = (r, s', h')" "s_daemon_slot s = Some slot" "table_ok slot (h_table h)"
  shows "s_daemon_slot s' = Some slot \<and> table_ok slot (h_table h') \<and>
    published_entries slot (h_table h') = published_entries slot (h_table h)"
  using assms by (auto simp: create_subscription_def Let_def dest!: channel_for_table split: prod.splits sum.splits if_splits)

lemma create_client_entries:
  assumes "create_named_client rt k n t q (s, h) = (r, s', h')" "s_daemon_slot s = Some slot" "table_ok slot (h_table h)"
  shows "s_daemon_slot s' = Some slot \<and> table_ok slot (h_table h') \<and>
    published_entries slot (h_table h') = entries_after (Create_client rt k n t q) (succeeded r) (published_entries slot (h_table h))"
  using assms by (auto simp: create_named_client_def Let_def entry_defs dest!: service_channel_table split: prod.splits sum.splits)

lemma create_service_entries:
  assumes "create_named_service rt k n t q (s, h) = (r, s', h')" "s_daemon_slot s = Some slot" "table_ok slot (h_table h)"
  shows "s_daemon_slot s' = Some slot \<and> table_ok slot (h_table h') \<and>
    published_entries slot (h_table h') = entries_after (Create_service rt k n t q) (succeeded r) (published_entries slot (h_table h))"
  using assms by (auto simp: create_named_service_def Let_def entry_defs dest!: service_channel_table split: prod.splits sum.splits)

lemma destroy_slot:
  "s_daemon_slot (snd (destroy_publisher rt k s)) = s_daemon_slot s" "s_daemon_slot (snd (destroy_subscription rt k s)) = s_daemon_slot s"
  "s_daemon_slot (snd (destroy_service rt k s)) = s_daemon_slot s" "s_daemon_slot (snd (destroy_client rt k s)) = s_daemon_slot s"
  by (simp_all add: destroy_defs Let_def split: option.splits)

lemma step_entries:
  assumes "endpoint_step mt x (s, h) = (b, s', h')" "s_daemon_slot s = Some slot" "table_ok slot (h_table h)"
  shows "s_daemon_slot s' = Some slot \<and> table_ok slot (h_table h') \<and>
    published_entries slot (h_table h') = entries_after x b (published_entries slot (h_table h))"
proof (cases x)
  case (Create_publisher rt n t k q)
  then show ?thesis using assms create_publisher_entries [OF _ assms(2,3), of rt n t k q _ s' h'] by (auto split: prod.splits)
next
  case (Create_subscription rt n t k q)
  then show ?thesis using assms create_subscription_entries [OF _ assms(2,3), of mt rt n t k q _ s' h']
    by (auto simp: entry_defs split: prod.splits)
next
  case (Create_client rt k n t q)
  then show ?thesis using assms create_client_entries [OF _ assms(2,3), of rt k n t q _ s' h'] by (auto split: prod.splits)
next
  case (Create_service rt k n t q)
  then show ?thesis using assms create_service_entries [OF _ assms(2,3), of rt k n t q _ s' h'] by (auto split: prod.splits)
qed (use assms in \<open>auto simp: split_beta Let_def destroy_slot entry_defs\<close>)

lemma run_entries:
  assumes "endpoint_run mt xs (s, h) = (bs, s', h')" "s_daemon_slot s = Some slot" "table_ok slot (h_table h)"
  shows "published_entries slot (h_table h') =
    min MAX_TOPICS_PER_NODE (published_entries slot (h_table h) + length (filter (\<lambda>(x, b). registers x b) (zip xs bs)))"
  using assms
proof (induction xs arbitrary: s h bs)
  case Nil
  then show ?case by (simp add: table_ok_def)
next
  case (Cons x xs)
  obtain b s1 h1 where st: "endpoint_step mt x (s, h) = (b, s1, h1)" by (metis prod_cases3)
  then obtain bs1 where r: "endpoint_run mt xs (s1, h1) = (bs1, s', h')" and bs: "bs = b # bs1"
    using Cons.prems(1) by (auto split: prod.splits)
  show ?case
    using Cons.IH [OF r] step_entries [OF st Cons.prems(2,3)] by (auto simp: bs entries_after_def)
qed

subsection \<open>A small host\<close>

definition demo_rt :: runtime where
  "demo_rt = \<lparr> rt_os = plenty_os, rt_others = (\<lambda>t w. w), rt_time = 0, rt_eventfd = (\<lambda>_. Ok 5), rt_cross_fd = (\<lambda>_. - 1),
     rt_now = 0, rt_now_ms = 0, rt_signal_ok = (\<lambda>_. True), rt_env = (\<lambda>_. None) \<rparr>"

definition demo_host :: host where
  "demo_host = \<lparr> h_shm = empty_world, h_objects = [], h_counters = (\<lambda>_. 0),
     h_table = \<lparr> sd_header = \<lparr> sh_magic = 0, sh_daemon_pid = 0, sh_daemon_proc_starttime = 0, sh_generation = 0, sh_max_nodes = 1,
                                sh_max_topics = 256, sh_max_matches = 1 \<rparr>,
                 node_table = [entry_zero], sd_size = 0 \<rparr> \<rparr>"

definition demo_session :: "nat session" where
  "demo_session = set_daemon_slot 0 (session_new 1 0 acl_new None)"

lemma char_not_nul: "char_of (48 + n mod 10) \<noteq> CHR 0x00" for n :: nat
proof
  assume "char_of (48 + n mod 10) = CHR 0x00"
  then have "of_char (char_of (48 + n mod 10) :: char) = (of_char (CHR 0x00) :: nat)" by (rule arg_cong)
  moreover have "48 + n mod 10 < 256" by (simp add: less_trans [OF mod_less_divisor])
  ultimately show False by simp
qed

lemma show_nat_no_nul: "CHR 0x00 \<notin> set (show_nat n)"
proof (induction n rule: show_nat.induct)
  case (1 n)
  show ?case
  proof (cases "n < 10")
    case True
    then show ?thesis using char_not_nul [of n] by (subst show_nat.simps) (simp del: char_of_eq_iff)
  next
    case False
    then show ?thesis using 1 char_not_nul [of n] by (subst show_nat.simps) (simp del: char_of_eq_iff)
  qed
qed

lemma channel_name_ok: "cstring (shm_name (local_channel_name d k)) = Ok (shm_name (local_channel_name d k))"
  using show_nat_no_nul by (auto simp: cstring_def shm_name_def local_channel_name_def)

lemma demo_channel:
  assumes "shm_names (h_shm h) (shm_name (local_channel_name d k)) = None" "rt_os rt = plenty_os" "rt_eventfd rt (local_channel_name d k) = Ok fd"
    and "slot_stride_for_payload b = Ok stride"
  obtains h' where "pubsub_create_or_open rt (local_channel_name d k) sc b h = (Ok (length (h_objects h)), h')"
    "h_table h' = h_table h" "shm_names (h_shm h') = (shm_names (h_shm h))(shm_name (local_channel_name d k) \<mapsto> shm_next (h_shm h))"
proof -
  let ?n = "local_channel_name d k"
  have "\<exists>rb seg. create_with_fd plenty_os (rt_time rt) sc stride = Ok (rb, seg)"
    by (simp add: create_with_fd_def plenty_os_def fallocate_backoff.simps Let_def)
  then obtain rb seg where "create_with_fd plenty_os (rt_time rt) sc stride = Ok (rb, seg)" by blast
  then have "create_or_open plenty_os (rt_others rt) (rt_time rt) ?n sc b (h_shm h) =
      (put_segment (shm_next (h_shm h)) seg (fst (shm_create_excl (shm_name ?n) (h_shm h))), Ok (shm_next (h_shm h), rb))"
    using create_or_open_fresh [OF assms(4) channel_name_ok, of "h_shm h" d k plenty_os "rt_time rt" "rt_others rt" sc] assms(1)
    by (simp add: shm_lookup_def plenty_os_def)
  then show ?thesis using that assms(2,3)
    by (simp add: pubsub_create_or_open_def put_segment_def shm_create_excl_def)
qed

lemma demo_slot: "topic_slot_size (\<lambda>_. None) ''t'' default_command = 65536" "slot_stride_for_payload 65536 = Ok 65552"
  "service_slot_size default_command = 65576" "slot_stride_for_payload 65576 = Ok 65592"
  by (simp_all add: topic_slot_size_def topic_message_capacity_def type_capacity_def default_command_def env_var_def stride_spec Let_def
      service_slot_size_def SERVICE_ENVELOPE_HEADER_LEN_def)

lemma demo_publisher:
  assumes "s_publishers s k = None" "s_subscriptions s k = None"
    and "shm_names (h_shm h) (shm_name (local_channel_name (s_domain_id s) k)) = None"
  obtains s' h' where "create_publisher demo_rt ''/a'' ''t'' k default_command (s, h) = (Ok (), s', h')"
proof -
  obtain h1 where "pubsub_create_or_open demo_rt (local_channel_name (s_domain_id s) k)
      (of_nat (topic_ring_depth ''/a'' ''t'' default_command)) 65536 h = (Ok (length (h_objects h)), h1)"
    by (rule demo_channel [of h "s_domain_id s" k demo_rt 5 65536 65552]) (use assms(3) demo_slot in \<open>simp_all add: demo_rt_def\<close>)
  then show ?thesis using that assms(1,2) demo_slot(1)
    by (simp add: create_publisher_def channel_for_def or_else_def Let_def demo_rt_def)
qed

subsection \<open>Properties\<close>



text \<open>C39: Registrations are never released.  The number of published-topic entries of a node in the discovery table is the initial number
  plus the number of successful creations of publishers, services and clients, up to the 256 the table has room for; destroying endpoints
  does not change it.  After that many creations a new endpoint is no longer advertised, and its creation still reports success.\<close>

theorem registrations_never_released:
  assumes "endpoint_run mt xs (s, h) = (bs, s', h')" "s_daemon_slot s = Some slot" "slot < length (node_table (h_table h))"
    and "unat (ne_pub_count (node_table (h_table h) ! slot)) \<le> 256"
  shows "unat (ne_pub_count (node_table (h_table h') ! slot)) =
     min 256 (unat (ne_pub_count (node_table (h_table h) ! slot)) + length (filter (\<lambda>(x, b). registers x b) (zip xs bs)))"
  using run_entries [OF assms(1,2)] assms(3,4) by (simp add: table_ok_def published_entries_def)

theorem registrations_never_released_witness:
  "\<exists>s h. endpoint_run (\<lambda>(p :: nat) n. True) [Create_publisher demo_rt ''/a'' ''t'' 7 default_command, Destroy_publisher demo_rt 7]
       (demo_session, demo_host) = ([True, True], s, h) \<and> s_publishers s 7 = None \<and>
     unat (ne_pub_count (node_table (h_table h) ! 0)) = 1"
proof -
  obtain s h where c: "create_publisher demo_rt ''/a'' ''t'' 7 default_command (demo_session, demo_host) = (Ok (), s, h)"
    by (rule demo_publisher [of demo_session 7 demo_host])
      (simp_all add: demo_session_def set_daemon_slot_def session_new_def demo_host_def empty_world_def Let_def)
  have n: "s_publisher_counts s 7 = Some 1"
    using create_publisher_ends [OF c, of Publisher]
    by (simp add: end_count_def succeeded_def count_up_def demo_session_def set_daemon_slot_def session_new_def Let_def)
  obtain s1 where d: "destroy_publisher demo_rt 7 s = (Ok (), s1)" "s_publishers s1 7 = None"
    using n by (simp add: destroy_publisher_def Let_def)
  have r: "endpoint_run (\<lambda>(p :: nat) n. True) [Create_publisher demo_rt ''/a'' ''t'' 7 default_command, Destroy_publisher demo_rt 7]
       (demo_session, demo_host) = ([True, True], s1, h)"
    using c d by (simp add: succeeded_def)
  from registrations_never_released [OF r, of 0] r d show ?thesis
    by (simp add: demo_session_def set_daemon_slot_def demo_host_def entry_zero_def registers_def)
qed

definition failing_rt :: runtime where
  "failing_rt = demo_rt\<lparr> rt_eventfd :=
     (\<lambda>name. if name = local_channel_name 0 (service_response_topic 1) then Err StorageFull else Ok 5) \<rparr>"

lemma demo_names: "local_channel_name 0 (service_request_topic 1) \<noteq> local_channel_name 0 (service_response_topic 1)"
  by (simp add: local_channel_name_def service_request_topic_def service_response_topic_def show_nat.simps)

lemma channel_without_fd:
  assumes "rt_eventfd rt name = Err e"
  obtains e' h' where "pubsub_create_or_open rt name sc b h = (Err e', h')"
  using assms that by (fastforce simp: pubsub_create_or_open_def split: prod.splits sum.splits)

lemma failing_channels:
  assumes d: "s_domain_id s = 0" "s_domain_id s' = 0"
  obtains h1 h2 e where "service_channel failing_rt None (service_request_topic 1) default_command s demo_host = (Ok 0, h1)"
    "service_channel failing_rt None (service_response_topic 1) default_command s' h1 = (Err e, h2)"
proof -
  obtain h1 where h1: "pubsub_create_or_open failing_rt (local_channel_name 0 (service_request_topic 1)) (service_ring_depth default_command)
      65576 demo_host = (Ok (length (h_objects demo_host)), h1)"
    by (rule demo_channel [of demo_host 0 "service_request_topic 1" failing_rt 5 65576 65592])
      (use demo_slot demo_names in \<open>simp_all add: failing_rt_def demo_rt_def demo_host_def empty_world_def\<close>)
  obtain e h2 where "pubsub_create_or_open failing_rt (local_channel_name 0 (service_response_topic 1)) (service_ring_depth default_command)
      65576 h1 = (Err e, h2)"
    by (rule channel_without_fd [of failing_rt "local_channel_name 0 (service_response_topic 1)" StorageFull])
      (simp add: failing_rt_def, rule that)
  with h1 d demo_slot(3) that show ?thesis by (simp add: service_channel_def demo_host_def)
qed

text \<open>Note: What a failed creation leaves.  A client that cannot be created leaves the session as it was.  A service whose response channel
  cannot be opened is counted all the same: the call reports an error, the count is one higher and the request channel is
  stored.  If the service was not open before, it is then open without a response channel.\<close>

theorem failed_service_stays_counted:
  assumes "create_named_service rt k n t q (s, h) = (Err (Create_failed ''service response pub'' e), s', h')"
    and "create_named_client rt k n t q (s, h) = (Err e', s'', h'')"
  shows "s'' = s \<and> s_server_counts s' k = Some (case s_server_counts s k of Some c \<Rightarrow> c + 1 | None \<Rightarrow> 1) \<and>
    s_request_subs s' k \<noteq> None \<and> s_response_pubs s' k = s_response_pubs s k"
  using assms
  by (auto simp: create_named_service_def create_named_client_def Let_def count_up_def split: prod.splits sum.splits)

theorem failed_service_stays_counted_witness:
  "\<exists>e e' s h h'. create_named_service failing_rt 1 ''/add'' ''t'' default_command (demo_session, demo_host) =
       (Err (Create_failed ''service response pub'' e), s, h) \<and>
     create_named_client failing_rt 1 ''/add'' ''t'' default_command (demo_session, demo_host) = (Err e', demo_session, h') \<and>
     s_server_counts s 1 = Some 1 \<and> s_response_pubs s 1 = None"
proof -
  have f: "s_domain_id demo_session = 0" "s_request_pubs demo_session 1 = None" "s_response_subs demo_session 1 = None"
    "s_request_subs demo_session 1 = None" "s_response_pubs demo_session 1 = None" "s_server_counts demo_session 1 = None"
    by (simp_all add: demo_session_def set_daemon_slot_def session_new_def Let_def)
  let ?s1 = "demo_session\<lparr> s_request_subs := (s_request_subs demo_session)(1 \<mapsto> 0),
    s_server_counts := count_up 1 (s_server_counts demo_session) \<rparr>"
  obtain h1 h2 e where "service_channel failing_rt None (service_request_topic 1) default_command demo_session demo_host = (Ok 0, h1)"
    "service_channel failing_rt None (service_response_topic 1) default_command ?s1 h1 = (Err e, h2)"
    by (rule failing_channels [of demo_session ?s1]) (use f in simp_all)
  then have s: "create_named_service failing_rt 1 ''/add'' ''t'' default_command (demo_session, demo_host) =
       (Err (Create_failed ''service response pub'' e), ?s1, h2)"
    using f by (simp add: create_named_service_def Let_def)
  obtain h3 h4 e3 where "service_channel failing_rt None (service_request_topic 1) default_command demo_session demo_host = (Ok 0, h3)"
    "service_channel failing_rt None (service_response_topic 1) default_command demo_session h3 = (Err e3, h4)"
    by (rule failing_channels [of demo_session demo_session]) (use f in simp_all)
  then have c: "create_named_client failing_rt 1 ''/add'' ''t'' default_command (demo_session, demo_host) =
       (Err (Create_failed ''service response sub'' e3), demo_session, h4)"
    using f by (simp add: create_named_client_def Let_def)
  show ?thesis using failed_service_stays_counted [OF s c] s c f by auto
qed

end
