(* ===== verification/Spec2Isabelle.thy ===== *)
theory Spec2Isabelle
  imports Subscriber_Queue Ring_Segment Ring_Concurrency Local_PubSub Axon_Types Security_Mode
    Compress Resource_Bucket Events Peer_Discovery Peer_Sync Key_Rotation Session_Endpoints
begin

text \<open>
  A verification development of the AXON middleware core.
\<close>

end
